(* ===== verification/Prelude.thy ===== *)
theory Prelude
  imports Main "HOL-Library.Word"
begin

unbundle bit_operations_syntax

text \<open>
  Shared vocabulary of the development.

  \<^item> \<open>Machine types\<close>: the names of the Rust integer types, as words of the same width.
    \<open>usize\<close> (64 bits on the supported targets) is \<open>nat\<close>: every \<open>usize\<close> of the program is the
    length of a slice or an index into one, which a 64-bit address space bounds well below the
    wrap-around; the one place where the code adds to a length before comparing it (the netlink
    alignment) is proved free of wrap-around in the codec.
  \<^item> \<open>Fallible code\<close>: \<open>res_bind\<close> is the question-mark operator on \<open>Result\<close>; \<open>est_bind\<close> is the
    same operator for code that also threads a mutable state, where the mutations made before an
    early return persist.
  \<^item> \<open>Bytes\<close>: \<open>to_ne_bytes\<close>/\<open>from_ne_bytes\<close> on the little-endian targets (arm64, x86-64) and
    \<open>to_be_bytes\<close>/\<open>from_be_bytes\<close>, with their round trips, and the unaligned write of a value
    into a buffer.
\<close>

named_theorems byte_simps \<open>evaluation of byte encodings and of their lengths\<close>
named_theorems inv_intros \<open>preservation of component invariants\<close>

subsection \<open>Machine types\<close>

type_synonym u8 = "8 word"
type_synonym u16 = "16 word"
type_synonym u32 = "32 word"
type_synonym u64 = "64 word"
type_synonym u128 = "128 word"
type_synonym usize = nat
type_synonym bytes = "u8 list"

text \<open>\<open>usize::saturating_add\<close> on the 64-bit targets (\<open>saturating_sub\<close> is the subtraction of \<open>nat\<close>).\<close>

definition usize_sat_add :: "usize \<Rightarrow> usize \<Rightarrow> usize" where
  "usize_sat_add a b = min (a + b) (2 ^ 64 - 1)"

subsection \<open>The question-mark operator\<close>

type_synonym ('e, 'a) res = "'e + 'a"
type_synonym ('s, 'e, 'a) est = "'s \<Rightarrow> ('e + 'a) \<times> 's"

definition res_bind :: "('e, 'a) res \<Rightarrow> ('a \<Rightarrow> ('e, 'b) res) \<Rightarrow> ('e, 'b) res" where
  "res_bind m k = (case m of Inl e \<Rightarrow> Inl e | Inr a \<Rightarrow> k a)"

definition est_bind :: "('s, 'e, 'a) est \<Rightarrow> ('a \<Rightarrow> ('s, 'e, 'b) est) \<Rightarrow> ('s, 'e, 'b) est" where
  "est_bind m k s = (case m s of (Inl e, s') \<Rightarrow> (Inl e, s') | (Inr a, s') \<Rightarrow> k a s')"

lemma res_bind_simps [simp]:
  "res_bind (Inl e) k = Inl e"
  "res_bind (Inr a) k = k a"
  by (simp_all add: res_bind_def)

lemma res_bind_Inr_iff: "res_bind m k = Inr b \<longleftrightarrow> (\<exists>a. m = Inr a \<and> k a = Inr b)"
  by (cases m) simp_all

lemma res_bind_Inl_iff:
  "res_bind m k = Inl e \<longleftrightarrow> m = Inl e \<or> (\<exists>a. m = Inr a \<and> k a = Inl e)"
  by (cases m) simp_all

lemma est_bind_Inl [simp]: "m s = (Inl e, s') \<Longrightarrow> est_bind m k s = (Inl e, s')"
  by (simp add: est_bind_def)

lemma est_bind_Inr [simp]: "m s = (Inr a, s') \<Longrightarrow> est_bind m k s = k a s'"
  by (simp add: est_bind_def)

lemma est_bind_Inr_iff:
  "est_bind m k s = (Inr b, t) \<longleftrightarrow> (\<exists>a s'. m s = (Inr a, s') \<and> k a s' = (Inr b, t))"
  by (auto simp: est_bind_def split: prod.splits sum.splits)

subsection \<open>Words\<close>

lemma unat_of_nat_small: "x < 2 ^ LENGTH('a) \<Longrightarrow> unat (of_nat x :: 'a::len word) = x"
  by (simp add: unat_of_nat)

lemma unat_less_2p: "unat (w :: 'a::len word) < 2 ^ LENGTH('a)"
  by (rule unsigned_less)

subsection \<open>Bytes of a word\<close>

definition le_bytes :: "nat \<Rightarrow> 'a::len word \<Rightarrow> bytes" where
  "le_bytes n w = map (\<lambda>i. ucast (drop_bit (8 * i) w)) [0..<n]"

definition of_le_bytes :: "bytes \<Rightarrow> 'a::len word" where
  "of_le_bytes bs = foldr (\<lambda>b acc. ucast b OR push_bit 8 acc) bs 0"

definition be_bytes :: "nat \<Rightarrow> 'a::len word \<Rightarrow> bytes" where
  "be_bytes n w = rev (le_bytes n w)"

definition of_be_bytes :: "bytes \<Rightarrow> 'a::len word" where
  "of_be_bytes bs = of_le_bytes (rev bs)"

lemma length_le_bytes [simp, byte_simps]: "length (le_bytes n w) = n"
  by (simp add: le_bytes_def)

lemma length_be_bytes [simp, byte_simps]: "length (be_bytes n w) = n"
  by (simp add: be_bytes_def)

lemma of_le_bytes_simps [simp]:
  "of_le_bytes [] = 0"
  "of_le_bytes (b # bs) = ucast b OR push_bit 8 (of_le_bytes bs)"
  by (simp_all add: of_le_bytes_def)

lemma bit_of_le_bytes:
  "bit (of_le_bytes bs :: 'a::len word) k \<longleftrightarrow>
     k < LENGTH('a) \<and> k div 8 < length bs \<and> bit (bs ! (k div 8)) (k mod 8)"
proof (induction bs arbitrary: k)
  case Nil
  then show ?case by simp
next
  case (Cons b bs)
  show ?case
  proof (cases "k < 8")
    case True
    then show ?thesis by (auto simp: bit_or_iff bit_unsigned_iff bit_push_bit_iff)
  next
    case False
    then obtain j where k: "k = j + 8" by (metis add.commute le_Suc_ex not_less)
    have "\<not> bit b (j + 8)" using bit_imp_le_length [of b "j + 8"] by auto
    moreover have "(j + 8) div 8 = Suc (j div 8)" by simp
    ultimately show ?thesis
      using Cons.IH [of j] by (auto simp: k bit_or_iff bit_unsigned_iff bit_push_bit_iff)
  qed
qed

lemma of_le_bytes_le_bytes:
  assumes "LENGTH('a::len) \<le> 8 * n"
  shows "of_le_bytes (le_bytes n w) = (w :: 'a word)"
proof (rule bit_word_eqI)
  fix k assume k: "k < LENGTH('a)"
  then have "k div 8 < n" using assms by (simp add: less_mult_imp_div_less mult.commute)
  with k show "bit (of_le_bytes (le_bytes n w) :: 'a word) k = bit w k"
    by (simp add: bit_of_le_bytes le_bytes_def bit_unsigned_iff bit_drop_bit_eq)
qed

lemma le_bytes_of_le_bytes:
  assumes "length bs = n" and "8 * n \<le> LENGTH('a::len)"
  shows "le_bytes n (of_le_bytes bs :: 'a word) = bs"
proof (rule nth_equalityI)
  fix i assume "i < length (le_bytes n (of_le_bytes bs :: 'a word))"
  then have i: "i < n" by simp
  show "le_bytes n (of_le_bytes bs :: 'a word) ! i = bs ! i"
  proof (rule bit_word_eqI)
    fix k assume "k < LENGTH(8)"
    then have k: "k < 8" by simp
    have "8 * i + k < LENGTH('a)" using assms(2) i k by linarith
    with i k assms(1) show "bit (le_bytes n (of_le_bytes bs :: 'a word) ! i) k = bit (bs ! i) k"
      by (simp add: le_bytes_def bit_unsigned_iff bit_drop_bit_eq bit_of_le_bytes)
  qed
qed (use assms in simp)

lemma of_be_bytes_be_bytes:
  "LENGTH('a::len) \<le> 8 * n \<Longrightarrow> of_be_bytes (be_bytes n w) = (w :: 'a word)"
  by (simp add: of_be_bytes_def be_bytes_def of_le_bytes_le_bytes)

lemma be_bytes_of_be_bytes:
  "length bs = n \<Longrightarrow> 8 * n \<le> LENGTH('a::len) \<Longrightarrow> be_bytes n (of_be_bytes bs :: 'a word) = bs"
  by (simp add: of_be_bytes_def be_bytes_def le_bytes_of_le_bytes)

lemma le_bytes_inj:
  "LENGTH('a::len) \<le> 8 * n \<Longrightarrow> le_bytes n v = le_bytes n (w :: 'a word) \<Longrightarrow> v = w"
  by (metis of_le_bytes_le_bytes)

lemmas word_bytes_roundtrip [simp] =
  of_le_bytes_le_bytes le_bytes_of_le_bytes of_be_bytes_be_bytes be_bytes_of_be_bytes

subsection \<open>Slices\<close>

definition slice :: "nat \<Rightarrow> nat \<Rightarrow> 'a list \<Rightarrow> 'a list" where
  "slice i j xs = take (j - i) (drop i xs)"

definition write_at :: "nat \<Rightarrow> 'a list \<Rightarrow> 'a list \<Rightarrow> 'a list" where
  "write_at i src dst = take i dst @ src @ drop (i + length src) dst"

lemma length_slice [simp]: "length (slice i j xs) = min (j - i) (length xs - i)"
  by (simp add: slice_def min.commute)

lemma length_write_at [simp]:
  "i + length src \<le> length dst \<Longrightarrow> length (write_at i src dst) = length dst"
  by (simp add: write_at_def)

lemma write_at_append_zeros:
  "write_at (length xs) src (xs @ replicate n z) = xs @ src @ replicate (n - length src) z"
  by (simp add: write_at_def)

lemma take_write_at_0 [simp]: "take (length src) (write_at 0 src dst) = src"
  by (simp add: write_at_def)

lemma nth_write_at:
  "i + length src \<le> length dst \<Longrightarrow> p < length dst \<Longrightarrow>
     write_at i src dst ! p = (if i \<le> p \<and> p < i + length src then src ! (p - i) else dst ! p)"
  by (auto simp: write_at_def nth_append min_def not_less)

text \<open>\<open>Vec::resize\<close>.\<close>

definition vec_resize :: "nat \<Rightarrow> 'a \<Rightarrow> 'a list \<Rightarrow> 'a list" where
  "vec_resize n z xs = take n xs @ replicate (n - length xs) z"

lemma length_vec_resize [simp]: "length (vec_resize n z xs) = n"
  by (simp add: vec_resize_def)

lemma nth_vec_resize:
  "i < n \<Longrightarrow> vec_resize n z xs ! i = (if i < length xs then xs ! i else z)"
  by (auto simp: vec_resize_def nth_append)

lemma slice_drop_take: "slice i j xs = drop i (take j xs)"
  by (simp add: slice_def drop_take)

lemma slice_vec_resize:
  "j \<le> n \<Longrightarrow> j \<le> length xs \<Longrightarrow> slice i j (vec_resize n z xs) = slice i j xs"
  by (simp add: slice_drop_take vec_resize_def min_absorb1)

subsection \<open>Decimal formatting\<close>

fun fmt_nat :: "nat \<Rightarrow> string" where
  "fmt_nat n = (if n < 10 then [char_of (48 + n)] else fmt_nat (n div 10) @ [char_of (48 + n mod 10)])"

declare fmt_nat.simps [simp del]

definition fmt_int :: "int \<Rightarrow> string" where
  "fmt_int k = (if k < 0 then ''-'' @ fmt_nat (nat (- k)) else fmt_nat (nat k))"

subsection \<open>\<open>sort_unstable\<close> followed by \<open>dedup\<close>\<close>

definition sort_dedup :: "'a::linorder list \<Rightarrow> 'a list" where
  "sort_dedup xs = remdups_adj (sort xs)"

lemma sorted_remdups_adj_distinct:
  "sorted xs \<Longrightarrow> sorted (remdups_adj xs) \<and> distinct (remdups_adj xs)"
proof (induction xs rule: remdups_adj.induct)
  case (3 x y xs)
  then show ?case by (cases "x = y") (auto simp: antisym)
qed simp_all

lemma sort_dedup_set: "sort_dedup xs = sorted_list_of_set (set xs)"
proof -
  have "sorted (sort_dedup xs)" "distinct (sort_dedup xs)" "set (sort_dedup xs) = set xs"
    using sorted_remdups_adj_distinct [of "sort xs"] by (simp_all add: sort_dedup_def)
  then show ?thesis by (intro sorted_distinct_set_unique) simp_all
qed

end
