(* ===== verification/Linux_Abi.thy ===== *)
theory Linux_Abi
  imports Prelude
begin

text \<open>
  The constants of the Linux user-space ABI that the program takes from the \<open>libc\<close> crate:
  error numbers, address families, rtnetlink message types, netlink flags. They are fixed by the
  kernel's ABI (arm64 and x86-64 agree on all of them) and have no source lines of their own.
\<close>

subsection \<open>Error numbers\<close>

abbreviation (input) EPERM :: int where "EPERM \<equiv> 1"
abbreviation (input) ENOENT :: int where "ENOENT \<equiv> 2"
abbreviation (input) ESRCH :: int where "ESRCH \<equiv> 3"
abbreviation (input) EINTR :: int where "EINTR \<equiv> 4"
abbreviation (input) EAGAIN :: int where "EAGAIN \<equiv> 11"
abbreviation (input) EWOULDBLOCK :: int where "EWOULDBLOCK \<equiv> 11"
abbreviation (input) EEXIST :: int where "EEXIST \<equiv> 17"
abbreviation (input) ENOSYS :: int where "ENOSYS \<equiv> 38"
abbreviation (input) EPROTONOSUPPORT :: int where "EPROTONOSUPPORT \<equiv> 93"
abbreviation (input) EOPNOTSUPP :: int where "EOPNOTSUPP \<equiv> 95"
abbreviation (input) ETIMEDOUT :: int where "ETIMEDOUT \<equiv> 110"

subsection \<open>Address families\<close>

abbreviation (input) AF_INET :: int where "AF_INET \<equiv> 2"
abbreviation (input) AF_INET6 :: int where "AF_INET6 \<equiv> 10"

subsection \<open>Netlink\<close>

abbreviation (input) NLMSG_ERROR :: int where "NLMSG_ERROR \<equiv> 2"
abbreviation (input) NLMSG_DONE :: int where "NLMSG_DONE \<equiv> 3"
abbreviation (input) NLM_F_REQUEST :: u16 where "NLM_F_REQUEST \<equiv> 0x1"
abbreviation (input) NLM_F_ACK :: u16 where "NLM_F_ACK \<equiv> 0x4"
abbreviation (input) NLM_F_DUMP :: u16 where "NLM_F_DUMP \<equiv> 0x300"
abbreviation (input) NLM_F_REPLACE :: u16 where "NLM_F_REPLACE \<equiv> 0x100"
abbreviation (input) NLM_F_EXCL :: u16 where "NLM_F_EXCL \<equiv> 0x200"
abbreviation (input) NLM_F_CREATE :: u16 where "NLM_F_CREATE \<equiv> 0x400"

abbreviation (input) RTM_NEWADDR :: u16 where "RTM_NEWADDR \<equiv> 20"
abbreviation (input) RTM_DELADDR :: u16 where "RTM_DELADDR \<equiv> 21"
abbreviation (input) RTM_GETADDR :: u16 where "RTM_GETADDR \<equiv> 22"
abbreviation (input) RTM_NEWROUTE :: u16 where "RTM_NEWROUTE \<equiv> 24"
abbreviation (input) RTM_DELROUTE :: u16 where "RTM_DELROUTE \<equiv> 25"
abbreviation (input) RTM_NEWRULE :: u16 where "RTM_NEWRULE \<equiv> 32"
abbreviation (input) RTM_DELRULE :: u16 where "RTM_DELRULE \<equiv> 33"
abbreviation (input) RTM_GETRULE :: u16 where "RTM_GETRULE \<equiv> 34"

abbreviation (input) IFA_ADDRESS :: u16 where "IFA_ADDRESS \<equiv> 1"
abbreviation (input) IFA_LOCAL :: u16 where "IFA_LOCAL \<equiv> 2"

abbreviation (input) RTPROT_BOOT :: u8 where "RTPROT_BOOT \<equiv> 3"
abbreviation (input) RT_SCOPE_UNIVERSE :: u8 where "RT_SCOPE_UNIVERSE \<equiv> 0"
abbreviation (input) RT_SCOPE_HOST :: u8 where "RT_SCOPE_HOST \<equiv> 254"
abbreviation (input) RTN_UNICAST :: u8 where "RTN_UNICAST \<equiv> 1"
abbreviation (input) RTN_LOCAL :: u8 where "RTN_LOCAL \<equiv> 2"

subsection \<open>Signals\<close>

abbreviation (input) SIGINT :: int where "SIGINT \<equiv> 2"
abbreviation (input) SIGUSR1 :: int where "SIGUSR1 \<equiv> 10"
abbreviation (input) SIGTERM :: int where "SIGTERM \<equiv> 15"

end
