(* ===== verification/Errors.thy ===== *)
theory Errors
  imports Linux_Abi
begin

text \<open>
  \<^verbatim>\<open>src/error.rs\<close> and the error side of \<^verbatim>\<open>src/kernel.rs\<close>, with the socket layer's own
  mapping of missing system calls (\<^verbatim>\<open>map_required_syscall_io\<close> of \<^verbatim>\<open>src/netlink/socket.rs\<close>).

  An \<open>io::Error\<close> is what this program can observe of one: its OS error number, its kind and its
  text. Errors of the operating system come from the environment with all three filled in; the
  program itself creates errors that have a kind and a text and no number.
\<close>

datatype ErrorKind = Unsupported | InvalidInput | WriteZero | OtherKind

record io_error =
  raw_os_error :: "int option"
  io_kind :: ErrorKind
  io_text :: string

datatype AppError =
    Message string
  | Io io_error
  | Config string
  | Netlink string

definition UNSUPPORTED_SYSCALL_MSG :: string where
  "UNSUPPORTED_SYSCALL_MSG = ''unsupported kernel (<5.10 or missing required syscall)''"

definition MIN_VERSION :: string where
  "MIN_VERSION = ''5.10''"

definition unsupported_text :: string where
  "unsupported_text = UNSUPPORTED_SYSCALL_MSG @ ''; required kernel >= '' @ MIN_VERSION"

definition is_required_syscall_errno :: "int \<Rightarrow> bool" where
  "is_required_syscall_errno code \<longleftrightarrow>
     code = ENOSYS \<or> code = EOPNOTSUPP \<or> code = EPROTONOSUPPORT"

definition io_error_new :: "ErrorKind \<Rightarrow> string \<Rightarrow> io_error" where
  "io_error_new k msg = \<lparr>raw_os_error = None, io_kind = k, io_text = msg\<rparr>"

definition os_error_matches :: "io_error \<Rightarrow> (int \<Rightarrow> bool) \<Rightarrow> bool" where
  "os_error_matches e p = (case raw_os_error e of None \<Rightarrow> False | Some code \<Rightarrow> p code)"

definition map_required_syscall_io :: "io_error \<Rightarrow> io_error" where
  "map_required_syscall_io e =
     (if os_error_matches e is_required_syscall_errno
      then io_error_new Unsupported unsupported_text else e)"

definition is_transient_recv_err :: "io_error \<Rightarrow> bool" where
  "is_transient_recv_err e =
     os_error_matches e (\<lambda>code. code = EINTR \<or> code = EAGAIN \<or> code = EWOULDBLOCK)"

fun str_contains :: "string \<Rightarrow> string \<Rightarrow> bool" where
  "str_contains [] needle = (needle = [])"
| "str_contains (c # cs) needle =
     (take (length needle) (c # cs) = needle \<or> str_contains cs needle)"

definition AppError_from_io :: "io_error \<Rightarrow> AppError" where
  "AppError_from_io value =
     (if io_kind value = Unsupported \<and> str_contains (io_text value) UNSUPPORTED_SYSCALL_MSG
      then Message (io_text value) else Io value)"

definition from_required_syscall_io :: "io_error \<Rightarrow> AppError" where
  "from_required_syscall_io err =
     (if os_error_matches err is_required_syscall_errno
      then Message unsupported_text else Io err)"

fun AppError_display :: "AppError \<Rightarrow> string" where
  "AppError_display (Message s) = s"
| "AppError_display (Io e) = ''io: '' @ io_text e"
| "AppError_display (Config s) = ''config: '' @ s"
| "AppError_display (Netlink s) = ''netlink: '' @ s"

lemma map_required_syscall_io_idem [simp]:
  "map_required_syscall_io (map_required_syscall_io e) = map_required_syscall_io e"
  by (simp add: map_required_syscall_io_def io_error_new_def os_error_matches_def)

lemma transient_not_required:
  "is_transient_recv_err e \<Longrightarrow> map_required_syscall_io e = e"
  by (auto simp: map_required_syscall_io_def is_transient_recv_err_def os_error_matches_def
      is_required_syscall_errno_def split: option.splits)

lemma is_transient_map [simp]:
  "is_transient_recv_err (map_required_syscall_io e) = is_transient_recv_err e"
  by (auto simp: map_required_syscall_io_def is_transient_recv_err_def os_error_matches_def
      is_required_syscall_errno_def io_error_new_def split: option.splits)

lemma unsupported_text_contains: "str_contains unsupported_text UNSUPPORTED_SYSCALL_MSG"
  by (simp add: unsupported_text_def UNSUPPORTED_SYSCALL_MSG_def)

lemma missing_syscall_message:
  assumes "os_error_matches e is_required_syscall_errno"
  shows "AppError_from_io (map_required_syscall_io e) = Message unsupported_text"
    and "from_required_syscall_io e = Message unsupported_text"
  using assms unsupported_text_contains
  by (simp_all add: AppError_from_io_def map_required_syscall_io_def io_error_new_def
      from_required_syscall_io_def)

subsection \<open>Property of the error mapping\<close>

text \<open>
  A missing system call is reported the same way everywhere: an error of the operating system
  becomes the unsupported-kernel message on both conversion paths exactly when its number is one of
  the three that a missing call gives; every other error is passed on unchanged.
\<close>

theorem missing_syscall_reported:
  assumes "raw_os_error e = Some code" "\<not> str_contains (io_text e) UNSUPPORTED_SYSCALL_MSG"
  shows "AppError_from_io (map_required_syscall_io e) = from_required_syscall_io e \<and>
    from_required_syscall_io e =
      (if code \<in> {ENOSYS, EOPNOTSUPP, EPROTONOSUPPORT} then Message unsupported_text else Io e)"
  using assms unsupported_text_contains
  by (auto simp: AppError_from_io_def map_required_syscall_io_def io_error_new_def from_required_syscall_io_def
      os_error_matches_def is_required_syscall_errno_def)

theorem missing_syscall_reported_witness:
  "AppError_from_io (map_required_syscall_io
     \<lparr>raw_os_error = Some 38, io_kind = Unsupported, io_text = ''not implemented''\<rparr>) = Message unsupported_text"
  using missing_syscall_reported [of "\<lparr>raw_os_error = Some 38, io_kind = Unsupported, io_text = ''not implemented''\<rparr>" 38]
  by (simp add: UNSUPPORTED_SYSCALL_MSG_def)

end
