(* ===== verification/Ip.thy ===== *)
theory Ip
  imports Linux_Abi
begin

text \<open>
  \<^verbatim>\<open>src/ip_key.rs\<close> and the part of \<open>std::net\<close> the program uses.

  An \<open>Ipv4Addr\<close> (\<open>Ipv6Addr\<close>) is the 32-bit (128-bit) number its octets spell in network order, so
  \<open>octets()\<close> is the big-endian byte list. \<open>IpKey\<close> is the daemon's hash and sort key; its derived
  order puts every IPv4 key before every IPv6 key and compares numbers within a family.
\<close>

unbundle bit_operations_syntax

datatype IpAddr = IpV4 u32 | IpV6 u128

datatype IpKey = V4 u32 | V6 u128

subsection \<open>Octets and predicates of the standard library\<close>

definition ipv4_octets :: "u32 \<Rightarrow> bytes" where
  "ipv4_octets v = be_bytes 4 v"

definition ipv6_octets :: "u128 \<Rightarrow> bytes" where
  "ipv6_octets v = be_bytes 16 v"

definition ipv4_new :: "u8 \<Rightarrow> u8 \<Rightarrow> u8 \<Rightarrow> u8 \<Rightarrow> u32" where
  "ipv4_new a b c d = of_be_bytes [a, b, c, d]"

definition ipv6_from_octets :: "bytes \<Rightarrow> u128" where
  "ipv6_from_octets bs = of_be_bytes bs"

definition ipv4_is_unspecified :: "u32 \<Rightarrow> bool" where
  "ipv4_is_unspecified v \<longleftrightarrow> v = 0"

definition ipv4_is_loopback :: "u32 \<Rightarrow> bool" where
  "ipv4_is_loopback v \<longleftrightarrow> drop_bit 24 v = 127"

definition ipv4_is_link_local :: "u32 \<Rightarrow> bool" where
  "ipv4_is_link_local v \<longleftrightarrow> drop_bit 16 v = 0xA9FE"

definition ipv6_is_unspecified :: "u128 \<Rightarrow> bool" where
  "ipv6_is_unspecified v \<longleftrightarrow> v = 0"

definition ipv6_is_loopback :: "u128 \<Rightarrow> bool" where
  "ipv6_is_loopback v \<longleftrightarrow> v = 1"

definition ipv6_is_unicast_link_local :: "u128 \<Rightarrow> bool" where
  "ipv6_is_unicast_link_local v \<longleftrightarrow> drop_bit 112 v AND 0xffc0 = 0xfe80"

definition to_ipv4_mapped :: "u128 \<Rightarrow> u32 option" where
  "to_ipv4_mapped v = (if drop_bit 32 v = 0xffff then Some (ucast v) else None)"

subsection \<open>IpKey\<close>

fun from_ip :: "IpAddr \<Rightarrow> IpKey" where
  "from_ip (IpV4 v4) = V4 (of_be_bytes (ipv4_octets v4))"
| "from_ip (IpV6 v6) = V6 (of_be_bytes (ipv6_octets v6))"

fun into_ip :: "IpKey \<Rightarrow> IpAddr" where
  "into_ip (V4 raw) = IpV4 (of_be_bytes (be_bytes 4 raw))"
| "into_ip (V6 raw) = IpV6 (ipv6_from_octets (be_bytes 16 raw))"

lemma from_ip_eq: "from_ip a = (case a of IpV4 v \<Rightarrow> V4 v | IpV6 v \<Rightarrow> V6 v)"
  by (cases a) (simp_all add: ipv4_octets_def ipv6_octets_def)

lemma into_ip_eq: "into_ip k = (case k of V4 v \<Rightarrow> IpV4 v | V6 v \<Rightarrow> IpV6 v)"
  by (cases k) (simp_all add: ipv6_from_octets_def)

declare from_ip.simps [simp del] into_ip.simps [simp del]

lemma from_into [simp]: "from_ip (into_ip k) = k"
  by (cases k) (simp_all add: from_ip_eq into_ip_eq)

lemma into_from [simp]: "into_ip (from_ip a) = a"
  by (cases a) (simp_all add: from_ip_eq into_ip_eq)

lemma from_ip_inject [simp]: "from_ip a = from_ip b \<longleftrightarrow> a = b"
  by (metis into_from)

lemma into_ip_inject [simp]: "into_ip a = into_ip b \<longleftrightarrow> a = b"
  by (metis from_into)

lemma inj_into_ip: "inj into_ip"
  by (simp add: inj_on_def)

instantiation IpKey :: linorder
begin

fun less_IpKey :: "IpKey \<Rightarrow> IpKey \<Rightarrow> bool" where
  "V4 a < V4 b \<longleftrightarrow> a < b"
| "V4 a < V6 b \<longleftrightarrow> True"
| "V6 a < V4 b \<longleftrightarrow> False"
| "V6 a < V6 b \<longleftrightarrow> a < b"

definition less_eq_IpKey :: "IpKey \<Rightarrow> IpKey \<Rightarrow> bool" where
  "less_eq_IpKey a b \<longleftrightarrow> a < b \<or> a = b"

instance
proof
  fix x y z :: IpKey
  show "x < y \<longleftrightarrow> x \<le> y \<and> \<not> y \<le> x"
    by (cases x; cases y) (auto simp: less_eq_IpKey_def)
  show "x \<le> x" by (simp add: less_eq_IpKey_def)
  show "x \<le> y \<Longrightarrow> y \<le> z \<Longrightarrow> x \<le> z"
    by (cases x; cases y; cases z) (auto simp: less_eq_IpKey_def)
  show "x \<le> y \<Longrightarrow> y \<le> x \<Longrightarrow> x = y"
    by (cases x; cases y) (auto simp: less_eq_IpKey_def)
  show "x \<le> y \<or> y \<le> x"
    by (cases x; cases y) (auto simp: less_eq_IpKey_def)
qed

end

end
