(* ===== verification/Rust_Str.thy ===== *)
theory Rust_Str
  imports Prelude
begin

text \<open>
  The operations of Rust's \<open>str\<close> that the program uses. A \<open>&str\<close> is its UTF-8 byte sequence, held
  as a HOL \<open>string\<close> (an Isabelle character is a byte). \<open>str_trim\<close> removes every Unicode
  \<open>White_Space\<close> character at either end by its UTF-8 encoding, as \<open>str::trim\<close> does.
\<close>

definition ws_encodings :: "nat list list" where
  "ws_encodings =
     [[0x20], [0x09], [0x0A], [0x0B], [0x0C], [0x0D], [0xC2, 0x85], [0xC2, 0xA0],
      [0xE1, 0x9A, 0x80],
      [0xE2, 0x80, 0x80], [0xE2, 0x80, 0x81], [0xE2, 0x80, 0x82], [0xE2, 0x80, 0x83],
      [0xE2, 0x80, 0x84], [0xE2, 0x80, 0x85], [0xE2, 0x80, 0x86], [0xE2, 0x80, 0x87],
      [0xE2, 0x80, 0x88], [0xE2, 0x80, 0x89], [0xE2, 0x80, 0x8A],
      [0xE2, 0x80, 0xA8], [0xE2, 0x80, 0xA9], [0xE2, 0x80, 0xAF], [0xE2, 0x81, 0x9F],
      [0xE3, 0x80, 0x80]]"

definition starts_with :: "string \<Rightarrow> string \<Rightarrow> bool" where
  "starts_with s p \<longleftrightarrow> take (length p) s = p"

definition ends_with :: "string \<Rightarrow> string \<Rightarrow> bool" where
  "ends_with s p \<longleftrightarrow> length p \<le> length s \<and> drop (length s - length p) s = p"

text \<open>The length of the first of the given encodings that the text starts with, 0 for none.\<close>

fun leading_enc :: "nat list list \<Rightarrow> string \<Rightarrow> nat" where
  "leading_enc [] s = 0"
| "leading_enc (w # ws) s =
     (if map of_char (take (length w) s) = w then length w else leading_enc ws s)"

lemma leading_enc_le: "leading_enc ws s \<le> length s"
  by (induction ws) (auto dest: arg_cong [where f = length])

function trim_with :: "nat list list \<Rightarrow> string \<Rightarrow> string" where
  "trim_with ws s =
     (let n = leading_enc ws s in if n = 0 then s else trim_with ws (drop n s))"
  by pat_completeness auto
termination
proof (relation "measure (\<lambda>(ws, s). length s)")
  fix ws s n assume "n = leading_enc ws s" "n \<noteq> 0"
  then show "((ws, drop n s), (ws, s)) \<in> measure (\<lambda>(ws, s). length s)"
    using leading_enc_le [of ws s] by simp
qed simp

declare trim_with.simps [simp del]

definition trim_start :: "string \<Rightarrow> string" where
  "trim_start s = trim_with ws_encodings s"

definition trim_end :: "string \<Rightarrow> string" where
  "trim_end s = rev (trim_with (map rev ws_encodings) (rev s))"

definition str_trim :: "string \<Rightarrow> string" where
  "str_trim s = trim_end (trim_start s)"

lemma trim_with_suffix: "\<exists>n. trim_with ws s = drop n s"
proof (induction ws s rule: trim_with.induct)
  case (1 ws s)
  show ?case
  proof (cases "leading_enc ws s = 0")
    case True
    then have "trim_with ws s = drop 0 s" by (subst trim_with.simps) simp
    then show ?thesis ..
  next
    case False
    with 1 obtain m where "trim_with ws (drop (leading_enc ws s) s) = drop m (drop (leading_enc ws s) s)"
      by blast
    with False have "trim_with ws s = drop (m + leading_enc ws s) s"
      by (subst trim_with.simps) simp
    then show ?thesis ..
  qed
qed

lemma set_trim_with: "set (trim_with ws s) \<subseteq> set s"
  using trim_with_suffix [of ws s] by (metis set_drop_subset)

lemma set_str_trim: "set (str_trim s) \<subseteq> set s"
  using set_trim_with [of "map rev ws_encodings" "rev (trim_start s)"]
    set_trim_with [of ws_encodings s]
  by (auto simp: str_trim_def trim_end_def trim_start_def)

lemma length_str_trim: "length (str_trim s) \<le> length s"
proof -
  have "length (trim_with ws t) \<le> length t" for ws t
    using trim_with_suffix [of ws t] by (metis diff_le_self length_drop)
  then show ?thesis
    by (metis length_rev order_trans str_trim_def trim_end_def trim_start_def)
qed

subsection \<open>Bytes and UTF-8\<close>

definition as_bytes :: "string \<Rightarrow> bytes" where
  "as_bytes s = map (\<lambda>c. of_nat (of_char c)) s"

definition str_of_bytes :: "bytes \<Rightarrow> string" where
  "str_of_bytes bs = map (\<lambda>b. char_of (unat b)) bs"

definition is_ascii :: "bytes \<Rightarrow> bool" where
  "is_ascii bs \<longleftrightarrow> list_all (\<lambda>b. b < 0x80) bs"

definition utf8_cont :: "u8 \<Rightarrow> bool" where
  "utf8_cont b \<longleftrightarrow> 0x80 \<le> b \<and> b \<le> 0xBF"

text \<open>Well-formed UTF-8 (\<open>std::str::from_utf8\<close> accepts exactly this).\<close>

fun utf8_valid :: "bytes \<Rightarrow> bool" where
  "utf8_valid [] = True"
| "utf8_valid (a # as) =
     (if a < 0x80 then utf8_valid as
      else if 0xC2 \<le> a \<and> a \<le> 0xDF then
        (case as of b # bs \<Rightarrow> utf8_cont b \<and> utf8_valid bs | [] \<Rightarrow> False)
      else if 0xE0 \<le> a \<and> a \<le> 0xEF then
        (case as of b # c # cs \<Rightarrow>
            (if a = 0xE0 then 0xA0 \<le> b \<and> b \<le> 0xBF
             else if a = 0xED then 0x80 \<le> b \<and> b \<le> 0x9F
             else utf8_cont b) \<and> utf8_cont c \<and> utf8_valid cs
         | _ \<Rightarrow> False)
      else if 0xF0 \<le> a \<and> a \<le> 0xF4 then
        (case as of b # c # d # ds \<Rightarrow>
            (if a = 0xF0 then 0x90 \<le> b \<and> b \<le> 0xBF
             else if a = 0xF4 then 0x80 \<le> b \<and> b \<le> 0x8F
             else utf8_cont b) \<and> utf8_cont c \<and> utf8_cont d \<and> utf8_valid ds
         | _ \<Rightarrow> False)
      else False)"

lemma length_as_bytes [simp]: "length (as_bytes s) = length s"
  by (simp add: as_bytes_def)

lemma as_bytes_eq_Nil [simp]: "as_bytes s = [] \<longleftrightarrow> s = []"
  by (simp add: as_bytes_def)

lemma str_of_bytes_as_bytes [simp]: "str_of_bytes (as_bytes s) = s"
proof -
  have "char_of (unat (of_nat (of_char c) :: u8)) = c" for c :: char
    by (simp add: unat_of_nat)
  then show ?thesis by (simp add: as_bytes_def str_of_bytes_def comp_def)
qed

end
