(* ===== verification/Codec.thy ===== *)
theory Codec
  imports Errors Ip Rust_Str
begin

text \<open>
  \<^verbatim>\<open>src/netlink/codec.rs\<close>, \<^verbatim>\<open>src/netlink/linux_types.rs\<close> and \<^verbatim>\<open>src/netlink/raw_addr.rs\<close>: the
  netlink wire format.

  Buffers are byte lists and the \<open>#[repr(C)]\<close> structures are records with their little-endian
  layout. The message iterator is \<open>iter_next\<close>, in which an access outside the buffer is the value \<open>None\<close>;
  \<open>iter_all\<close> runs it to its end. It and the attribute parser \<open>parse_nlas\<close> are total functions; a \<open>FnMut\<close> callback of the source is a state
  transformer, so that what the callback stored before a parse error is still there afterwards.
  The thread-local sequence counter is passed explicitly.

  The lemmas give: decoding inverts encoding for messages and for attributes, every slice the
  parsers take is inside the buffer, alignment agrees with its 64-bit machine expression, and the
  sequence numbers of a batch are non-zero, distinct and mapped back to their batch index.
\<close>

unbundle bit_operations_syntax

subsection \<open>Constants\<close>

definition IFA_F_TEMPORARY :: u32 where "IFA_F_TEMPORARY = 0x01"
definition IFA_F_OPTIMISTIC :: u32 where "IFA_F_OPTIMISTIC = 0x04"
definition IFA_F_DADFAILED :: u32 where "IFA_F_DADFAILED = 0x08"
definition IFA_F_DEPRECATED :: u32 where "IFA_F_DEPRECATED = 0x20"
definition IFA_F_TENTATIVE :: u32 where "IFA_F_TENTATIVE = 0x40"
definition IFA_F_MANAGETEMPADDR :: u32 where "IFA_F_MANAGETEMPADDR = 0x100"
definition IFA_F_STABLE_PRIVACY :: u32 where "IFA_F_STABLE_PRIVACY = 0x800"

abbreviation (input) IFA_ATTR_FLAGS :: u16 where "IFA_ATTR_FLAGS \<equiv> 8"
abbreviation (input) FRA_ATTR_DST :: u16 where "FRA_ATTR_DST \<equiv> 1"
abbreviation (input) FRA_ATTR_PRIORITY :: u16 where "FRA_ATTR_PRIORITY \<equiv> 6"
abbreviation (input) FRA_ATTR_TABLE :: u16 where "FRA_ATTR_TABLE \<equiv> 15"
abbreviation (input) NLMSGERR_ATTR_MSG :: u16 where "NLMSGERR_ATTR_MSG \<equiv> 1"
abbreviation (input) NLMSGERR_ATTR_OFFS :: u16 where "NLMSGERR_ATTR_OFFS \<equiv> 2"
abbreviation (input) EXT_ACK_TEXT_MAX :: usize where "EXT_ACK_TEXT_MAX \<equiv> 96"
abbreviation (input) NLA_HEADER_LEN :: usize where "NLA_HEADER_LEN \<equiv> 4"
abbreviation (input) NLA_ALIGN_TO :: usize where "NLA_ALIGN_TO \<equiv> 4"
abbreviation (input) NLMSG_ALIGN_TO :: usize where "NLMSG_ALIGN_TO \<equiv> 4"
abbreviation (input) ROUTE_EVENT_BUFFER_SIZE :: usize where "ROUTE_EVENT_BUFFER_SIZE \<equiv> 64 * 1024"
abbreviation (input) CLEANUP_BATCH_SIZE :: usize where "CLEANUP_BATCH_SIZE \<equiv> 64"
abbreviation (input) U32_MAX :: nat where "U32_MAX \<equiv> 2 ^ 32 - 1"

subsection \<open>Alignment\<close>

definition nlmsg_align :: "usize \<Rightarrow> usize" where
  "nlmsg_align n = nat ((int n + int NLMSG_ALIGN_TO - 1) AND NOT (int NLMSG_ALIGN_TO - 1))"

definition nla_align :: "usize \<Rightarrow> usize" where
  "nla_align n = nat ((int n + int NLA_ALIGN_TO - 1) AND NOT (int NLA_ALIGN_TO - 1))"

text \<open>The same expression at the machine's width, with wrap-around.\<close>

definition align4_u64 :: "u64 \<Rightarrow> u64" where
  "align4_u64 n = (n + 4 - 1) AND NOT (4 - 1)"

lemma and_not_mask: "a AND NOT (mask n) = push_bit n (drop_bit n (a :: 'a::ring_bit_operations))"
  by (rule bit_eqI) (auto simp: bit_simps)

lemma int_align4: "(k :: int) AND - 4 = k div 4 * 4"
  using and_not_mask [of k 2] by (simp add: mask_eq_exp_minus_1 push_bit_eq_mult drop_bit_eq_div)

lemma nlmsg_align_eq: "nlmsg_align n = (n + 3) div 4 * 4"
proof -
  have "(int n + 3) div 4 * 4 = int ((n + 3) div 4 * 4)" by (simp add: zdiv_int)
  then show ?thesis by (simp add: nlmsg_align_def int_align4 add.commute)
qed

lemma nla_align_eq: "nla_align n = (n + 3) div 4 * 4"
  using nlmsg_align_eq [of n] by (simp add: nlmsg_align_def nla_align_def)

lemma align4_bounds [simp]:
  "n \<le> (n + 3) div 4 * 4" "(n + 3) div 4 * 4 < n + (4 :: nat)"
  by linarith+

lemma nlmsg_align_ge: "n \<le> nlmsg_align n"
  by (simp add: nlmsg_align_eq)

lemma nla_align_ge: "n \<le> nla_align n"
  by (simp add: nla_align_eq)

lemma align_id [simp]: "n mod 4 = 0 \<Longrightarrow> (n + 3) div 4 * 4 = (n :: nat)"
  by presburger

lemma align4_u64_eq:
  assumes "unat n + 3 < 2 ^ 64"
  shows "unat (align4_u64 n) = nlmsg_align (unat n)"
proof -
  have "unat (n + 3) = unat n + 3" using assms by (simp add: unat_word_ariths)
  moreover have "(n + 3) AND NOT 3 = push_bit 2 (drop_bit 2 (n + 3))"
    using and_not_mask [of "n + 3" 2] by (simp add: mask_eq_exp_minus_1)
  moreover have "unat (push_bit 2 (drop_bit 2 (n + 3))) = (unat (n + 3)) div 4 * 4"
    by (simp add: push_bit_eq_mult unat_word_ariths unat_drop_bit_eq drop_bit_eq_div)
  ultimately show ?thesis by (simp add: align4_u64_def nlmsg_align_eq add.commute)
qed

subsection \<open>Wire structures\<close>

record nlmsghdr =
  nlmsg_len :: u32
  nlmsg_type :: u16
  nlmsg_flags :: u16
  nlmsg_seq :: u32
  nlmsg_pid :: u32

record RtMsg =
  rtm_family :: u8
  rtm_dst_len :: u8
  rtm_src_len :: u8
  rtm_tos :: u8
  rtm_table :: u8
  rtm_protocol :: u8
  rtm_scope :: u8
  rtm_type :: u8
  rtm_flags :: u32

record IfAddrMsg =
  ifa_family :: u8
  ifa_prefixlen :: u8
  ifa_flags :: u8
  ifa_scope :: u8
  ifa_index :: u32

abbreviation (input) NLMSGHDR_SIZE :: usize where "NLMSGHDR_SIZE \<equiv> 16"
abbreviation (input) RTMSG_SIZE :: usize where "RTMSG_SIZE \<equiv> 12"
abbreviation (input) IFADDRMSG_SIZE :: usize where "IFADDRMSG_SIZE \<equiv> 8"

definition nlmsghdr_bytes :: "nlmsghdr \<Rightarrow> bytes" where
  "nlmsghdr_bytes h =
     le_bytes 4 (nlmsg_len h) @ le_bytes 2 (nlmsg_type h) @ le_bytes 2 (nlmsg_flags h) @
     le_bytes 4 (nlmsg_seq h) @ le_bytes 4 (nlmsg_pid h)"

definition read_nlmsghdr :: "bytes \<Rightarrow> nlmsghdr" where
  "read_nlmsghdr bs =
     \<lparr>nlmsg_len = of_le_bytes (slice 0 4 bs), nlmsg_type = of_le_bytes (slice 4 6 bs),
      nlmsg_flags = of_le_bytes (slice 6 8 bs), nlmsg_seq = of_le_bytes (slice 8 12 bs),
      nlmsg_pid = of_le_bytes (slice 12 16 bs)\<rparr>"

definition RtMsg_bytes :: "RtMsg \<Rightarrow> bytes" where
  "RtMsg_bytes r =
     [rtm_family r, rtm_dst_len r, rtm_src_len r, rtm_tos r, rtm_table r, rtm_protocol r,
      rtm_scope r, rtm_type r] @ le_bytes 4 (rtm_flags r)"

definition read_RtMsg :: "bytes \<Rightarrow> RtMsg" where
  "read_RtMsg bs =
     \<lparr>rtm_family = bs ! 0, rtm_dst_len = bs ! 1, rtm_src_len = bs ! 2, rtm_tos = bs ! 3,
      rtm_table = bs ! 4, rtm_protocol = bs ! 5, rtm_scope = bs ! 6, rtm_type = bs ! 7,
      rtm_flags = of_le_bytes (slice 8 12 bs)\<rparr>"

definition zero_RtMsg :: RtMsg where
  "zero_RtMsg = \<lparr>rtm_family = 0, rtm_dst_len = 0, rtm_src_len = 0, rtm_tos = 0, rtm_table = 0,
     rtm_protocol = 0, rtm_scope = 0, rtm_type = 0, rtm_flags = 0\<rparr>"

definition IfAddrMsg_bytes :: "IfAddrMsg \<Rightarrow> bytes" where
  "IfAddrMsg_bytes m =
     [ifa_family m, ifa_prefixlen m, ifa_flags m, ifa_scope m] @ le_bytes 4 (ifa_index m)"

definition read_IfAddrMsg :: "bytes \<Rightarrow> IfAddrMsg" where
  "read_IfAddrMsg bs =
     \<lparr>ifa_family = bs ! 0, ifa_prefixlen = bs ! 1, ifa_flags = bs ! 2, ifa_scope = bs ! 3,
      ifa_index = of_le_bytes (slice 4 8 bs)\<rparr>"

definition zero_IfAddrMsg :: IfAddrMsg where
  "zero_IfAddrMsg = \<lparr>ifa_family = 0, ifa_prefixlen = 0, ifa_flags = 0, ifa_scope = 0, ifa_index = 0\<rparr>"

lemma length_struct_bytes [simp, byte_simps]:
  "length (nlmsghdr_bytes h) = NLMSGHDR_SIZE"
  "length (RtMsg_bytes r) = RTMSG_SIZE"
  "length (IfAddrMsg_bytes m) = IFADDRMSG_SIZE"
  by (simp_all add: nlmsghdr_bytes_def RtMsg_bytes_def IfAddrMsg_bytes_def)

lemma read_nlmsghdr_bytes [simp]: "read_nlmsghdr (nlmsghdr_bytes h @ rest) = h"
  by (simp add: read_nlmsghdr_def nlmsghdr_bytes_def slice_def)

lemma read_RtMsg_bytes [simp]: "read_RtMsg (RtMsg_bytes r @ rest) = r"
  by (simp add: read_RtMsg_def RtMsg_bytes_def slice_def)

lemma read_IfAddrMsg_bytes [simp]: "read_IfAddrMsg (IfAddrMsg_bytes m @ rest) = m"
  by (simp add: read_IfAddrMsg_def IfAddrMsg_bytes_def slice_def)

subsection \<open>Raw address buffer\<close>

record RawAddrBuf =
  raw_bytes :: bytes
  raw_len :: usize

definition RawAddrBuf_from_slice :: "bytes \<Rightarrow> string \<Rightarrow> (AppError, RawAddrBuf) res" where
  "RawAddrBuf_from_slice value invalid_msg =
     (if value = [] \<or> length value > 16 then Inl (Netlink invalid_msg)
      else Inr \<lparr>raw_bytes = write_at 0 value (replicate 16 0), raw_len = length value\<rparr>)"

definition RawAddrBuf_as_slice :: "RawAddrBuf \<Rightarrow> bytes" where
  "RawAddrBuf_as_slice b = take (raw_len b) (raw_bytes b)"

lemma RawAddrBuf_roundtrip:
  "RawAddrBuf_from_slice v msg = Inr b \<Longrightarrow>
     RawAddrBuf_as_slice b = v \<and> length (raw_bytes b) = 16 \<and> 1 \<le> raw_len b \<and> raw_len b \<le> 16"
  by (auto simp: RawAddrBuf_from_slice_def RawAddrBuf_as_slice_def Suc_le_eq split: if_splits)

lemma RawAddrBuf_from_slice_Inr:
  "RawAddrBuf_from_slice v msg = Inr b \<longleftrightarrow>
     0 < length v \<and> length v \<le> 16 \<and>
     b = \<lparr>raw_bytes = write_at 0 v (replicate 16 0), raw_len = length v\<rparr>"
  by (auto simp: RawAddrBuf_from_slice_def)

subsection \<open>Message iterator\<close>

record NetlinkMessageView =
  nv_header :: nlmsghdr
  nv_data :: bytes

text \<open>
  Reading a header copies 16 bytes from the start of the slice, whether they are there or not; cutting a
  slice panics when its bounds are not in order or not inside. \<open>None\<close> stands for both: an access outside the buffer.
\<close>

definition read_unaligned_nlmsghdr :: "bytes \<Rightarrow> nlmsghdr option" where
  "read_unaligned_nlmsghdr raw = (if NLMSGHDR_SIZE \<le> length raw then Some (read_nlmsghdr raw) else None)"

definition subslice :: "usize \<Rightarrow> usize \<Rightarrow> bytes \<Rightarrow> bytes option" where
  "subslice lo hi raw = (if lo \<le> hi \<and> hi \<le> length raw then Some (slice lo hi raw) else None)"

definition iter_next :: "bytes \<Rightarrow> ((AppError, NetlinkMessageView) res option \<times> bytes) option" where
  "iter_next raw =
     (if raw = [] then Some (None, raw)
      else if length raw < NLMSGHDR_SIZE then Some (Some (Inl (Netlink ''short nlmsghdr'')), [])
      else
        case read_unaligned_nlmsghdr raw of
          None \<Rightarrow> None
        | Some header \<Rightarrow>
            let len = unat (nlmsg_len header) in
            if len < NLMSGHDR_SIZE \<or> len > length raw
            then Some (Some (Inl (Netlink ''invalid nlmsg len'')), [])
            else
              case subslice NLMSGHDR_SIZE len raw of
                None \<Rightarrow> None
              | Some body \<Rightarrow>
                  let step = nlmsg_align len in
                  if step > length raw then Some (Some (Inl (Netlink ''invalid nlmsg step'')), [])
                  else
                    case subslice step (length raw) raw of
                      None \<Rightarrow> None
                    | Some rest \<Rightarrow> Some (Some (Inr \<lparr>nv_header = header, nv_data = body\<rparr>), rest))"

text \<open>
  No call makes such an access, so the loops over the iterator work with its result \<open>iter_item\<close>.
\<close>

definition iter_item :: "bytes \<Rightarrow> (AppError, NetlinkMessageView) res option \<times> bytes" where
  "iter_item raw = the (iter_next raw)"

lemma iter_next_eq:
  "iter_next raw = Some
     (if raw = [] then (None, raw)
      else if length raw < NLMSGHDR_SIZE then (Some (Inl (Netlink ''short nlmsghdr'')), [])
      else
        let header = read_nlmsghdr raw; len = unat (nlmsg_len header) in
        if len < NLMSGHDR_SIZE \<or> len > length raw
        then (Some (Inl (Netlink ''invalid nlmsg len'')), [])
        else
          let body = slice NLMSGHDR_SIZE len raw; step = nlmsg_align len in
          if step > length raw then (Some (Inl (Netlink ''invalid nlmsg step'')), [])
          else (Some (Inr \<lparr>nv_header = header, nv_data = body\<rparr>), drop step raw))"
  by (simp add: iter_next_def read_unaligned_nlmsghdr_def subslice_def slice_def Let_def)

lemmas iter_item_eq = iter_item_def [unfolded iter_next_eq option.sel]

lemma iter_next_item: "iter_next raw = Some (iter_item raw)"
  by (simp add: iter_item_def iter_next_eq)

lemma iter_item_shorter: "iter_item raw = (Some r, rest) \<Longrightarrow> length rest < length raw"
  by (auto simp: iter_item_eq Let_def nlmsg_align_eq split: if_splits)

text \<open>A \<open>for\<close> loop over the iterator visits these items.\<close>

function iter_all :: "bytes \<Rightarrow> (AppError, NetlinkMessageView) res list" where
  "iter_all raw =
     (case iter_item raw of (None, _) \<Rightarrow> [] | (Some item, rest) \<Rightarrow> item # iter_all rest)"
  by pat_completeness auto
termination
  by (relation "measure length") (auto dest: iter_item_shorter [OF sym])

declare iter_all.simps [simp del]

lemma iter_all_Nil [simp]: "iter_all [] = []"
  by (simp add: iter_all.simps iter_item_eq)

text \<open>A well-formed frame: its length field is its length, which is a multiple of the alignment.\<close>

definition nl_frame :: "bytes \<Rightarrow> bool" where
  "nl_frame m \<longleftrightarrow>
     NLMSGHDR_SIZE \<le> length m \<and> unat (nlmsg_len (read_nlmsghdr m)) = length m \<and> length m mod 4 = 0"

definition frame_view :: "bytes \<Rightarrow> NetlinkMessageView" where
  "frame_view m = \<lparr>nv_header = read_nlmsghdr m, nv_data = drop NLMSGHDR_SIZE m\<rparr>"

lemma read_nlmsghdr_append:
  "NLMSGHDR_SIZE \<le> length m \<Longrightarrow> read_nlmsghdr (m @ rest) = read_nlmsghdr m"
  by (simp add: read_nlmsghdr_def slice_def)

lemma iter_all_frame:
  assumes "nl_frame m"
  shows "iter_all (m @ rest) = Inr (frame_view m) # iter_all rest"
proof -
  have "m \<noteq> []" using assms by (auto simp: nl_frame_def)
  moreover have "nlmsg_align (length m) = length m"
    using assms by (simp add: nl_frame_def nlmsg_align_eq)
  ultimately show ?thesis
    using assms
    by (subst iter_all.simps)
      (auto simp: iter_item_eq nl_frame_def frame_view_def read_nlmsghdr_append slice_def)
qed

lemma iter_all_frames:
  "list_all nl_frame ms \<Longrightarrow> iter_all (concat ms) = map (Inr \<circ> frame_view) ms"
  by (induction ms) (simp_all add: iter_all_frame)

lemma iter_item_view_bounds:
  assumes "iter_item raw = (Some (Inr v), rest)"
  shows "nv_data v = slice NLMSGHDR_SIZE (unat (nlmsg_len (nv_header v))) raw"
    and "unat (nlmsg_len (nv_header v)) = NLMSGHDR_SIZE + length (nv_data v)"
    and "rest = drop (nlmsg_align (unat (nlmsg_len (nv_header v)))) raw"
    and "nlmsg_align (unat (nlmsg_len (nv_header v))) \<le> length raw"
  using assms by (auto simp: iter_item_eq Let_def split: if_splits)

subsection \<open>Extended acknowledgement text\<close>

record ExtAckText =
  ext_len :: u8
  ext_bytes :: bytes

definition ExtAckText_from_str :: "string \<Rightarrow> ExtAckText option" where
  "ExtAckText_from_str value =
     (let trimmed = str_trim value; bs = as_bytes trimmed in
      if trimmed = [] then None
      else if \<not> is_ascii bs then None
      else
        let n = min (length bs) EXT_ACK_TEXT_MAX in
        Some \<lparr>ext_len = of_nat n,
              ext_bytes = write_at 0 (take n bs) (replicate EXT_ACK_TEXT_MAX 0)\<rparr>)"

definition ExtAckText_as_str :: "ExtAckText \<Rightarrow> string" where
  "ExtAckText_as_str t = str_of_bytes (take (unat (ext_len t)) (ext_bytes t))"

lemma ExtAckText_as_from:
  assumes "ExtAckText_from_str value = Some t"
  shows "ExtAckText_as_str t = take EXT_ACK_TEXT_MAX (str_trim value)"
    and "0 < unat (ext_len t)" "unat (ext_len t) \<le> EXT_ACK_TEXT_MAX"
proof -
  let ?bs = "as_bytes (str_trim value)"
  let ?n = "min (length ?bs) EXT_ACK_TEXT_MAX"
  from assms have ne: "str_trim value \<noteq> []"
    and t: "t = \<lparr>ext_len = of_nat ?n,
               ext_bytes = write_at 0 (take ?n ?bs) (replicate EXT_ACK_TEXT_MAX 0)\<rparr>"
    by (auto simp: ExtAckText_from_str_def Let_def split: if_splits)
  have n: "unat (of_nat ?n :: u8) = ?n" by (simp add: unat_of_nat)
  have "take ?n ?bs = as_bytes (take EXT_ACK_TEXT_MAX (str_trim value))"
    by (simp add: as_bytes_def take_map min_def)
  moreover have "take ?n (write_at 0 (take ?n ?bs) (replicate EXT_ACK_TEXT_MAX (0 :: u8))) = take ?n ?bs"
    by (simp add: write_at_def)
  ultimately show "ExtAckText_as_str t = take EXT_ACK_TEXT_MAX (str_trim value)"
    using n by (simp add: ExtAckText_as_str_def t)
  show "0 < unat (ext_len t)" "unat (ext_len t) \<le> EXT_ACK_TEXT_MAX" using n ne by (simp_all add: t)
qed

subsection \<open>Attributes\<close>

definition append_zeros :: "bytes \<Rightarrow> usize \<Rightarrow> bytes" where
  "append_zeros dst n = (if n = 0 then dst else dst @ replicate n 0)"

definition append_nla :: "bytes \<Rightarrow> u16 \<Rightarrow> bytes \<Rightarrow> bytes" where
  "append_nla dst typ payload =
     (let nla_len = NLA_HEADER_LEN + length payload;
          aligned = nla_align nla_len;
          start = length dst;
          dst1 = append_zeros dst aligned;
          dst2 = write_at start (le_bytes 2 (of_nat nla_len :: u16)) dst1;
          dst3 = write_at (start + 2) (le_bytes 2 typ) dst2
      in write_at (start + NLA_HEADER_LEN) payload dst3)"

definition append_nla_u32 :: "bytes \<Rightarrow> u16 \<Rightarrow> u32 \<Rightarrow> bytes" where
  "append_nla_u32 dst typ value = append_nla dst typ (le_bytes 4 value)"

text \<open>A callback's captured variables are the state \<open>'s\<close>.\<close>

type_synonym 's nla_cb = "u16 \<Rightarrow> bytes \<Rightarrow> 's \<Rightarrow> (AppError + unit) \<times> 's"

function parse_nlas :: "'s nla_cb \<Rightarrow> bytes \<Rightarrow> 's \<Rightarrow> (AppError + unit) \<times> 's" where
  "parse_nlas cb raw s =
     (if NLA_HEADER_LEN \<le> length raw then
        let nla_len = unat (of_le_bytes (slice 0 2 raw) :: u16);
            nla_type = of_le_bytes (slice 2 4 raw)
        in
        if nla_len < NLA_HEADER_LEN \<or> nla_len > length raw
        then (Inl (Netlink ''invalid nla len''), s)
        else
          (case cb nla_type (slice NLA_HEADER_LEN nla_len raw) s of
             (Inl e, s') \<Rightarrow> (Inl e, s')
           | (Inr _, s') \<Rightarrow>
               let step = nla_align nla_len in
               if step > length raw then (Inl (Netlink ''invalid nla step''), s')
               else parse_nlas cb (drop step raw) s')
      else if raw \<noteq> [] then (Inl (Netlink ''unexpected trailing nla bytes''), s)
      else (Inr (), s))"
  by pat_completeness auto
termination
proof (relation "measure (\<lambda>(cb, raw, s). length raw)", goal_cases)
  case (2 cb raw s x xa)
  then show ?case using nla_align_ge [of x] by auto
qed simp

declare parse_nlas.simps [simp del]

text \<open>The bytes one attribute occupies.\<close>

definition nla_enc :: "u16 \<Rightarrow> bytes \<Rightarrow> bytes" where
  "nla_enc typ payload =
     le_bytes 2 (of_nat (NLA_HEADER_LEN + length payload) :: u16) @ le_bytes 2 typ @ payload @
     replicate (nla_align (NLA_HEADER_LEN + length payload) - (NLA_HEADER_LEN + length payload)) 0"

lemma length_nla_enc [simp, byte_simps]:
  "length (nla_enc typ payload) = nla_align (NLA_HEADER_LEN + length payload)"
  using nla_align_ge [of "4 + length payload"] by (simp add: nla_enc_def)

lemma append_nla_eq: "append_nla dst typ payload = dst @ nla_enc typ payload"
proof -
  let ?n = "4 + length payload"
  have "?n \<le> nla_align ?n" by (rule nla_align_ge)
  then obtain pad where pad: "nla_align ?n = ?n + pad" using le_Suc_ex by blast
  have "replicate (nla_align ?n) (0 :: u8) =
      replicate 2 0 @ replicate 2 0 @ replicate (length payload) 0 @ replicate pad 0"
    unfolding pad by (simp add: numeral_eq_Suc replicate_add)
  then show ?thesis
    using pad by (simp add: append_nla_def nla_enc_def append_zeros_def write_at_def)
qed

lemma append_nla_u32_eq: "append_nla_u32 dst typ value = dst @ nla_enc typ (le_bytes 4 value)"
  by (simp add: append_nla_u32_def append_nla_eq)

lemma parse_nlas_enc:
  assumes "length payload + NLA_HEADER_LEN < 2 ^ 16"
  shows "parse_nlas cb (nla_enc typ payload @ rest) s =
    (case cb typ payload s of (Inl e, s') \<Rightarrow> (Inl e, s') | (Inr _, s') \<Rightarrow> parse_nlas cb rest s')"
proof -
  let ?n = "4 + length payload"
  have n: "unat (of_nat ?n :: u16) = ?n" using assms by (intro unat_of_nat_small) simp
  have ge: "?n \<le> nla_align ?n" by (rule nla_align_ge)
  have len: "of_le_bytes (slice 0 2 (nla_enc typ payload @ rest)) = (of_nat ?n :: u16)"
    and ty: "of_le_bytes (slice 2 4 (nla_enc typ payload @ rest)) = typ"
    and pay: "slice 4 ?n (nla_enc typ payload @ rest) = payload"
    by (simp_all add: nla_enc_def slice_def)
  have "4 \<le> length (nla_enc typ payload @ rest)" "?n \<le> length (nla_enc typ payload @ rest)"
    using ge by auto
  moreover have "drop (nla_align ?n) (nla_enc typ payload @ rest) = rest" by simp
  ultimately show ?thesis
    by (subst parse_nlas.simps)
      (simp add: len ty pay n Let_def del: of_nat_add split: prod.splits sum.splits)
qed

lemma parse_nlas_Nil [simp]: "parse_nlas cb [] s = (Inr (), s)"
  by (simp add: parse_nlas.simps)

text \<open>Running a callback over a list of attributes, without the wire format.\<close>

fun run_nlas :: "'s nla_cb \<Rightarrow> (u16 \<times> bytes) list \<Rightarrow> 's \<Rightarrow> (AppError + unit) \<times> 's" where
  "run_nlas cb [] s = (Inr (), s)"
| "run_nlas cb ((t, p) # as) s =
     (case cb t p s of (Inl e, s') \<Rightarrow> (Inl e, s') | (Inr _, s') \<Rightarrow> run_nlas cb as s')"

definition enc_nlas :: "(u16 \<times> bytes) list \<Rightarrow> bytes" where
  "enc_nlas as = concat (map (\<lambda>(t, p). nla_enc t p) as)"

definition nla_fits :: "u16 \<times> bytes \<Rightarrow> bool" where
  "nla_fits a \<longleftrightarrow> length (snd a) + NLA_HEADER_LEN < 2 ^ 16"

lemma enc_nlas_simps [simp]:
  "enc_nlas [] = []" "enc_nlas ((t, p) # as) = nla_enc t p @ enc_nlas as"
  by (simp_all add: enc_nlas_def)

lemma parse_nlas_enc_nlas:
  "list_all nla_fits as \<Longrightarrow> parse_nlas cb (enc_nlas as) s = run_nlas cb as s"
proof (induction cb as s rule: run_nlas.induct)
  case (1 cb s)
  then show ?case by simp
next
  case (2 cb t p as s)
  then show ?case
    by (auto simp: parse_nlas_enc nla_fits_def split: prod.splits sum.splits)
qed

text \<open>The value the last suitable attribute of a type carries.\<close>

fun last_u32 :: "u16 \<Rightarrow> (u16 \<times> bytes) list \<Rightarrow> u32 option \<Rightarrow> u32 option" where
  "last_u32 ty [] d = d"
| "last_u32 ty ((t, v) # as) d =
     last_u32 ty as (if t = ty \<and> 4 \<le> length v then Some (of_le_bytes (take 4 v)) else d)"

fun last_raw :: "u16 \<Rightarrow> (u16 \<times> bytes) list \<Rightarrow> bytes option \<Rightarrow> bytes option" where
  "last_raw ty [] d = d"
| "last_raw ty ((t, v) # as) d = last_raw ty as (if t = ty then Some v else d)"

lemma last_u32_Some: "\<exists>y. last_u32 ty as (Some x) = Some y"
  by (induction ty as "Some x" arbitrary: x rule: last_u32.induct) auto

subsection \<open>Requests\<close>

text \<open>The body is passed as the bytes of its \<open>repr(C)\<close> structure.\<close>

definition build_netlink_request :: "u16 \<Rightarrow> u16 \<Rightarrow> u32 \<Rightarrow> bytes \<Rightarrow> bytes" where
  "build_netlink_request mtype mflags seq body =
     (let body_len = length body;
          total = NLMSGHDR_SIZE + body_len;
          msg0 = append_zeros [] total;
          hdr = \<lparr>nlmsg_len = of_nat total, nlmsg_type = mtype, nlmsg_flags = mflags,
                 nlmsg_seq = seq, nlmsg_pid = 0\<rparr>;
          msg1 = write_at 0 (nlmsghdr_bytes hdr) msg0;
          msg2 = write_at NLMSGHDR_SIZE body msg1;
          aligned = nlmsg_align (length msg2);
          pad = aligned - length msg2
      in if pad > 0 then append_zeros msg2 pad else msg2)"

lemma build_netlink_request_eq:
  assumes "length body mod 4 = 0"
  shows "build_netlink_request mtype mflags seq body =
    nlmsghdr_bytes \<lparr>nlmsg_len = of_nat (NLMSGHDR_SIZE + length body), nlmsg_type = mtype,
      nlmsg_flags = mflags, nlmsg_seq = seq, nlmsg_pid = 0\<rparr> @ body"
proof -
  let ?h = "nlmsghdr_bytes \<lparr>nlmsg_len = of_nat (16 + length body), nlmsg_type = mtype,
      nlmsg_flags = mflags, nlmsg_seq = seq, nlmsg_pid = 0\<rparr>"
  have "write_at 16 body (write_at 0 ?h (append_zeros [] (16 + length body))) = ?h @ body"
    by (simp add: write_at_def append_zeros_def)
  moreover have "nlmsg_align (16 + length body) = 16 + length body"
    using assms by (subst nlmsg_align_eq, subst align_id) (auto simp: mod_simps)
  ultimately show ?thesis
    by (simp add: build_netlink_request_def Let_def del: of_nat_add)
qed

lemma build_netlink_request_frame:
  assumes "length body mod 4 = 0" "NLMSGHDR_SIZE + length body < 2 ^ 32"
  shows "nl_frame (build_netlink_request mtype mflags seq body)"
    and "nv_data (frame_view (build_netlink_request mtype mflags seq body)) = body"
    and "nlmsg_seq (nv_header (frame_view (build_netlink_request mtype mflags seq body))) = seq"
    and "nlmsg_type (nv_header (frame_view (build_netlink_request mtype mflags seq body))) = mtype"
    and "nlmsg_flags (nv_header (frame_view (build_netlink_request mtype mflags seq body))) = mflags"
proof -
  have "unat (of_nat (16 + length body) :: u32) = 16 + length body"
    using assms(2) by (intro unat_of_nat_small) simp
  moreover have "(16 + length body) mod 4 = 0" using assms(1) by (auto simp: mod_simps)
  ultimately show "nl_frame (build_netlink_request mtype mflags seq body)"
    using assms(1) by (simp add: build_netlink_request_eq nl_frame_def del: of_nat_add)
qed (use assms(1) in \<open>simp_all add: build_netlink_request_eq frame_view_def\<close>)

subsection \<open>Acknowledgements\<close>

record AckErrorInfo =
  ack_errno :: int
  ack_ext_msg :: "ExtAckText option"
  ack_ext_offset :: "u32 option"

text \<open>The kernel sends the negated error number; \<open>-code\<close> is a 32-bit negation (it wraps for
  \<open>i32::MIN\<close>, as the release profile does).\<close>

definition parse_ack_errno :: "bytes \<Rightarrow> (AppError, int option) res" where
  "parse_ack_errno d =
     (if length d < 4 then Inl (Netlink ''short nlmsg error'')
      else
        let code = of_le_bytes (slice 0 4 d) :: u32 in
        if code = 0 then Inr None else Inr (Some (sint (- code))))"

definition ack_attr_cb :: "(ExtAckText option \<times> u32 option) nla_cb" where
  "ack_attr_cb ty value s =
     (if ty = NLMSGERR_ATTR_MSG then
        let text = takeWhile (\<lambda>b. b \<noteq> 0) value in
        (Inr (),
         if utf8_valid text
         then (case ExtAckText_from_str (str_of_bytes text) of
                 Some t \<Rightarrow> (Some t, snd s) | None \<Rightarrow> s)
         else s)
      else if ty = NLMSGERR_ATTR_OFFS \<and> length value \<ge> 4
      then (Inr (), (fst s, Some (of_le_bytes (slice 0 4 value))))
      else (Inr (), s))"

definition parse_ack_error_info :: "bytes \<Rightarrow> (AppError, AckErrorInfo option) res" where
  "parse_ack_error_info d =
     res_bind (parse_ack_errno d) (\<lambda>errno_opt.
       case errno_opt of
         None \<Rightarrow> Inr None
       | Some errno \<Rightarrow>
           let nlmsgerr_len = 4 + NLMSGHDR_SIZE;
               off = nlmsg_align nlmsgerr_len;
               attrs = (if off \<le> length d then drop off d else []);
               ext = snd (parse_nlas ack_attr_cb attrs (None, None))
           in Inr (Some \<lparr>ack_errno = errno, ack_ext_msg = fst ext, ack_ext_offset = snd ext\<rparr>))"

lemma parse_ack_error_info_cases:
  "parse_ack_error_info d =
     (case parse_ack_errno d of
        Inl e \<Rightarrow> Inl e
      | Inr None \<Rightarrow> Inr None
      | Inr (Some errno) \<Rightarrow>
          let ext = snd (parse_nlas ack_attr_cb (drop 20 d) (None, None))
          in Inr (Some \<lparr>ack_errno = errno, ack_ext_msg = fst ext, ack_ext_offset = snd ext\<rparr>))"
  by (auto simp: parse_ack_error_info_def nlmsg_align_eq Let_def split: sum.splits option.splits)

text \<open>What the kernel puts in front of the attributes of an acknowledgement: the negated error
  number and the header of the request.\<close>

lemma parse_ack_errno_enc:
  assumes "0 \<le> e" "e < 2 ^ 31"
  shows "parse_ack_errno (le_bytes 4 (word_of_int (- e) :: u32) @ rest) =
    Inr (if e = 0 then None else Some e)"
proof -
  have s: "sint (- (word_of_int (- e)) :: u32) = e"
    using assms by (simp add: word_of_int_minus sint_sbintrunc' signed_take_bit_int_eq_self)
  then have "(word_of_int (- e) :: u32) = 0 \<longleftrightarrow> e = 0" by auto
  with s show ?thesis by (simp add: parse_ack_errno_def slice_def)
qed

subsection \<open>Sequence numbers\<close>

definition normalize_seq :: "u32 \<Rightarrow> u32" where
  "normalize_seq value = (if value = 0 then 1 else value)"

definition seq_advance :: "u32 \<Rightarrow> usize \<Rightarrow> u32" where
  "seq_advance start steps =
     (let span = U32_MAX;
          start' = unat (normalize_seq start);
          offset = steps mod span
      in of_nat (((start' - 1 + offset) mod span) + 1))"

definition seq_with_offset :: "u32 \<Rightarrow> usize \<Rightarrow> u32" where
  "seq_with_offset first_seq offset = seq_advance (normalize_seq first_seq) offset"

definition seq_to_batch_index :: "u32 \<Rightarrow> u32 \<Rightarrow> usize \<Rightarrow> usize option" where
  "seq_to_batch_index seq first_seq batch_len =
     (if batch_len = 0 then None
      else if seq = 0 then None
      else
        let span = U32_MAX;
            start = unat (normalize_seq first_seq);
            current = unat (normalize_seq seq);
            delta = (if current \<ge> start then current - start else span - (start - current))
        in if delta < batch_len then Some delta else None)"

text \<open>\<open>NEXT_SEQ\<close> is a thread-local cell: the operations take its value and return the new one.\<close>

definition reserve_seq_block :: "u32 \<Rightarrow> usize \<Rightarrow> u32 \<times> u32" where
  "reserve_seq_block cell count =
     (let steps = max count 1; current = normalize_seq cell
      in (current, seq_advance current steps))"

definition next_seq :: "u32 \<Rightarrow> u32 \<times> u32" where
  "next_seq cell = reserve_seq_block cell 1"

lemma normalize_seq_pos [simp]: "0 < unat (normalize_seq v)"
  by (auto simp: normalize_seq_def unat_gt_0)

lemma normalize_seq_nz [simp]: "normalize_seq v \<noteq> 0"
  by (simp add: normalize_seq_def)

lemma normalize_seq_idem [simp]: "normalize_seq (normalize_seq v) = normalize_seq v"
  by (simp add: normalize_seq_def)

lemma unat_u32_le: "unat (w :: u32) \<le> U32_MAX"
  using unat_less_2p [of w] by simp

lemma unat_seq_advance:
  "unat (seq_advance start steps) = (unat (normalize_seq start) - 1 + steps) mod U32_MAX + 1"
proof -
  have "(unat (normalize_seq start) - 1 + steps) mod U32_MAX < U32_MAX" by simp
  then show ?thesis
    unfolding seq_advance_def Let_def mod_add_right_eq by (subst unat_of_nat_small) simp_all
qed

lemma unat_seq_with_offset:
  "unat (seq_with_offset f i) = (unat (normalize_seq f) - 1 + i) mod U32_MAX + 1"
  by (simp add: seq_with_offset_def unat_seq_advance)

lemma seq_advance_nz [simp]: "seq_advance start steps \<noteq> 0"
  using unat_seq_advance [of start steps] by (metis add_eq_0_iff_both_eq_0 unat_0 zero_neq_one)

lemma seq_with_offset_nz [simp]: "seq_with_offset f i \<noteq> 0"
  by (simp add: seq_with_offset_def)

lemma ring_distance:
  fixes a c m :: nat
  assumes "a < m" "c < m"
  shows "(if a \<le> c then c - a else m - (a - c)) = d \<longleftrightarrow> d < m \<and> (a + d) mod m = c"
proof -
  have wrap: "(a + d) mod m = (if a + d < m then a + d else a + d - m)" if "d < m"
    using that assms by (simp add: mod_if [of "a + d"])
  show ?thesis
    using assms by (cases "d < m") (auto simp: wrap)
qed

lemma seq_to_batch_index_iff:
  "seq_to_batch_index seq f n = Some i \<longleftrightarrow> i < n \<and> i < U32_MAX \<and> seq = seq_with_offset f i"
proof (cases "seq = 0")
  case True
  then show ?thesis
    using seq_with_offset_nz [of f i] by (auto simp: seq_to_batch_index_def)
next
  case False
  let ?a = "unat (normalize_seq f) - 1"
  let ?c = "unat seq - 1"
  have pos: "0 < unat seq" using False by (simp add: unat_gt_0)
  have a: "?a < U32_MAX" and c: "?c < U32_MAX"
    using unat_u32_le [of "normalize_seq f"] unat_u32_le [of seq] pos by auto
  have le: "unat (normalize_seq f) \<le> unat seq \<longleftrightarrow> ?a \<le> ?c"
    using pos normalize_seq_pos [of f] by linarith
  have "seq_to_batch_index seq f n = Some i \<longleftrightarrow>
      i < n \<and> (if ?a \<le> ?c then ?c - ?a else U32_MAX - (?a - ?c)) = i"
    using False pos normalize_seq_pos [of f] le
    by (auto simp: seq_to_batch_index_def Let_def normalize_seq_def split: if_splits)
  also have "\<dots> \<longleftrightarrow> i < n \<and> i < U32_MAX \<and> (?a + i) mod U32_MAX = ?c"
    by (subst ring_distance [OF a c]) simp
  also have "(?a + i) mod U32_MAX = ?c \<longleftrightarrow> unat seq = unat (seq_with_offset f i)"
    using pos by (simp add: unat_seq_with_offset) linarith
  finally show ?thesis by (simp add: word_unat_eq_iff)
qed

lemma seq_with_offset_inj:
  "i < U32_MAX \<Longrightarrow> j < U32_MAX \<Longrightarrow> seq_with_offset f i = seq_with_offset f j \<Longrightarrow> i = j"
  using seq_to_batch_index_iff [of "seq_with_offset f i" f U32_MAX i]
    seq_to_batch_index_iff [of "seq_with_offset f i" f U32_MAX j]
  by simp

lemma normalize_seq_advance [simp]: "normalize_seq (seq_advance s n) = seq_advance s n"
  by (simp add: normalize_seq_def)

lemma seq_with_offset_advance:
  "seq_with_offset (seq_advance s n) i = seq_with_offset s (n + i)"
  by (simp add: word_unat_eq_iff unat_seq_with_offset unat_seq_advance mod_add_left_eq add.assoc)

subsection \<open>Properties of the wire format\<close>

lemma iter_all_cases:
  obtains (stop) "iter_item raw = (None, raw)" "iter_all raw = []"
  | (bad) e where "iter_all raw = [Inl e]"
  | (view) v rest where "iter_item raw = (Some (Inr v), rest)" "iter_all raw = Inr v # iter_all rest"
proof -
  have bad: "\<exists>e. iter_all raw = [Inl e]" if "iter_item raw = (Some (Inl e), rest)" for e rest
  proof -
    have "rest = []" using that by (auto simp: iter_item_eq Let_def split: if_splits)
    with that show ?thesis by (subst iter_all.simps) simp
  qed
  obtain q rest where n: "iter_item raw = (q, rest)" by fastforce
  show thesis
  proof (cases q)
    case None
    with n have "rest = raw" by (auto simp: iter_item_eq Let_def split: if_splits)
    with n None show thesis by (intro stop) (simp_all add: iter_all.simps [of raw])
  next
    case (Some it)
    show thesis
    proof (cases it)
      case (Inl e)
      with n Some bad that(2) show thesis by blast
    next
      case (Inr v)
      with n Some show thesis by (intro view) (simp_all add: iter_all.simps [of raw])
    qed
  qed
qed

definition view_at :: "bytes \<Rightarrow> usize \<Rightarrow> NetlinkMessageView \<Rightarrow> bool" where
  "view_at raw off v \<longleftrightarrow>
     NLMSGHDR_SIZE \<le> unat (nlmsg_len (nv_header v)) \<and> off + unat (nlmsg_len (nv_header v)) \<le> length raw \<and>
     nv_header v = read_nlmsghdr (drop off raw) \<and>
     nv_data v = slice (off + NLMSGHDR_SIZE) (off + unat (nlmsg_len (nv_header v))) raw"

lemma view_at_drop: "view_at (drop n raw) off v \<Longrightarrow> n \<le> length raw \<Longrightarrow> view_at raw (n + off) v"
  by (auto simp: view_at_def slice_def ac_simps)

lemma iter_item_view_at: "iter_item raw = (Some (Inr v), rest) \<Longrightarrow> view_at raw 0 v"
  by (auto simp: iter_item_eq view_at_def Let_def split: if_splits)

text \<open>
  The items of a buffer from an offset on: messages one after the other, each where the one before ended,
  up to the end of the buffer or to an error, which is the last item.
\<close>

fun items_from :: "bytes \<Rightarrow> usize \<Rightarrow> (AppError, NetlinkMessageView) res list \<Rightarrow> bool" where
  "items_from raw off [] \<longleftrightarrow> off = length raw"
| "items_from raw off (Inl e # items) \<longleftrightarrow> off < length raw \<and> items = []"
| "items_from raw off (Inr v # items) \<longleftrightarrow>
     view_at raw off v \<and> items_from raw (off + nlmsg_align (unat (nlmsg_len (nv_header v)))) items"

lemma items_from_drop: "n \<le> length raw \<Longrightarrow> items_from (drop n raw) off items \<Longrightarrow> items_from raw (n + off) items"
  by (induction "drop n raw" off items rule: items_from.induct) (auto dest: view_at_drop simp: add.assoc)

lemma iter_all_items: "items_from raw 0 (iter_all raw)"
proof (induction raw rule: iter_all.induct)
  case (1 raw)
  show ?case
  proof (cases raw rule: iter_all_cases)
    case stop
    then have "raw = []" by (auto simp: iter_item_eq Let_def split: if_splits)
    with stop show ?thesis by simp
  next
    case (bad e)
    then have "raw \<noteq> []" by auto
    with bad show ?thesis by simp
  next
    case (view v rest)
    note IH = "1" [OF view(1) [symmetric] refl]
    let ?n = "nlmsg_align (unat (nlmsg_len (nv_header v)))"
    have rest: "rest = drop ?n raw" "?n \<le> length raw" using iter_item_view_bounds(3,4) [OF view(1)] .
    have "items_from raw (?n + 0) (iter_all rest)" using items_from_drop [OF rest(2)] IH by (simp only: rest(1))
    with iter_item_view_at [OF view(1)] view(2) show ?thesis by simp
  qed
qed

text \<open>
  C9. Reading a received buffer is memory safe and exact: whatever the bytes are, no step of the iterator
  reads a header, takes a body or moves on outside the buffer; the messages it yields lie in the buffer, header
  and body, one after the other from its start, each at the aligned end of the one before, and it stops at the
  end of the buffer or with an error as its last item.
\<close>

theorem iter_all_safe: "iter_next raw \<noteq> None \<and> items_from raw 0 (iter_all raw)"
  using iter_all_items by (simp add: iter_next_item)

text \<open>
  C10. Attributes round-trip: appending any list of attributes that fit their 16-bit length to a message
  and parsing what was appended runs the callback on exactly these attributes, in order, whatever the
  callback does.
\<close>

theorem append_parse_nlas:
  assumes "list_all nla_fits as"
  shows "parse_nlas cb (drop (length dst) (fold (\<lambda>(t, p) d. append_nla d t p) as dst)) s = run_nlas cb as s"
proof -
  have "fold (\<lambda>(t, p) d. append_nla d t p) as dst = dst @ enc_nlas as"
    by (induction as arbitrary: dst) (auto simp: append_nla_eq)
  with parse_nlas_enc_nlas [OF assms] show ?thesis by simp
qed

theorem append_parse_nlas_witness:
  "parse_nlas (\<lambda>t p acc. (Inr (), acc @ [(t, p)]))
     (drop 1 (fold (\<lambda>(t, p) d. append_nla d t p) [(1, [10, 0, 0, 1]), (15, [5])] [0])) [] =
   (Inr (), [(1, [10, 0, 0, 1]), (15, [5])])"
  using append_parse_nlas [of "[(1, [10, 0, 0, 1]), (15, [5])]"
      "\<lambda>t p acc. (Inr (), acc @ [(t, p)])" "[0]" "[]"]
  by (simp add: nla_fits_def)

text \<open>
  A request is read back as it was built: iterating over a buffer that starts with a built request
  yields its header fields and its body, and goes on right after it.
\<close>

theorem request_roundtrip:
  assumes "length body mod 4 = 0" "NLMSGHDR_SIZE + length body < 2 ^ 32"
  shows "iter_all (build_netlink_request mtype mflags seq body @ rest) =
    Inr \<lparr>nv_header = \<lparr>nlmsg_len = of_nat (NLMSGHDR_SIZE + length body), nlmsg_type = mtype,
           nlmsg_flags = mflags, nlmsg_seq = seq, nlmsg_pid = 0\<rparr>, nv_data = body\<rparr> # iter_all rest"
  using iter_all_frame [OF build_netlink_request_frame(1) [OF assms], of mtype mflags seq rest]
  by (simp add: frame_view_def build_netlink_request_eq [OF assms(1)])

theorem request_roundtrip_witness:
  "iter_all (build_netlink_request RTM_GETADDR 0x301 7 [2, 0, 0, 0, 0, 0, 0, 0] @ []) =
   [Inr \<lparr>nv_header = \<lparr>nlmsg_len = 24, nlmsg_type = RTM_GETADDR, nlmsg_flags = 0x301, nlmsg_seq = 7,
      nlmsg_pid = 0\<rparr>, nv_data = [2, 0, 0, 0, 0, 0, 0, 0]\<rparr>]"
  using request_roundtrip [of "[2, 0, 0, 0, 0, 0, 0, 0]" RTM_GETADDR "0x301" 7 "[]"] by simp

text \<open>
  Sequence numbers identify the operations of a batch: the index computed for a sequence number is
  \<open>Some i\<close> exactly when it is the number the \<open>i\<close>-th message of the batch was sent with, also when
  the numbers wrap around past \<open>u32::MAX\<close> (0 is never used).
\<close>

theorem seq_index_inverse:
  "seq_to_batch_index seq first_seq batch_len = Some i \<longleftrightarrow>
     i < batch_len \<and> i < U32_MAX \<and> seq = seq_with_offset first_seq i"
  by (rule seq_to_batch_index_iff)

text \<open>
  Answers to an earlier batch never count for the next one: the sequence blocks of two consecutive
  reservations do not overlap, so no number of the first block has an index in the second batch.
\<close>

theorem seq_blocks_disjoint:
  assumes "reserve_seq_block cell n = (first, cell')" "reserve_seq_block cell' m = (second, cell'')"
    "0 < n" "n + m \<le> U32_MAX" "i < n"
  shows "seq_to_batch_index (seq_with_offset first i) second m = None"
proof (rule ccontr)
  assume "seq_to_batch_index (seq_with_offset first i) second m \<noteq> None"
  then obtain j where j: "j < m" "seq_with_offset first i = seq_with_offset second j"
    by (auto simp: seq_to_batch_index_iff)
  have s: "second = seq_advance first n"
    using assms(1-3) by (auto simp: reserve_seq_block_def Let_def)
  have "i = n + j"
    by (rule seq_with_offset_inj [of _ _ first])
      (use assms j in \<open>simp_all add: s seq_with_offset_advance\<close>)
  with assms(5) show False by simp
qed

theorem seq_blocks_disjoint_witness:
  "seq_to_batch_index (seq_with_offset 0xFFFFFFFE 1) 2 5 = None"
  using seq_blocks_disjoint [of "0xFFFFFFFE" 3 "0xFFFFFFFE" 2 5 2 7 1]
  by (simp add: reserve_seq_block_def seq_advance_def normalize_seq_def)

text \<open>
  The error number of an acknowledgement survives the wire: the kernel's negated number is read
  back as the number, 0 as success, and the attributes after the echoed request header cannot change it.
\<close>

theorem ack_error_roundtrip:
  assumes "0 \<le> e" "e < 2 ^ 31"
  shows "case parse_ack_error_info (le_bytes 4 (word_of_int (- e) :: u32) @ rest) of
      Inl _ \<Rightarrow> False | Inr None \<Rightarrow> e = 0 | Inr (Some info) \<Rightarrow> e \<noteq> 0 \<and> ack_errno info = e"
  using parse_ack_errno_enc [OF assms, of rest]
  by (simp add: parse_ack_error_info_cases Let_def)

theorem ack_error_roundtrip_witness:
  "case parse_ack_error_info (le_bytes 4 (word_of_int (- 17) :: u32) @ replicate 16 0) of
      Inl _ \<Rightarrow> False | Inr None \<Rightarrow> (17 :: int) = 0 | Inr (Some info) \<Rightarrow> (17 :: int) \<noteq> 0 \<and> ack_errno info = 17"
  using ack_error_roundtrip [of 17 "replicate 16 0"] by simp

end
