(* ===== verification/World.thy ===== *)
theory World
  imports Codec
begin

text \<open>
  The operating system as the program sees it: the two netlink sockets, the monotonic clock, \<open>poll\<close>
  and the thread-local sequence cell, with the calls of \<^verbatim>\<open>src/netlink/socket.rs\<close> that send and
  receive and \<open>wait_readable\<close> of \<^verbatim>\<open>src/kernel.rs\<close>.

  What the kernel will answer is an argument of the model: each socket holds the results that its
  successive \<open>recvmmsg\<close> and \<open>sendmmsg\<close>/\<open>sendto\<close> calls will have, the world holds the successive
  readings of the clock and the successive results of \<open>poll\<close>. Theorems quantify over all of them. An
  exhausted receive script means that nothing is queued (\<open>EAGAIN\<close>), an exhausted send script that the
  kernel accepts everything, an exhausted poll script that nothing becomes readable before the
  timeout. Instants and durations are in nanoseconds.

  \<open>sock_recv\<close> is \<open>recv_many\<close> followed by reading every received packet out of the ring; the ring
  itself is modelled in theory \<open>Socket\<close>, where it is proved to deliver exactly these packets.
\<close>

datatype recv_result = RecvErr io_error | RecvOk "bytes list"

datatype poll_result = PollTimeout | PollReady | PollErr io_error

datatype SockId = RouteSock | RuleSock

record sock =
  rx_script :: "recv_result list"
  tx_script :: "(io_error + nat) list"
  tx_log :: "bytes list"

record world =
  socks :: "SockId \<Rightarrow> sock"
  times :: "nat list"
  clock :: nat
  polls :: "poll_result list"
  poll_log :: "int list"
  seq_cell :: u32

definition upd_sock :: "SockId \<Rightarrow> (sock \<Rightarrow> sock) \<Rightarrow> world \<Rightarrow> world" where
  "upd_sock sid f w = w\<lparr>socks := (socks w)(sid := f (socks w sid))\<rparr>"

subsection \<open>Time\<close>

definition instant_now :: "world \<Rightarrow> nat \<times> world" where
  "instant_now w =
     (case times w of
        [] \<Rightarrow> (clock w, w)
      | t # ts \<Rightarrow> (max (clock w) t, w\<lparr>clock := max (clock w) t, times := ts\<rparr>))"

abbreviation (input) millis :: "nat \<Rightarrow> nat" where "millis n \<equiv> n * 1000000"
abbreviation (input) secs :: "nat \<Rightarrow> nat" where "secs n \<equiv> n * 1000000000"

lemma instant_now_frame [simp]:
  "socks (snd (instant_now w)) = socks w"
  "polls (snd (instant_now w)) = polls w"
  "poll_log (snd (instant_now w)) = poll_log w"
  "seq_cell (snd (instant_now w)) = seq_cell w"
  by (simp_all add: instant_now_def split: list.splits)

lemma instant_now_mono: "clock w \<le> fst (instant_now w)"
  "clock (snd (instant_now w)) = fst (instant_now w)"
  by (auto simp: instant_now_def split: list.splits)

subsection \<open>Waiting for a descriptor\<close>

definition poll_timeout_ms :: "nat \<Rightarrow> nat \<Rightarrow> int" where
  "poll_timeout_ms now deadline = min (int ((deadline - now) div 1000000)) (2 ^ 31 - 1)"

function wait_readable :: "nat \<Rightarrow> (world, AppError, bool) est" where
  "wait_readable deadline w =
     (let (now, w1) = instant_now w in
      if now \<ge> deadline then (Inr False, w1)
      else
        let w2 = w1\<lparr>poll_log := poll_log w1 @ [poll_timeout_ms now deadline]\<rparr> in
        case polls w2 of
          [] \<Rightarrow> (Inr False, w2)
        | p # ps \<Rightarrow>
            let w3 = w2\<lparr>polls := ps\<rparr> in
            (case p of
               PollTimeout \<Rightarrow> (Inr False, w3)
             | PollErr err \<Rightarrow>
                 if os_error_matches err (\<lambda>code. code = EINTR) then wait_readable deadline w3
                 else (Inl (Io err), w3)
             | PollReady \<Rightarrow> (Inr True, w3)))"
  by pat_completeness auto
termination
  by (relation "measure (\<lambda>(d, w). length (polls w))")
    (auto simp: instant_now_def split: list.splits)

declare wait_readable.simps [simp del]

lemma wait_readable_frame:
  "wait_readable d w = (r, w') \<Longrightarrow>
     socks w' = socks w \<and> seq_cell w' = seq_cell w \<and> length (polls w') \<le> length (polls w) \<and>
     (r = Inr True \<longrightarrow> length (polls w') < length (polls w))"
proof (induction "length (polls w)" arbitrary: w r w' rule: less_induct)
  case less
  obtain now w1 where nw: "instant_now w = (now, w1)" by fastforce
  have f: "socks w1 = socks w" "polls w1 = polls w" "seq_cell w1 = seq_cell w"
    using instant_now_frame [of w] nw by simp_all
  let ?w = "\<lambda>ps. w1\<lparr>poll_log := poll_log w1 @ [poll_timeout_ms now d], polls := ps\<rparr>"
  show ?case
  proof (cases "\<exists>e ps. now < d \<and> polls w = PollErr e # ps \<and> os_error_matches e (\<lambda>code. code = EINTR)")
    case True
    then obtain e ps where
      e: "now < d" "polls w = PollErr e # ps" "os_error_matches e (\<lambda>code. code = EINTR)" by blast
    with less.prems nw f have "wait_readable d (?w ps) = (r, w')"
      by (subst (asm) wait_readable.simps) simp
    from less.hyps [OF _ this] e(2) f show ?thesis by auto
  next
    case False
    with less.prems nw f show ?thesis
      by (subst (asm) wait_readable.simps)
        (auto simp: Let_def split: poll_result.splits if_splits list.splits)
  qed
qed

subsection \<open>Receiving\<close>

definition eagain_error :: io_error where
  "eagain_error = \<lparr>raw_os_error = Some EAGAIN, io_kind = OtherKind,
     io_text = ''Resource temporarily unavailable (os error 11)''\<rparr>"

definition sock_recv :: "usize \<Rightarrow> SockId \<Rightarrow> world \<Rightarrow> (io_error, bytes list) res \<times> world" where
  "sock_recv slots sid w =
     (case rx_script (socks w sid) of
        [] \<Rightarrow> (Inl eagain_error, w)
      | RecvErr e # rest \<Rightarrow>
          (Inl (map_required_syscall_io e), upd_sock sid (\<lambda>s. s\<lparr>rx_script := rest\<rparr>) w)
      | RecvOk pkts # rest \<Rightarrow>
          let n = min slots (length pkts) in
          (Inr (map (take ROUTE_EVENT_BUFFER_SIZE) (take n pkts)),
           upd_sock sid (\<lambda>s. s\<lparr>rx_script :=
             (if n < length pkts then RecvOk (drop n pkts) # rest else rest)\<rparr>) w))"

text \<open>The number of receive calls the script can still answer with something.\<close>

fun rx_weight1 :: "recv_result \<Rightarrow> nat" where
  "rx_weight1 (RecvErr e) = 1"
| "rx_weight1 (RecvOk pkts) = Suc (length pkts)"

definition rx_weight :: "SockId \<Rightarrow> world \<Rightarrow> nat" where
  "rx_weight sid w = sum_list (map rx_weight1 (rx_script (socks w sid)))"

lemma sock_recv_weight:
  assumes "sock_recv slots sid w = (r, w')"
  shows "rx_weight sid w' \<le> rx_weight sid w"
    and "r \<noteq> Inl eagain_error \<Longrightarrow> r \<noteq> Inr [] \<Longrightarrow> rx_weight sid w' < rx_weight sid w"
  using assms
  by (auto simp: sock_recv_def rx_weight_def upd_sock_def Let_def
      split: list.splits recv_result.splits if_splits)

lemma sock_recv_frame:
  assumes "sock_recv slots sid w = (r, w')"
  shows "polls w' = polls w" "seq_cell w' = seq_cell w" "clock w' = clock w" "times w' = times w"
    "tx_log (socks w' i) = tx_log (socks w i)" "tx_script (socks w' i) = tx_script (socks w i)"
    "i \<noteq> sid \<Longrightarrow> socks w' i = socks w i"
  using assms
  by (auto simp: sock_recv_def upd_sock_def Let_def
      split: list.splits recv_result.splits if_splits)

lemma sock_recv_count: "sock_recv slots sid w = (Inr pkts, w') \<Longrightarrow> length pkts \<le> slots"
  by (auto simp: sock_recv_def Let_def split: list.splits recv_result.splits)

subsection \<open>Sending\<close>

definition sock_send :: "SockId \<Rightarrow> bytes \<Rightarrow> world \<Rightarrow> (io_error, unit) res \<times> world" where
  "sock_send sid d w =
     (case tx_script (socks w sid) of
        Inl e # rest \<Rightarrow>
          (Inl (map_required_syscall_io e), upd_sock sid (\<lambda>s. s\<lparr>tx_script := rest\<rparr>) w)
      | Inr _ # rest \<Rightarrow>
          (Inr (), upd_sock sid (\<lambda>s. s\<lparr>tx_script := rest, tx_log := tx_log s @ [d]\<rparr>) w)
      | [] \<Rightarrow> (Inr (), upd_sock sid (\<lambda>s. s\<lparr>tx_log := tx_log s @ [d]\<rparr>) w))"

text \<open>
  The \<open>sendmmsg\<close> loop of \<open>send_many_raw\<close>: each call accepts some number of the remaining messages.
\<close>

function send_loop :: "SockId \<Rightarrow> bytes list \<Rightarrow> world \<Rightarrow> (io_error, unit) res \<times> world" where
  "send_loop sid msgs w =
     (if msgs = [] then (Inr (), w)
      else
        case tx_script (socks w sid) of
          [] \<Rightarrow> (Inr (), upd_sock sid (\<lambda>s. s\<lparr>tx_log := tx_log s @ msgs\<rparr>) w)
        | Inl e # rest \<Rightarrow>
            (Inl (map_required_syscall_io e), upd_sock sid (\<lambda>s. s\<lparr>tx_script := rest\<rparr>) w)
        | Inr rc # rest \<Rightarrow>
            if rc = 0
            then (Inl (io_error_new WriteZero ''sendmmsg wrote 0''),
                  upd_sock sid (\<lambda>s. s\<lparr>tx_script := rest\<rparr>) w)
            else
              let n = min rc (length msgs) in
              send_loop sid (drop n msgs)
                (upd_sock sid (\<lambda>s. s\<lparr>tx_script := rest, tx_log := tx_log s @ take n msgs\<rparr>) w))"
  by pat_completeness auto
termination
  by (relation "measure (\<lambda>(sid, msgs, w). length msgs)") auto

declare send_loop.simps [simp del]

definition send_many_raw ::
  "SockId \<Rightarrow> bytes list \<Rightarrow> usize list \<Rightarrow> world \<Rightarrow> (io_error, unit) res \<times> world" where
  "send_many_raw sid ptrs lens w =
     (if length ptrs \<noteq> length lens
      then (Inl (io_error_new InvalidInput ''ptr/lens size mismatch''), w)
      else if ptrs = [] then (Inr (), w)
      else send_loop sid (map2 (\<lambda>p n. take n p) ptrs lens) w)"

lemma send_loop_log:
  "send_loop sid msgs w = (r, w') \<Longrightarrow>
     \<exists>k \<le> length msgs.
       tx_log (socks w' sid) = tx_log (socks w sid) @ take k msgs \<and> (r = Inr () \<longrightarrow> k = length msgs)"
proof (induction sid msgs w arbitrary: r w' rule: send_loop.induct)
  case (1 sid msgs w)
  show ?case
  proof (cases "msgs = []")
    case True
    with "1.prems" show ?thesis by (auto simp: send_loop.simps)
  next
    case ne: False
    show ?thesis
    proof (cases "tx_script (socks w sid)")
      case Nil
      with ne "1.prems" show ?thesis
        by (intro exI [of _ "length msgs"]) (auto simp: send_loop.simps [of sid msgs] upd_sock_def)
    next
      case (Cons x rest)
      show ?thesis
      proof (cases x)
        case (Inl e)
        with Cons ne "1.prems" show ?thesis
          by (intro exI [of _ 0]) (auto simp: send_loop.simps [of sid msgs] upd_sock_def)
      next
        case (Inr rc)
        show ?thesis
        proof (cases "rc = 0")
          case True
          with Inr Cons ne "1.prems" show ?thesis
            by (intro exI [of _ 0]) (auto simp: send_loop.simps [of sid msgs] upd_sock_def)
        next
          case False
          let ?n = "min rc (length msgs)"
          let ?w = "upd_sock sid (\<lambda>s. s\<lparr>tx_script := rest, tx_log := tx_log s @ take ?n msgs\<rparr>) w"
          have step: "send_loop sid (drop ?n msgs) ?w = (r, w')"
            using "1.prems" Inr Cons ne False by (auto simp: send_loop.simps [of sid msgs] Let_def)
          from "1.IH" [OF ne Cons Inr False refl step] obtain k where
            k: "k \<le> length (drop ?n msgs)"
              "tx_log (socks w' sid) = tx_log (socks ?w sid) @ take k (drop ?n msgs)"
              "r = Inr () \<longrightarrow> k = length (drop ?n msgs)"
            by blast
          have "take ?n msgs @ take k (drop ?n msgs) = take (?n + k) msgs" by (simp add: take_add)
          with k show ?thesis
            by (intro exI [of _ "?n + k"]) (auto simp: upd_sock_def)
        qed
      qed
    qed
  qed
qed

lemma send_loop_frame:
  "send_loop sid msgs w = (r, w') \<Longrightarrow>
     polls w' = polls w \<and> seq_cell w' = seq_cell w \<and> clock w' = clock w \<and> times w' = times w \<and>
     (\<forall>i. rx_script (socks w' i) = rx_script (socks w i)) \<and> (\<forall>i. i \<noteq> sid \<longrightarrow> socks w' i = socks w i)"
proof (induction sid msgs w arbitrary: r w' rule: send_loop.induct)
  case (1 sid msgs w)
  show ?case
  proof (cases "\<exists>rc rest. msgs \<noteq> [] \<and> tx_script (socks w sid) = Inr rc # rest \<and> rc \<noteq> 0")
    case True
    then obtain rc rest where
      c: "msgs \<noteq> []" "tx_script (socks w sid) = Inr rc # rest" "rc \<noteq> 0" by blast
    let ?n = "min rc (length msgs)"
    let ?w = "upd_sock sid (\<lambda>s. s\<lparr>tx_script := rest, tx_log := tx_log s @ take ?n msgs\<rparr>) w"
    have "send_loop sid (drop ?n msgs) ?w = (r, w')"
      using "1.prems" c by (auto simp: send_loop.simps [of sid msgs] Let_def)
    from "1.IH" [OF c(1) c(2) refl c(3) refl this] show ?thesis
      by (simp add: upd_sock_def)
  next
    case False
    with "1.prems" show ?thesis
      by (subst (asm) send_loop.simps)
        (auto simp: upd_sock_def Let_def split: if_splits list.splits sum.splits)
  qed
qed

subsection \<open>Properties of waiting\<close>

text \<open>A world in which nothing is queued and nothing fails.\<close>

definition quiet_world :: world where
  "quiet_world = \<lparr>socks = (\<lambda>_. \<lparr>rx_script = [], tx_script = [], tx_log = []\<rparr>), times = [], clock = 0,
     polls = [], poll_log = [], seq_cell = 1\<rparr>"

lemma send_loop_quiet: "tx_script (socks w sid) = [] \<Longrightarrow> \<exists>w'. send_loop sid msgs w = (Inr (), w')"
  by (subst send_loop.simps) auto

text \<open>The \<open>k\<close>-th reading of the clock from now on, and what the \<open>k\<close>-th call of \<open>poll\<close> leads to: nothing, if it is interrupted.\<close>

primrec reading :: "world \<Rightarrow> nat \<Rightarrow> nat" where
  "reading w 0 = fst (instant_now w)"
| "reading w (Suc k) = reading (snd (instant_now w)) k"

definition poll_answer :: "poll_result list \<Rightarrow> nat \<Rightarrow> (AppError, bool) res option" where
  "poll_answer ps k =
     (if k < length ps
      then case ps ! k of
             PollTimeout \<Rightarrow> Some (Inr False)
           | PollReady \<Rightarrow> Some (Inr True)
           | PollErr e \<Rightarrow> if os_error_matches e (\<lambda>code. code = EINTR) then None else Some (Inl (Io e))
      else Some (Inr False))"

lemma reading_cong: "times w = times w' \<Longrightarrow> clock w = clock w' \<Longrightarrow> reading w k = reading w' k"
proof (induction k arbitrary: w w')
  case 0
  then show ?case by (simp add: instant_now_def split: list.split)
next
  case (Suc k)
  have "times (snd (instant_now w)) = times (snd (instant_now w'))" "clock (snd (instant_now w)) = clock (snd (instant_now w'))"
    using Suc.prems by (simp_all add: instant_now_def split: list.split)
  then show ?case unfolding reading.simps by (rule Suc.IH)
qed

lemma poll_answer_Cons: "poll_answer (p # ps) (Suc k) = poll_answer ps k"
  by (simp add: poll_answer_def)

lemma poll_timeout_bounds:
  assumes "t < d"
  shows "0 \<le> poll_timeout_ms t d" "poll_timeout_ms t d \<le> 2 ^ 31 - 1" "int t + poll_timeout_ms t d * 1000000 \<le> int d"
proof -
  have "poll_timeout_ms t d * 1000000 \<le> int (d - t)"
    unfolding poll_timeout_ms_def by (simp add: min_def zdiv_int) linarith
  with assms show "int t + poll_timeout_ms t d * 1000000 \<le> int d" by simp
qed (simp_all add: poll_timeout_ms_def)

text \<open>A wait of \<open>n\<close> calls of \<open>poll\<close> that ends with the result \<open>r\<close>.\<close>

definition waited :: "nat \<Rightarrow> world \<Rightarrow> nat \<Rightarrow> (AppError, bool) res \<Rightarrow> bool" where
  "waited d w n r \<longleftrightarrow>
     (\<forall>k < n. reading w k < d) \<and>
     (d \<le> reading w n \<and> r = Inr False \<and> (\<forall>k < n. poll_answer (polls w) k = None) \<or>
      (\<exists>m. n = Suc m \<and> poll_answer (polls w) m = Some r \<and> (\<forall>k < m. poll_answer (polls w) k = None)))"

lemma all_less_Suc: "(\<forall>k < Suc n. P k) \<longleftrightarrow> P 0 \<and> (\<forall>k < n. P (Suc k))"
  by (metis less_Suc_eq_0_disj)

lemma waited_again:
  assumes "fst (instant_now w) < d" "poll_answer (polls w) 0 = None" "waited d w' n r"
    "\<And>k. reading w' k = reading w (Suc k)" "\<And>k. poll_answer (polls w') k = poll_answer (polls w) (Suc k)"
  shows "waited d w (Suc n) r"
proof -
  have lt: "\<forall>k < Suc n. reading w k < d"
    using assms(1,3,4) by (simp add: waited_def all_less_Suc)
  have "d \<le> reading w (Suc n) \<and> r = Inr False \<and> (\<forall>k < Suc n. poll_answer (polls w) k = None)
      \<or> (\<exists>m. n = Suc m \<and> poll_answer (polls w) (Suc m) = Some r \<and> (\<forall>k < Suc m. poll_answer (polls w) k = None))"
    using assms(2,3) unfolding waited_def all_less_Suc assms(4,5) by blast
  with lt show ?thesis unfolding waited_def by blast
qed

lemma wait_readable_waited:
  "\<exists>n. waited d w n (fst (wait_readable d w)) \<and>
     poll_log (snd (wait_readable d w)) = poll_log w @ map (\<lambda>k. poll_timeout_ms (reading w k) d) [0..<n]"
proof (induction "length (polls w)" arbitrary: w rule: less_induct)
  case less
  obtain t w1 where nw: "instant_now w = (t, w1)" by fastforce
  have f: "polls w1 = polls w" "poll_log w1 = poll_log w" using instant_now_frame [of w] nw by simp_all
  let ?w = "\<lambda>ps. w1\<lparr>poll_log := poll_log w @ [poll_timeout_ms t d], polls := ps\<rparr>"
  show ?case
  proof (cases "t < d \<and> poll_answer (polls w) 0 = None")
    case True
    then obtain e ps where e: "polls w = PollErr e # ps" "os_error_matches e (\<lambda>code. code = EINTR)"
      by (cases "polls w") (auto simp: poll_answer_def split: poll_result.splits if_splits)
    have eq: "wait_readable d w = wait_readable d (?w ps)"
      using True nw f e by (subst wait_readable.simps) simp
    have rd: "reading (?w ps) k = reading w (Suc k)" for k
      using reading_cong [of "?w ps" w1] nw by simp
    obtain n where n: "waited d (?w ps) n (fst (wait_readable d w))"
      "poll_log (snd (wait_readable d w)) = poll_log (?w ps) @ map (\<lambda>k. poll_timeout_ms (reading (?w ps) k) d) [0..<n]"
      using less.hyps [of "?w ps"] e(1) unfolding eq by auto
    have "waited d w (Suc n) (fst (wait_readable d w))"
      using True nw e(1) by (intro waited_again [OF _ _ n(1) rd]) (simp_all add: poll_answer_Cons)
    moreover have "poll_log (?w ps) @ map (\<lambda>k. poll_timeout_ms (reading (?w ps) k) d) [0..<n] =
        poll_log w @ map (\<lambda>k. poll_timeout_ms (reading w k) d) [0..<Suc n]"
      unfolding rd by (simp add: map_upt_Suc nw del: upt_Suc)
    ultimately show ?thesis using n(2) by metis
  next
    case False
    have "waited d w (if t < d then 1 else 0) (fst (wait_readable d w)) \<and>
        poll_log (snd (wait_readable d w)) = poll_log w @ (if t < d then [poll_timeout_ms t d] else [])"
      using False nw f
      by (subst (1 2) wait_readable.simps)
        (auto simp: waited_def poll_answer_def Let_def nth_Cons' split: poll_result.splits if_splits list.splits)
    with nw show ?thesis by (intro exI [of _ "if t < d then 1 else 0"]) simp
  qed
qed

lemma waited_bound: "waited d w n r \<Longrightarrow> n \<le> Suc (length (takeWhile (\<lambda>p. poll_answer [p] 0 = None) (polls w)))"
proof -
  assume "waited d w n r"
  then have a: "poll_answer (polls w) k = None" if "k < n - 1" for k using that by (auto simp: waited_def)
  have "n - 1 \<le> length (takeWhile (\<lambda>p. poll_answer [p] 0 = None) (polls w))"
  proof (rule ccontr)
    assume "\<not> n - 1 \<le> length (takeWhile (\<lambda>p. poll_answer [p] 0 = None) (polls w))"
    then have l: "length (takeWhile (\<lambda>p. poll_answer [p] 0 = None) (polls w)) < n - 1" (is "?l < _") by simp
    then have "poll_answer (polls w) ?l = None" by (rule a)
    moreover from this have "?l < length (polls w)" by (auto simp: poll_answer_def split: if_splits)
    then have "poll_answer [polls w ! ?l] 0 \<noteq> None" by (rule nth_length_takeWhile)
    ultimately show False using \<open>?l < length (polls w)\<close> by (simp add: poll_answer_def split: poll_result.splits if_splits)
  qed
  then show ?thesis by simp
qed

text \<open>
  C23. Waiting for a descriptor never overshoots its deadline: the clock is read anew before every call of
  \<open>poll\<close>, and the timeout handed to the \<open>k\<close>-th call is the time left at that reading in whole milliseconds, a
  non-negative 32-bit number that does not reach past the deadline. Only interrupted calls are repeated, so there
  is at most one call more than interruptions; the result is that of the first call that was not
  interrupted, or \<open>false\<close> without a further call as soon as a reading has reached the deadline.
\<close>

theorem wait_readable_timeouts:
  "\<exists>n. poll_log (snd (wait_readable d w)) = poll_log w @ map (\<lambda>k. poll_timeout_ms (reading w k) d) [0..<n] \<and>
     (\<forall>k < n. reading w k < d \<and> 0 \<le> poll_timeout_ms (reading w k) d \<and> poll_timeout_ms (reading w k) d \<le> 2 ^ 31 - 1 \<and>
        int (reading w k) + poll_timeout_ms (reading w k) d * 1000000 \<le> int d) \<and>
     n \<le> Suc (length (takeWhile (\<lambda>p. poll_answer [p] 0 = None) (polls w))) \<and>
     (d \<le> reading w n \<and> fst (wait_readable d w) = Inr False \<and> (\<forall>k < n. poll_answer (polls w) k = None) \<or>
      (\<exists>m. n = Suc m \<and> poll_answer (polls w) m = Some (fst (wait_readable d w)) \<and>
         (\<forall>k < m. poll_answer (polls w) k = None)))"
proof -
  obtain n where n: "waited d w n (fst (wait_readable d w))"
    "poll_log (snd (wait_readable d w)) = poll_log w @ map (\<lambda>k. poll_timeout_ms (reading w k) d) [0..<n]"
    using wait_readable_waited by blast
  have "\<forall>k < n. reading w k < d" using n(1) by (simp add: waited_def)
  then have "\<forall>k < n. reading w k < d \<and> 0 \<le> poll_timeout_ms (reading w k) d \<and> poll_timeout_ms (reading w k) d \<le> 2 ^ 31 - 1 \<and>
      int (reading w k) + poll_timeout_ms (reading w k) d * 1000000 \<le> int d"
    using poll_timeout_bounds by blast
  with n waited_bound [OF n(1)] show ?thesis unfolding waited_def by blast
qed

text \<open>A wait of ten milliseconds that is interrupted after four.\<close>

definition interrupted_world :: world where
  "interrupted_world = quiet_world\<lparr>times := [millis 1, millis 4],
     polls := [PollErr \<lparr>raw_os_error = Some EINTR, io_kind = OtherKind, io_text = []\<rparr>, PollReady]\<rparr>"

theorem wait_readable_timeouts_witness:
  "fst (wait_readable (millis 10) interrupted_world) = Inr True \<and>
   poll_log (snd (wait_readable (millis 10) interrupted_world)) = [9, 6]"
proof -
  have r: "reading interrupted_world 0 = millis 1" "reading interrupted_world (Suc 0) = millis 4"
    by (simp_all add: interrupted_world_def quiet_world_def instant_now_def)
  have p: "poll_answer (polls interrupted_world) 0 = None" "poll_answer (polls interrupted_world) (Suc 0) = Some (Inr True)"
    by (simp_all add: interrupted_world_def poll_answer_def os_error_matches_def)
  obtain n where n: "poll_log (snd (wait_readable (millis 10) interrupted_world)) =
      poll_log interrupted_world @ map (\<lambda>k. poll_timeout_ms (reading interrupted_world k) (millis 10)) [0..<n]"
    "millis 10 \<le> reading interrupted_world n \<and> (\<forall>k < n. poll_answer (polls interrupted_world) k = None) \<or>
      (\<exists>m. n = Suc m \<and> poll_answer (polls interrupted_world) m = Some (fst (wait_readable (millis 10) interrupted_world)) \<and>
         (\<forall>k < m. poll_answer (polls interrupted_world) k = None))"
    using wait_readable_timeouts [of "millis 10" interrupted_world] by blast
  have two: "\<exists>k < n. poll_answer (polls interrupted_world) k \<noteq> None" if "2 \<le> n" for n
    using p(2) that by (intro exI [of _ "Suc 0"]) simp
  consider "n = 0" | "n = 1" | "n = 2" | "3 \<le> n" by linarith
  then show ?thesis
  proof cases
    case 3
    with n p(2) r show ?thesis by (auto simp: numeral_2_eq_2 poll_timeout_ms_def interrupted_world_def quiet_world_def)
  next
    case 4
    with n(2) two [of n] two [of "n - 1"] show ?thesis by auto
  qed (use n(2) r p(1) in auto)
qed

end
