(* ===== verification/Socket.thy ===== *)
theory Socket
  imports World
begin

unbundle bit_operations_syntax

text \<open>
  \<^verbatim>\<open>src/netlink/socket.rs\<close>: the batch receive ring \<open>MmsgRxRing\<close>, \<open>recv_many\<close> and the socket options.

  The ring hands the kernel raw pointers into its own slab. A pointer is modelled as the identity of
  the allocation it was taken from and an offset; replacing the slab or the vector of \<open>iovec\<close>s gives
  them a new identity, so a stale pointer is one whose identity is not the current one, and a write
  through it is lost. The ring invariant says that no stored pointer is stale and that every slot
  addresses its own part of the slab; every operation keeps it.

  The locale \<open>rx_ring\<close> is the interface the daemon's receive loops rely on: receiving delivers the
  datagrams of \<open>sock_recv\<close>, and growing the ring between receiving and reading keeps the packets.
\<close>

record iovec =
  iov_base :: "nat \<times> nat"
  iov_len :: nat

record mmsghdr =
  msg_iov :: "nat \<times> nat"
  msg_len :: nat

record MmsgRxRing =
  slab :: bytes
  slab_id :: nat
  buf_size :: usize
  lengths :: "usize list"
  iovecs :: "iovec list"
  iovecs_id :: nat
  hdrs :: "mmsghdr list"

abbreviation (input) MMSG_SLOTS :: usize where "MMSG_SLOTS \<equiv> 8"

definition zero_iovec :: iovec where "zero_iovec = \<lparr>iov_base = (0, 0), iov_len = 0\<rparr>"
definition zero_mmsghdr :: mmsghdr where "zero_mmsghdr = \<lparr>msg_iov = (0, 0), msg_len = 0\<rparr>"

definition rebuild_headers :: "MmsgRxRing \<Rightarrow> MmsgRxRing" where
  "rebuild_headers r =
     (let n = length (hdrs r) in
      r\<lparr>iovecs := map (\<lambda>idx. \<lparr>iov_base = (slab_id r, idx * buf_size r), iov_len = buf_size r\<rparr>) [0..<n]
                   @ drop n (iovecs r),
        hdrs := map (\<lambda>idx. \<lparr>msg_iov = (iovecs_id r, idx), msg_len = 0\<rparr>) [0..<n]\<rparr>)"

definition ring_new :: "usize \<Rightarrow> usize \<Rightarrow> MmsgRxRing" where
  "ring_new nslots bsize =
     (let nslots = max nslots 1; bsize = max bsize 1 in
      rebuild_headers
        \<lparr>slab = replicate (nslots * bsize) 0, slab_id = 0, buf_size = bsize,
         lengths = replicate nslots 0,
         iovecs = vec_resize nslots zero_iovec [], iovecs_id = 0,
         hdrs = vec_resize nslots zero_mmsghdr []\<rparr>)"

definition default_route_ring :: MmsgRxRing where
  "default_route_ring = ring_new MMSG_SLOTS ROUTE_EVENT_BUFFER_SIZE"

definition ring_slots :: "MmsgRxRing \<Rightarrow> usize" where
  "ring_slots r = length (hdrs r)"

definition ring_packet :: "MmsgRxRing \<Rightarrow> usize \<Rightarrow> bytes" where
  "ring_packet r idx =
     (let len = lengths r ! idx; start = idx * buf_size r in slice start (start + len) (slab r))"

definition resize_slots :: "usize \<Rightarrow> MmsgRxRing \<Rightarrow> MmsgRxRing" where
  "resize_slots nslots r =
     (let nslots = max nslots 1;
          next_slab = replicate (nslots * buf_size r) 0;
          copy_slots = min (length (hdrs r)) nslots;
          copy_bytes = copy_slots * buf_size r;
          next_slab = (if copy_bytes > 0 then write_at 0 (take copy_bytes (slab r)) next_slab
                       else next_slab)
      in rebuild_headers
           (r\<lparr>slab := next_slab, slab_id := Suc (slab_id r),
              lengths := vec_resize nslots 0 (lengths r),
              iovecs := vec_resize nslots zero_iovec (iovecs r), iovecs_id := Suc (iovecs_id r),
              hdrs := vec_resize nslots zero_mmsghdr (hdrs r)\<rparr>))"

definition ensure_slots :: "usize \<Rightarrow> MmsgRxRing \<Rightarrow> MmsgRxRing" where
  "ensure_slots nslots r =
     (if nslots \<le> length (hdrs r) then r else resize_slots (max nslots 1) r)"

definition shrink_slots :: "usize \<Rightarrow> MmsgRxRing \<Rightarrow> MmsgRxRing" where
  "shrink_slots nslots r =
     (if nslots \<ge> length (hdrs r) then r else resize_slots (max nslots 1) r)"

definition clear_lengths :: "MmsgRxRing \<Rightarrow> MmsgRxRing" where
  "clear_lengths r =
     r\<lparr>lengths := map (\<lambda>_. 0) (lengths r), hdrs := map (\<lambda>h. h\<lparr>msg_len := 0\<rparr>) (hdrs r)\<rparr>"

definition update_lengths_from_headers :: "usize \<Rightarrow> MmsgRxRing \<Rightarrow> MmsgRxRing" where
  "update_lengths_from_headers count r =
     r\<lparr>lengths := map (\<lambda>h. min (msg_len h) (buf_size r)) (take count (hdrs r))
                   @ drop count (lengths r)\<rparr>"

subsection \<open>Receiving into the ring\<close>

text \<open>What \<open>recvmmsg\<close> does with one datagram and one header: copy at most \<open>iov_len\<close> bytes to where
  the header's \<open>iovec\<close> points and store the number of bytes.\<close>

definition deliver1 :: "usize \<Rightarrow> bytes \<Rightarrow> MmsgRxRing \<Rightarrow> MmsgRxRing" where
  "deliver1 i pkt r =
     (let h = hdrs r ! i; v = iovecs r ! snd (msg_iov h); d = take (iov_len v) pkt in
      if fst (msg_iov h) = iovecs_id r \<and> snd (msg_iov h) < length (iovecs r) \<and>
         fst (iov_base v) = slab_id r \<and> snd (iov_base v) + length d \<le> length (slab r)
      then r\<lparr>slab := write_at (snd (iov_base v)) d (slab r),
             hdrs := (hdrs r)[i := h\<lparr>msg_len := length d\<rparr>]\<rparr>
      else r)"

fun deliver :: "usize \<Rightarrow> bytes list \<Rightarrow> MmsgRxRing \<Rightarrow> MmsgRxRing" where
  "deliver i [] r = r"
| "deliver i (p # ps) r = deliver (Suc i) ps (deliver1 i p r)"

definition recv_many ::
  "SockId \<Rightarrow> MmsgRxRing \<Rightarrow> world \<Rightarrow> (io_error, usize) res \<times> MmsgRxRing \<times> world" where
  "recv_many sid ring w =
     (let r0 = clear_lengths ring in
      case rx_script (socks w sid) of
        [] \<Rightarrow> (Inl (map_required_syscall_io eagain_error), r0, w)
      | RecvErr e # rest \<Rightarrow>
          (Inl (map_required_syscall_io e), r0, upd_sock sid (\<lambda>s. s\<lparr>rx_script := rest\<rparr>) w)
      | RecvOk pkts # rest \<Rightarrow>
          let count = min (ring_slots r0) (length pkts);
              r1 = deliver 0 (take count pkts) r0
          in (Inr count, update_lengths_from_headers count r1,
              upd_sock sid (\<lambda>s. s\<lparr>rx_script :=
                (if count < length pkts then RecvOk (drop count pkts) # rest else rest)\<rparr>) w))"

subsection \<open>The ring invariant\<close>

definition ring_ok :: "MmsgRxRing \<Rightarrow> bool" where
  "ring_ok r \<longleftrightarrow>
     0 < buf_size r \<and> 0 < length (hdrs r) \<and>
     length (iovecs r) = length (hdrs r) \<and> length (lengths r) = length (hdrs r) \<and>
     length (slab r) = length (hdrs r) * buf_size r \<and>
     (\<forall>n \<in> set (lengths r). n \<le> buf_size r) \<and>
     (\<forall>i < length (hdrs r).
        iovecs r ! i = \<lparr>iov_base = (slab_id r, i * buf_size r), iov_len = buf_size r\<rparr> \<and>
        msg_iov (hdrs r ! i) = (iovecs_id r, i))"

definition ring_slot :: "MmsgRxRing \<Rightarrow> nat \<Rightarrow> bytes" where
  "ring_slot r i = slice (i * buf_size r) (Suc i * buf_size r) (slab r)"

lemma slot_fits:
  assumes "ring_ok r" "i < length (hdrs r)"
  shows "i * buf_size r + buf_size r \<le> length (slab r)"
proof -
  have "Suc i * buf_size r \<le> length (hdrs r) * buf_size r"
    using assms(2) by (intro mult_le_mono1) simp
  with assms(1) show ?thesis by (simp add: ring_ok_def add.commute)
qed

lemma length_ring_slot:
  "ring_ok r \<Longrightarrow> i < length (hdrs r) \<Longrightarrow> length (ring_slot r i) = buf_size r"
  using slot_fits [of r i] by (simp add: ring_slot_def)

lemma ring_packet_slot:
  assumes "ring_ok r" "i < length (hdrs r)"
  shows "ring_packet r i = take (lengths r ! i) (ring_slot r i)"
proof -
  have "lengths r ! i \<le> buf_size r"
    using assms by (auto simp: ring_ok_def)
  then show ?thesis by (simp add: ring_packet_def ring_slot_def slice_def min_absorb1)
qed

lemma rebuild_headers_ok:
  assumes "0 < buf_size r" "0 < length (hdrs r)" "length (iovecs r) = length (hdrs r)"
    "length (lengths r) = length (hdrs r)" "length (slab r) = length (hdrs r) * buf_size r"
    "\<forall>n \<in> set (lengths r). n \<le> buf_size r"
  shows "ring_ok (rebuild_headers r)"
  using assms by (simp add: ring_ok_def rebuild_headers_def Let_def)

lemma ring_new_ok [inv_intros]: "ring_ok (ring_new n b)"
  unfolding ring_new_def Let_def by (rule rebuild_headers_ok) auto

lemma set_vec_resize: "set (vec_resize n z xs) \<subseteq> insert z (set xs)"
  by (auto simp: vec_resize_def dest: in_set_takeD)

lemma resize_slots_fields:
  "length (hdrs (resize_slots n r)) = max n 1"
  "buf_size (resize_slots n r) = buf_size r"
  "lengths (resize_slots n r) = vec_resize (max n 1) 0 (lengths r)"
  by (simp_all add: resize_slots_def rebuild_headers_def Let_def)

lemma resize_slots_slab:
  assumes "ring_ok r"
  shows "slab (resize_slots n r) = vec_resize (max n 1 * buf_size r) 0 (slab r)"
proof -
  let ?m = "max n 1" and ?b = "buf_size r" and ?k = "length (hdrs r)"
  have k: "length (slab r) = ?k * ?b" and pos: "0 < min ?k ?m * ?b" and b: "0 < ?b"
    using assms by (auto simp: ring_ok_def)
  have eq: "min ?k ?m * ?b = min (length (slab r)) (?m * ?b)" using b k by (simp add: min_def)
  have "slab (resize_slots n r) =
      write_at 0 (take (min ?k ?m * ?b) (slab r)) (replicate (?m * ?b) 0)"
    using pos unfolding resize_slots_def rebuild_headers_def Let_def by simp
  also have "\<dots> = vec_resize (?m * ?b) 0 (slab r)"
    unfolding eq vec_resize_def write_at_def by (simp add: min_def)
  finally show ?thesis .
qed

lemma resize_slots_ok [inv_intros]:
  assumes "ring_ok r" shows "ring_ok (resize_slots n r)"
proof -
  have "length (slab (resize_slots n r)) = length (hdrs (resize_slots n r)) * buf_size r"
    using resize_slots_slab [OF assms] by (simp add: resize_slots_fields)
  moreover have "\<forall>k \<in> set (lengths (resize_slots n r)). k \<le> buf_size r"
    using assms set_vec_resize [of "max n 1" 0 "lengths r"]
    by (auto simp: resize_slots_fields ring_ok_def)
  ultimately show ?thesis
    using assms unfolding resize_slots_def Let_def
    by (intro rebuild_headers_ok) (auto simp: ring_ok_def rebuild_headers_def Let_def)
qed

lemma ensure_slots_ok [inv_intros]: "ring_ok r \<Longrightarrow> ring_ok (ensure_slots n r)"
  by (simp add: ensure_slots_def resize_slots_ok)

lemma shrink_slots_ok [inv_intros]: "ring_ok r \<Longrightarrow> ring_ok (shrink_slots n r)"
  by (simp add: shrink_slots_def resize_slots_ok)

lemma ring_slots_resize:
  "ring_slots (ensure_slots n r) = (if n \<le> ring_slots r then ring_slots r else max n 1)"
  "ring_slots (shrink_slots n r) = (if n \<ge> ring_slots r then ring_slots r else max n 1)"
  by (simp_all add: ring_slots_def ensure_slots_def shrink_slots_def resize_slots_fields)

lemma ring_packet_resize:
  assumes "ring_ok r" "i < length (hdrs r)" "i < max n 1"
  shows "ring_packet (resize_slots n r) i = ring_packet r i"
proof -
  let ?b = "buf_size r" and ?m = "max n 1"
  have len: "lengths (resize_slots n r) ! i = lengths r ! i"
    using assms by (simp add: resize_slots_fields nth_vec_resize ring_ok_def)
  have le: "lengths r ! i \<le> ?b" using assms by (auto simp: ring_ok_def)
  have "Suc i * ?b \<le> ?m * ?b" using assms(3) by (intro mult_le_mono1) simp
  moreover have "Suc i * ?b \<le> length (slab r)" using slot_fits [OF assms(1,2)] by simp
  ultimately have "slice (i * ?b) (i * ?b + lengths r ! i) (vec_resize (?m * ?b) 0 (slab r)) =
      slice (i * ?b) (i * ?b + lengths r ! i) (slab r)"
    using le by (intro slice_vec_resize) auto
  with len [unfolded resize_slots_fields] show ?thesis
    by (simp only: ring_packet_def Let_def resize_slots_fields resize_slots_slab [OF assms(1)])
qed

lemma ring_packet_ensure:
  "ring_ok r \<Longrightarrow> i < ring_slots r \<Longrightarrow> ring_packet (ensure_slots n r) i = ring_packet r i"
  by (simp add: ensure_slots_def ring_slots_def ring_packet_resize)

subsection \<open>Receiving keeps the invariant and delivers the datagrams\<close>

lemma clear_lengths_ok [inv_intros]: "ring_ok r \<Longrightarrow> ring_ok (clear_lengths r)"
  by (auto simp: ring_ok_def clear_lengths_def)

lemma deliver1_eq:
  assumes "ring_ok r" "i < length (hdrs r)"
  shows "deliver1 i p r =
    r\<lparr>slab := write_at (i * buf_size r) (take (buf_size r) p) (slab r),
      hdrs := (hdrs r)[i := (hdrs r ! i)\<lparr>msg_len := min (length p) (buf_size r)\<rparr>]\<rparr>"
proof -
  have "i * buf_size r + length (take (buf_size r) p) \<le> length (slab r)"
    using slot_fits [OF assms] by simp
  then show ?thesis
    using assms by (simp add: deliver1_def Let_def ring_ok_def)
qed

lemma deliver1_ok [inv_intros]:
  assumes "ring_ok r" "i < length (hdrs r)"
  shows "ring_ok (deliver1 i p r)"
proof -
  have "i * buf_size r + length (take (buf_size r) p) \<le> length (slab r)"
    using slot_fits [OF assms] by simp
  then show ?thesis
    using assms by (simp add: deliver1_eq ring_ok_def nth_list_update)
qed

lemma deliver1_fields:
  assumes "ring_ok r" "i < length (hdrs r)"
  shows "length (hdrs (deliver1 i p r)) = length (hdrs r)"
    "buf_size (deliver1 i p r) = buf_size r" "lengths (deliver1 i p r) = lengths r"
    "msg_len (hdrs (deliver1 i p r) ! j) =
      (if j = i then min (length p) (buf_size r) else msg_len (hdrs r ! j))"
  using assms by (simp_all add: deliver1_eq nth_list_update)

lemma deliver1_slot:
  assumes r: "ring_ok r" and i: "i < length (hdrs r)" and j: "j < length (hdrs r)"
  shows "ring_slot (deliver1 i p r) j =
    (if j = i then write_at 0 (take (buf_size r) p) (ring_slot r j) else ring_slot r j)"
proof (rule nth_equalityI)
  let ?b = "buf_size r" and ?d = "take (buf_size r) p"
  have fit: "i * ?b + length ?d \<le> length (slab r)" using slot_fits [OF r i] by simp
  have lens: "length (ring_slot (deliver1 i p r) j) = ?b" "length (ring_slot r j) = ?b"
    using length_ring_slot [OF deliver1_ok [OF r i]] length_ring_slot [OF r j]
    by (simp_all add: deliver1_fields [OF r i] j)
  then show "length (ring_slot (deliver1 i p r) j) =
      length (if j = i then write_at 0 ?d (ring_slot r j) else ring_slot r j)"
    by (auto simp: write_at_def)
  fix q assume "q < length (ring_slot (deliver1 i p r) j)"
  then have q: "q < ?b" using lens by simp
  have jb: "j * ?b + q < length (slab r)" using slot_fits [OF r j] q by linarith
  have nth1: "ring_slot (deliver1 i p r) j ! q = write_at (i * ?b) ?d (slab r) ! (j * ?b + q)"
    using q slot_fits [OF r j] fit
    by (simp add: ring_slot_def slice_def deliver1_eq [OF r i] nth_drop)
  have nth2: "ring_slot r j ! q = slab r ! (j * ?b + q)"
    using q slot_fits [OF r j] by (simp add: ring_slot_def slice_def nth_drop)
  show "ring_slot (deliver1 i p r) j ! q =
      (if j = i then write_at 0 ?d (ring_slot r j) else ring_slot r j) ! q"
  proof (cases "j = i")
    case True
    then show ?thesis
      using nth1 nth2 q lens jb by (simp add: nth_write_at [OF fit] nth_write_at)
  next
    case False
    have "\<not> (i * ?b \<le> j * ?b + q \<and> j * ?b + q < i * ?b + length ?d)"
    proof (cases "j < i")
      case True
      then have "Suc j * ?b \<le> i * ?b" by (intro mult_le_mono1) simp
      with q show ?thesis by simp
    next
      case ge: False
      with False have "Suc i * ?b \<le> j * ?b" by (intro mult_le_mono1) simp
      then show ?thesis by simp
    qed
    with False nth1 nth2 jb show ?thesis by (auto simp: nth_write_at [OF fit])
  qed
qed

lemma deliver_spec:
  assumes "ring_ok r" "i + length ps \<le> length (hdrs r)"
  shows "ring_ok (deliver i ps r) \<and> length (hdrs (deliver i ps r)) = length (hdrs r) \<and>
    buf_size (deliver i ps r) = buf_size r \<and> lengths (deliver i ps r) = lengths r \<and>
    (\<forall>j < length (hdrs r).
       msg_len (hdrs (deliver i ps r) ! j) =
         (if i \<le> j \<and> j < i + length ps then min (length (ps ! (j - i))) (buf_size r)
          else msg_len (hdrs r ! j)) \<and>
       ring_slot (deliver i ps r) j =
         (if i \<le> j \<and> j < i + length ps
          then write_at 0 (take (buf_size r) (ps ! (j - i))) (ring_slot r j) else ring_slot r j))"
  using assms
proof (induction i ps r rule: deliver.induct)
  case (1 i r)
  then show ?case by auto
next
  case (2 i p ps r)
  have i: "i < length (hdrs r)" using "2.prems" by simp
  note f = deliver1_fields [OF "2.prems"(1) i] and ok = deliver1_ok [OF "2.prems"(1) i, of p]
  have IH: "i + 1 + length ps \<le> length (hdrs (deliver1 i p r))" using "2.prems" f by simp
  show ?case
    using "2.IH" [OF ok] IH f deliver1_slot [OF "2.prems"(1) i]
    by (auto simp: nth_Cons' le_Suc_eq not_le)
qed

lemma recv_many_Inr:
  assumes r: "ring_ok r" and recv: "recv_many sid r w = (Inr n, r', w')"
  shows "ring_ok r' \<and> ring_slots r' = ring_slots r \<and> buf_size r' = buf_size r \<and> n \<le> ring_slots r \<and>
    (\<exists>pkts rest. rx_script (socks w sid) = RecvOk pkts # rest \<and> n = min (ring_slots r) (length pkts) \<and>
       map (ring_packet r') [0..<n] = map (take (buf_size r)) (take n pkts))"
proof -
  let ?r0 = "clear_lengths r"
  have r0: "ring_ok ?r0" "length (hdrs ?r0) = length (hdrs r)" "buf_size ?r0 = buf_size r"
    using clear_lengths_ok [OF r] by (simp_all add: clear_lengths_def)
  from recv obtain pkts rest where
    sc: "rx_script (socks w sid) = RecvOk pkts # rest" and n: "n = min (ring_slots r) (length pkts)"
    and r': "r' = update_lengths_from_headers n (deliver 0 (take n pkts) ?r0)"
    using r0(2) by (auto simp: recv_many_def Let_def ring_slots_def split: list.splits recv_result.splits)
  let ?r1 = "deliver 0 (take n pkts) ?r0"
  have nk: "n \<le> length (hdrs r)" and lt: "length (take n pkts) = n" using n by (auto simp: ring_slots_def)
  have d: "ring_ok ?r1" "length (hdrs ?r1) = length (hdrs r)" "buf_size ?r1 = buf_size r"
    and m: "\<And>j. j < n \<Longrightarrow> msg_len (hdrs ?r1 ! j) = min (length (pkts ! j)) (buf_size r)"
    and s: "\<And>j. j < n \<Longrightarrow> ring_slot ?r1 j = write_at 0 (take (buf_size r) (pkts ! j)) (ring_slot ?r0 j)"
    using deliver_spec [OF r0(1), of 0 "take n pkts"] nk lt r0 by auto
  have ok': "ring_ok r'"
    using d nk unfolding r' ring_ok_def update_lengths_from_headers_def
    by (auto dest: in_set_dropD)
  have pk: "ring_packet r' j = take (buf_size r) (pkts ! j)" if "j < n" for j
  proof -
    have "lengths r' ! j = min (length (pkts ! j)) (buf_size r)"
      using that m [OF that] d nk by (simp add: r' update_lengths_from_headers_def nth_append)
    moreover have "ring_slot r' j = ring_slot ?r1 j"
      by (simp add: r' ring_slot_def update_lengths_from_headers_def)
    moreover have "j < length (hdrs r')" using that nk d by (simp add: r' update_lengths_from_headers_def)
    ultimately show ?thesis
      using ring_packet_slot [OF ok'] s [OF that] by (simp add: write_at_def min_def)
  qed
  have "map (ring_packet r') [0..<n] = map (take (buf_size r)) (take n pkts)"
    using lt by (intro nth_equalityI) (simp_all add: pk)
  with ok' d nk sc n show ?thesis
    by (auto simp: r' update_lengths_from_headers_def ring_slots_def)
qed

lemma recv_many_Inl:
  assumes "ring_ok r" "recv_many sid r w = (Inl e, r', w')"
  shows "ring_ok r' \<and> ring_slots r' = ring_slots r \<and> buf_size r' = buf_size r"
  using assms clear_lengths_ok [OF assms(1)]
  by (auto simp: recv_many_def Let_def ring_slots_def clear_lengths_def
      split: list.splits recv_result.splits)


subsection \<open>The interface of the receive ring\<close>

text \<open>
  What the receive loops rely on: a ring with its invariant, the number of slots, a receive call and
  read access to a packet. \<open>recv\<close> delivers what the socket's script holds, and growing the ring
  between receiving and reading keeps the packets.
\<close>

locale rx_ring =
  fixes inv :: "'r \<Rightarrow> bool"
    and slots :: "'r \<Rightarrow> usize"
    and packet :: "'r \<Rightarrow> usize \<Rightarrow> bytes"
    and recv :: "SockId \<Rightarrow> 'r \<Rightarrow> world \<Rightarrow> (io_error, usize) res \<times> 'r \<times> world"
    and ensure :: "usize \<Rightarrow> 'r \<Rightarrow> 'r"
  assumes inv_recv: "inv r \<Longrightarrow> inv (fst (snd (recv sid r w))) \<and> slots (fst (snd (recv sid r w))) = slots r"
    and recv_spec: "inv r \<Longrightarrow>
      (case recv sid r w of
         (Inl e, r', w') \<Rightarrow> sock_recv (slots r) sid w = (Inl e, w')
       | (Inr n, r', w') \<Rightarrow> sock_recv (slots r) sid w = (Inr (map (packet r') [0..<n]), w'))"
    and inv_ensure: "inv r \<Longrightarrow> inv (ensure n r)"
    and slots_ensure: "inv r \<Longrightarrow> slots r \<le> slots (ensure n r) \<and> n \<le> slots (ensure n r)"
    and packet_ensure: "inv r \<Longrightarrow> i < slots r \<Longrightarrow> packet (ensure n r) i = packet r i"
begin

definition drain1 :: "usize \<Rightarrow> SockId \<Rightarrow> 'r \<Rightarrow> world \<Rightarrow> (io_error, bytes list) res \<times> 'r \<times> world" where
  "drain1 grow sid r w =
     (case recv sid r w of
        (Inl e, r', w') \<Rightarrow> (Inl e, r', w')
      | (Inr n, r', w') \<Rightarrow>
          let r'' = (if n = slots r' then ensure grow r' else r')
          in (Inr (map (packet r'') [0..<n]), r'', w'))"

lemma drain1_sound:
  assumes "inv r"
  shows "(fst (drain1 grow sid r w), snd (snd (drain1 grow sid r w))) = sock_recv (slots r) sid w"
    and "inv (fst (snd (drain1 grow sid r w)))"
proof -
  obtain res r' w' where rc: "recv sid r w = (res, r', w')" by (metis prod_cases3)
  have i: "inv r'" "slots r' = slots r" using inv_recv [OF assms, of sid w] rc by simp_all
  have "(fst (drain1 grow sid r w), snd (snd (drain1 grow sid r w))) = sock_recv (slots r) sid w
    \<and> inv (fst (snd (drain1 grow sid r w)))"
  proof (cases res)
    case (Inl e)
    then show ?thesis using recv_spec [OF assms, of sid w] rc i by (simp add: drain1_def)
  next
    case (Inr n)
    have sr: "sock_recv (slots r) sid w = (Inr (map (packet r') [0..<n]), w')"
      using recv_spec [OF assms, of sid w] rc Inr by simp
    then have "n \<le> slots r" using sock_recv_count by fastforce
    then have "map (packet (ensure grow r')) [0..<n] = map (packet r') [0..<n]"
      using packet_ensure [OF i(1)] i(2) by simp
    then show ?thesis using sr rc Inr i inv_ensure [OF i(1)] by (simp add: drain1_def Let_def)
  qed
  then show "(fst (drain1 grow sid r w), snd (snd (drain1 grow sid r w))) = sock_recv (slots r) sid w"
    and "inv (fst (snd (drain1 grow sid r w)))" by simp_all
qed

end

definition nl_ring_ok :: "MmsgRxRing \<Rightarrow> bool" where
  "nl_ring_ok r \<longleftrightarrow> ring_ok r \<and> buf_size r = ROUTE_EVENT_BUFFER_SIZE"

lemma nl_ring_ok_default: "nl_ring_ok default_route_ring"
  by (simp add: nl_ring_ok_def default_route_ring_def ring_new_ok)
    (simp add: ring_new_def rebuild_headers_def Let_def)

lemma nl_ring_ok_ensure: "nl_ring_ok r \<Longrightarrow> nl_ring_ok (ensure_slots n r)"
  by (simp add: nl_ring_ok_def ensure_slots_ok) (simp add: ensure_slots_def resize_slots_fields)

lemma nl_ring_ok_shrink: "nl_ring_ok r \<Longrightarrow> nl_ring_ok (shrink_slots n r)"
  by (simp add: nl_ring_ok_def shrink_slots_ok) (simp add: shrink_slots_def resize_slots_fields)

lemma recv_many_ok:
  assumes "ring_ok r" "recv_many sid r w = (res, r', w')"
  shows "ring_ok r' \<and> ring_slots r' = ring_slots r \<and> buf_size r' = buf_size r"
  using recv_many_Inl [OF assms(1), of sid w] recv_many_Inr [OF assms(1), of sid w] assms(2)
  by (cases res) auto

lemma recv_many_sock_recv:
  assumes "nl_ring_ok r"
  shows "(case recv_many sid r w of
       (Inl e, r', w') \<Rightarrow> sock_recv (ring_slots r) sid w = (Inl e, w')
     | (Inr n, r', w') \<Rightarrow> sock_recv (ring_slots r) sid w = (Inr (map (ring_packet r') [0..<n]), w'))"
proof -
  have ok: "ring_ok r" and b: "buf_size r = ROUTE_EVENT_BUFFER_SIZE" using assms by (simp_all add: nl_ring_ok_def)
  have sl: "ring_slots (clear_lengths r) = ring_slots r" by (simp add: ring_slots_def clear_lengths_def)
  obtain res r' w' where rc: "recv_many sid r w = (res, r', w')" by (metis prod_cases3)
  show ?thesis
  proof (cases res)
    case (Inl e)
    have "map_required_syscall_io eagain_error = eagain_error"
      by (rule transient_not_required) (simp add: is_transient_recv_err_def eagain_error_def os_error_matches_def)
    with rc Inl show ?thesis
      by (auto simp: recv_many_def sock_recv_def Let_def split: list.splits recv_result.splits)
  next
    case (Inr n)
    from recv_many_Inr [OF ok rc [unfolded Inr]] obtain pkts rest where
      sc: "rx_script (socks w sid) = RecvOk pkts # rest" and n: "n = min (ring_slots r) (length pkts)"
      and m: "map (ring_packet r') [0..<n] = map (take (buf_size r)) (take n pkts)" by blast
    have "w' = upd_sock sid (\<lambda>s. s\<lparr>rx_script :=
        (if n < length pkts then RecvOk (drop n pkts) # rest else rest)\<rparr>) w"
      using rc sc unfolding recv_many_def Let_def n sl by simp
    then show ?thesis using rc Inr sc n m b by (simp add: sock_recv_def Let_def)
  qed
qed

interpretation mmsg: rx_ring nl_ring_ok ring_slots ring_packet recv_many ensure_slots
proof
  fix r sid w n i
  assume r: "nl_ring_ok r"
  show "nl_ring_ok (fst (snd (recv_many sid r w))) \<and> ring_slots (fst (snd (recv_many sid r w))) = ring_slots r"
    using recv_many_ok [of r sid w] r by (cases "recv_many sid r w") (auto simp: nl_ring_ok_def)
  show "nl_ring_ok (ensure_slots n r)" using r by (rule nl_ring_ok_ensure)
  show "ring_slots r \<le> ring_slots (ensure_slots n r) \<and> n \<le> ring_slots (ensure_slots n r)"
    by (simp add: ring_slots_resize)
  show "i < ring_slots r \<Longrightarrow> ring_packet (ensure_slots n r) i = ring_packet r i"
    using r by (simp add: nl_ring_ok_def ring_packet_ensure)
qed (rule recv_many_sock_recv)

subsection \<open>The transmit batch\<close>

text \<open>
  \<open>MmsgTxBatch\<close> stores a raw pointer from each header to its \<open>iovec\<close>, which stores the pointer and
  the length of a message. \<open>tx_fetch\<close> is what \<open>sendmmsg\<close> reads through header \<open>i\<close>; it reads nothing
  through a pointer into an earlier allocation of the \<open>iovec\<close>s.
\<close>

record 'p MmsgTxBatch =
  tx_iovecs :: "('p \<times> usize) option list"
  tx_iovecs_id :: nat
  tx_hdrs :: "(nat \<times> nat) option list"

definition tx_ensure_capacity :: "usize \<Rightarrow> 'p MmsgTxBatch \<Rightarrow> 'p MmsgTxBatch" where
  "tx_ensure_capacity cap b =
     (let b1 = (if length (tx_iovecs b) < cap
                then b\<lparr>tx_iovecs := vec_resize cap None (tx_iovecs b), tx_iovecs_id := Suc (tx_iovecs_id b)\<rparr>
                else b)
      in if length (tx_hdrs b1) < cap then b1\<lparr>tx_hdrs := vec_resize cap None (tx_hdrs b1)\<rparr> else b1)"

definition tx_with_capacity :: "usize \<Rightarrow> 'p MmsgTxBatch" where
  "tx_with_capacity cap =
     tx_ensure_capacity (max cap 1) \<lparr>tx_iovecs = [], tx_iovecs_id = 0, tx_hdrs = []\<rparr>"

definition tx_prepare_slot :: "usize \<Rightarrow> 'p \<Rightarrow> usize \<Rightarrow> 'p MmsgTxBatch \<Rightarrow> 'p MmsgTxBatch" where
  "tx_prepare_slot idx ptr len b =
     b\<lparr>tx_iovecs := (tx_iovecs b)[idx := Some (ptr, len)],
       tx_hdrs := (tx_hdrs b)[idx := Some (tx_iovecs_id b, idx)]\<rparr>"

definition tx_prepare_raw :: "'p list \<Rightarrow> usize list \<Rightarrow> 'p MmsgTxBatch \<Rightarrow> 'p MmsgTxBatch" where
  "tx_prepare_raw ptrs lens b =
     fold (\<lambda>idx. tx_prepare_slot idx (ptrs ! idx) (lens ! idx)) [0..<length ptrs]
       (tx_ensure_capacity (length ptrs) b)"

definition tx_fetch :: "'p MmsgTxBatch \<Rightarrow> usize \<Rightarrow> ('p \<times> usize) option" where
  "tx_fetch b i =
     (case tx_hdrs b ! i of
        None \<Rightarrow> None
      | Some (aid, j) \<Rightarrow>
          if aid = tx_iovecs_id b \<and> j < length (tx_iovecs b) then tx_iovecs b ! j else None)"

lemma tx_ensure_capacity_length:
  "cap \<le> length (tx_iovecs (tx_ensure_capacity cap b))"
  "cap \<le> length (tx_hdrs (tx_ensure_capacity cap b))"
  by (simp_all add: tx_ensure_capacity_def Let_def)

lemma tx_fetch_fold:
  assumes "n \<le> length (tx_iovecs b)" "n \<le> length (tx_hdrs b)" "i < n"
  shows "tx_fetch (fold (\<lambda>idx. tx_prepare_slot idx (p idx) (l idx)) [0..<n] b) i = Some (p i, l i)"
proof -
  let ?f = "\<lambda>m. fold (\<lambda>idx. tx_prepare_slot idx (p idx) (l idx)) [0..<m] b"
  have "length (tx_iovecs (?f m)) = length (tx_iovecs b) \<and> length (tx_hdrs (?f m)) = length (tx_hdrs b) \<and>
      tx_iovecs_id (?f m) = tx_iovecs_id b \<and>
      (\<forall>j < m. tx_iovecs (?f m) ! j = Some (p j, l j) \<and> tx_hdrs (?f m) ! j = Some (tx_iovecs_id b, j))"
    if "m \<le> n" for m
    using that
  proof (induction m)
    case 0
    then show ?case by simp
  next
    case (Suc m)
    then show ?case using assms by (auto simp: tx_prepare_slot_def nth_list_update less_Suc_eq)
  qed
  from this [of n] show ?thesis using assms by (simp add: tx_fetch_def)
qed

lemma tx_prepare_raw_fetch:
  "i < length ptrs \<Longrightarrow> tx_fetch (tx_prepare_raw ptrs lens b) i = Some (ptrs ! i, lens ! i)"
  unfolding tx_prepare_raw_def
  using tx_fetch_fold [OF tx_ensure_capacity_length [of "length ptrs" b], of i] by simp

subsection \<open>Multicast groups\<close>

abbreviation (input) RTNLGRP_IPV4_IFADDR :: nat where "RTNLGRP_IPV4_IFADDR \<equiv> 5"
abbreviation (input) RTNLGRP_IPV6_IFADDR :: nat where "RTNLGRP_IPV6_IFADDR \<equiv> 9"

definition route_addr_groups :: "bool \<Rightarrow> u32" where
  "route_addr_groups ipv6_enabled =
     (let groups = push_bit (RTNLGRP_IPV4_IFADDR - 1) 1 in
      if ipv6_enabled then groups OR push_bit (RTNLGRP_IPV6_IFADDR - 1) 1 else groups)"

subsection \<open>Properties of the rings\<close>

text \<open>
  C22. Receiving through the ring is memory safe and delivers the datagrams: a ring that satisfies its
  invariant (every \<open>iovec\<close> points at its own slot of the slab, every recorded length fits the slot)
  still does after \<open>recv_many\<close>, with the same number of slots, and reading its packets gives exactly
  what the abstract receive gives; growing or shrinking the ring keeps the invariant, and growing it
  keeps every packet that has been received but not yet read.
\<close>

theorem ring_receive_sound:
  assumes "nl_ring_ok r"
  shows "case recv_many sid r w of
       (Inl e, r', w') \<Rightarrow> sock_recv (ring_slots r) sid w = (Inl e, w') \<and> nl_ring_ok r' \<and> ring_slots r' = ring_slots r
     | (Inr n, r', w') \<Rightarrow>
         sock_recv (ring_slots r) sid w = (Inr (map (ring_packet r') [0..<n]), w') \<and>
         n \<le> ring_slots r \<and> nl_ring_ok r' \<and> ring_slots r' = ring_slots r \<and>
         nl_ring_ok (shrink_slots k r') \<and> nl_ring_ok (ensure_slots k r') \<and>
         map (ring_packet (ensure_slots k r')) [0..<n] = map (ring_packet r') [0..<n]"
proof -
  obtain res r' w' where rc: "recv_many sid r w = (res, r', w')" by (metis prod_cases3)
  have ok: "nl_ring_ok r'" "ring_slots r' = ring_slots r"
    using recv_many_ok [OF _ rc] assms by (auto simp: nl_ring_ok_def)
  show ?thesis
  proof (cases res)
    case (Inl e)
    with rc ok recv_many_sock_recv [OF assms, of sid w] show ?thesis by simp
  next
    case (Inr n)
    have n: "n \<le> ring_slots r" using recv_many_Inr [of r sid w n r' w'] assms rc Inr by (simp add: nl_ring_ok_def)
    have "map (ring_packet (ensure_slots k r')) [0..<n] = map (ring_packet r') [0..<n]"
      using n ok by (auto simp: nl_ring_ok_def intro!: ring_packet_ensure)
    with rc Inr ok n recv_many_sock_recv [OF assms, of sid w] show ?thesis
      by (simp add: nl_ring_ok_shrink nl_ring_ok_ensure)
  qed
qed

theorem ring_receive_sound_witness:
  "sock_recv (ring_slots default_route_ring) RouteSock
     (upd_sock RouteSock (\<lambda>s. s\<lparr>rx_script := [RecvErr \<lparr>raw_os_error = Some 4, io_kind = OtherKind, io_text = []\<rparr>]\<rparr>)
       quiet_world) =
   (Inl \<lparr>raw_os_error = Some 4, io_kind = OtherKind, io_text = []\<rparr>, quiet_world)"
proof -
  let ?e = "\<lparr>raw_os_error = Some 4, io_kind = OtherKind, io_text = []\<rparr>"
  let ?w = "upd_sock RouteSock (\<lambda>s. s\<lparr>rx_script := [RecvErr ?e]\<rparr>) quiet_world"
  have m: "map_required_syscall_io ?e = ?e"
    by (simp add: map_required_syscall_io_def os_error_matches_def is_required_syscall_errno_def)
  have q: "upd_sock RouteSock (\<lambda>s. s\<lparr>rx_script := []\<rparr>) ?w = quiet_world"
    by (simp add: upd_sock_def quiet_world_def fun_upd_idem)
  obtain r' where "recv_many RouteSock default_route_ring ?w = (Inl ?e, r', quiet_world)"
    using m q by (simp add: recv_many_def upd_sock_def Let_def)
  with ring_receive_sound [OF nl_ring_ok_default, of RouteSock ?w 16] show ?thesis by simp
qed

text \<open>
  The send headers point at the right messages: after \<open>prepare_raw\<close> the \<open>i\<close>-th header leads,
  through the I/O vectors of the same allocation, to the \<open>i\<close>-th message and its length.
\<close>

theorem tx_headers_point_at_messages:
  assumes "i < length ptrs"
  shows "tx_fetch (tx_prepare_raw ptrs lens b) i = Some (ptrs ! i, lens ! i)"
  using assms by (rule tx_prepare_raw_fetch)

theorem tx_headers_point_at_messages_witness:
  "tx_fetch (tx_prepare_raw [''a'', ''b''] [10, 20] (tx_with_capacity 1)) 1 = Some (''b'', 20)"
  using tx_headers_point_at_messages [of 1 "[''a'', ''b'']" "[10, 20]" "tx_with_capacity 1"] by simp

end
