(* ===== verification/Dump_Engine.thy ===== *)
theory Dump_Engine
  imports Socket
begin

text \<open>
  \<^verbatim>\<open>src/netlink/dump_engine.rs\<close>: reading the answer to a netlink dump request.

  The engine's ring (always of the default eight slots) is used through \<open>sock_recv\<close>, which theory
  \<open>Socket\<close> proves to be what the ring delivers. The \<open>on_msg\<close> closure is a transformer of the pair of
  the world and its own captured state: one caller performs input and output inside it. Closures
  that do not are lifted by \<open>pure_cb\<close>; for these \<open>recv_until_done\<close> is a total function, with the
  packets and \<open>poll\<close> results left as the measure. For a closure with effects on the world the loop is
  \<open>recv_until_done_io\<close>, where not returning is the value \<open>None\<close>.
\<close>

datatype DumpPoll = DumpPending | DumpContinue | DumpDone

abbreviation (input) DUMP_WAIT_TIMEOUT :: nat where "DUMP_WAIT_TIMEOUT \<equiv> secs 5"

type_synonym 's dump_cb = "NetlinkMessageView \<Rightarrow> 's \<Rightarrow> (AppError + unit) \<times> 's"

definition pure_cb :: "'s dump_cb \<Rightarrow> (world \<times> 's) dump_cb" where
  "pure_cb cb msg st = (case cb msg (snd st) of (r, s') \<Rightarrow> (r, (fst st, s')))"

text \<open>The message loop of \<open>recv_step\<close>; the accumulator is the flag \<open>done\<close>.\<close>

fun step_msgs :: "u32 \<Rightarrow> 's dump_cb \<Rightarrow> (AppError, NetlinkMessageView) res list \<Rightarrow> bool \<Rightarrow> 's \<Rightarrow>
    (AppError + bool) \<times> 's" where
  "step_msgs seq on_msg [] done s = (Inr done, s)"
| "step_msgs seq on_msg (Inl e # items) done s = (Inl e, s)"
| "step_msgs seq on_msg (Inr msg # items) done s =
     (if nlmsg_seq (nv_header msg) \<noteq> seq then step_msgs seq on_msg items done s
      else if uint (nlmsg_type (nv_header msg)) = NLMSG_DONE then step_msgs seq on_msg items True s
      else if uint (nlmsg_type (nv_header msg)) = NLMSG_ERROR then
        (case parse_ack_errno (nv_data msg) of
           Inl e \<Rightarrow> (Inl e, s)
         | Inr (Some errno) \<Rightarrow> (Inl (Netlink (''dump ack errno='' @ fmt_int errno)), s)
         | Inr None \<Rightarrow> step_msgs seq on_msg items done s)
      else
        (case on_msg msg s of
           (Inl e, s') \<Rightarrow> (Inl e, s')
         | (Inr _, s') \<Rightarrow> step_msgs seq on_msg items done s'))"

definition recv_step ::
  "SockId \<Rightarrow> u32 \<Rightarrow> (world \<times> 's) dump_cb \<Rightarrow> world \<times> 's \<Rightarrow> (AppError + DumpPoll) \<times> (world \<times> 's)" where
  "recv_step sid seq on_msg st =
     (case sock_recv MMSG_SLOTS sid (fst st) of
        (Inl err, w') \<Rightarrow>
          if is_transient_recv_err err then (Inr DumpPending, (w', snd st))
          else (Inl (AppError_from_io err), (w', snd st))
      | (Inr pkts, w') \<Rightarrow>
          if pkts = [] then (Inr DumpPending, (w', snd st))
          else
            (case step_msgs seq on_msg (concat (map iter_all pkts)) False (w', snd st) of
               (Inl e, st') \<Rightarrow> (Inl e, st')
             | (Inr done, st') \<Rightarrow> (Inr (if done then DumpDone else DumpContinue), st')))"

lemma step_msgs_pure_world:
  "step_msgs seq (pure_cb cb) items d (w, s) =
     (case step_msgs seq cb items d s of (r, s') \<Rightarrow> (r, (w, s')))"
proof (induction seq cb items d s rule: step_msgs.induct)
  case (3 seq cb msg items d s)
  then show ?case
    by (auto simp: pure_cb_def split: prod.splits sum.splits option.splits)
qed simp_all

lemma recv_step_pure_weight:
  assumes "recv_step sid seq (pure_cb cb) (w, s) = (Inr p, (w', s'))"
  shows "polls w' = polls w \<and> rx_weight sid w' \<le> rx_weight sid w \<and>
    (p \<noteq> DumpPending \<longrightarrow> rx_weight sid w' < rx_weight sid w)"
proof -
  obtain r w1 where sr: "sock_recv MMSG_SLOTS sid w = (r, w1)" by fastforce
  have "w' = w1" "p \<noteq> DumpPending \<Longrightarrow> r \<noteq> Inl eagain_error \<and> r \<noteq> Inr []"
    using assms sr
    by (auto simp: recv_step_def step_msgs_pure_world split: sum.splits prod.splits if_splits)
  then show ?thesis
    using sock_recv_weight [OF sr] sock_recv_frame [OF sr] by auto
qed

function recv_loop :: "nat \<Rightarrow> SockId \<Rightarrow> u32 \<Rightarrow> 's dump_cb \<Rightarrow> world \<times> 's \<Rightarrow> (AppError + unit) \<times> (world \<times> 's)" where
  "recv_loop deadline sid seq on_msg st =
     (case recv_step sid seq (pure_cb on_msg) st of
        (Inl e, st') \<Rightarrow> (Inl e, st')
      | (Inr DumpDone, st') \<Rightarrow> (Inr (), st')
      | (Inr DumpContinue, st') \<Rightarrow> recv_loop deadline sid seq on_msg st'
      | (Inr DumpPending, st') \<Rightarrow>
          (case wait_readable deadline (fst st') of
             (Inl e, w') \<Rightarrow> (Inl e, (w', snd st'))
           | (Inr readable, w') \<Rightarrow>
               if \<not> readable then (Inl (Netlink ''dump wait timeout''), (w', snd st'))
               else recv_loop deadline sid seq on_msg (w', snd st')))"
  by pat_completeness auto
termination
proof (relation "measure (\<lambda>(d, sid, seq, cb, w, s). rx_weight sid w + length (polls w))", goal_cases)
  case 1
  show ?case by simp
next
  case (2 deadline sid seq on_msg st x y z xa ya r)
  have st: "recv_step sid seq (pure_cb on_msg) (fst st, snd st) = (Inr DumpPending, (fst y, snd y))"
    using 2 by simp
  have w: "wait_readable deadline (fst y) = (Inr True, ya)" using 2 by (cases xa) auto
  from wait_readable_frame [OF w] recv_step_pure_weight [OF st] show ?case
    by (cases st) (auto simp: rx_weight_def)
next
  case (3 deadline sid seq on_msg st x y z)
  then show ?case
    using recv_step_pure_weight [of sid seq on_msg "fst st" "snd st" DumpContinue "fst y" "snd y"]
    by (cases st; cases y) auto
qed

declare recv_loop.simps [simp del]

definition recv_until_done ::
  "SockId \<Rightarrow> u32 \<Rightarrow> 's dump_cb \<Rightarrow> world \<times> 's \<Rightarrow> (AppError + unit) \<times> (world \<times> 's)" where
  "recv_until_done sid seq on_msg st =
     (let (now, w') = instant_now (fst st)
      in recv_loop (now + DUMP_WAIT_TIMEOUT) sid seq on_msg (w', snd st))"

subsection \<open>The loop for a closure that performs input and output\<close>

partial_function (option) recv_loop_io ::
  "nat \<Rightarrow> SockId \<Rightarrow> u32 \<Rightarrow> (world \<times> 's) dump_cb \<Rightarrow> world \<times> 's \<Rightarrow>
     ((AppError + unit) \<times> (world \<times> 's)) option" where
  "recv_loop_io deadline sid seq on_msg st =
     (case recv_step sid seq on_msg st of
        (Inl e, st') \<Rightarrow> Some (Inl e, st')
      | (Inr p, st') \<Rightarrow>
          (case p of
             DumpDone \<Rightarrow> Some (Inr (), st')
           | DumpContinue \<Rightarrow> recv_loop_io deadline sid seq on_msg st'
           | DumpPending \<Rightarrow>
               (case wait_readable deadline (fst st') of
                  (Inl e, w') \<Rightarrow> Some (Inl e, (w', snd st'))
                | (Inr readable, w') \<Rightarrow>
                    if \<not> readable then Some (Inl (Netlink ''dump wait timeout''), (w', snd st'))
                    else recv_loop_io deadline sid seq on_msg (w', snd st'))))"

definition recv_until_done_io ::
  "SockId \<Rightarrow> u32 \<Rightarrow> (world \<times> 's) dump_cb \<Rightarrow> world \<times> 's \<Rightarrow>
     ((AppError + unit) \<times> (world \<times> 's)) option" where
  "recv_until_done_io sid seq on_msg st =
     (let (now, w') = instant_now (fst st)
      in recv_loop_io (now + DUMP_WAIT_TIMEOUT) sid seq on_msg (w', snd st))"

lemma recv_loop_io_pure:
  "recv_loop_io d sid seq (pure_cb cb) st = Some (recv_loop d sid seq cb st)"
proof (induction d sid seq cb st rule: recv_loop.induct)
  case (1 d sid seq cb st)
  show ?case
    using 1
    by (subst recv_loop.simps, subst recv_loop_io.simps)
      (auto split: prod.splits sum.splits DumpPoll.splits)
qed

lemma recv_until_done_io_pure:
  "recv_until_done_io sid seq (pure_cb cb) st = Some (recv_until_done sid seq cb st)"
  by (simp add: recv_until_done_io_def recv_until_done_def recv_loop_io_pure split: prod.splits)


text \<open>A dump on one socket leaves the other alone.\<close>

lemma recv_step_other:
  assumes "recv_step sid seq (pure_cb cb) st = (r, st')" "i \<noteq> sid"
  shows "socks (fst st') i = socks (fst st) i"
proof -
  obtain q w1 where sr: "sock_recv MMSG_SLOTS sid (fst st) = (q, w1)" by fastforce
  have "fst st' = w1"
    using assms(1) sr by (auto simp: recv_step_def step_msgs_pure_world split: sum.splits prod.splits if_splits)
  then show ?thesis using sock_recv_frame(7) [OF sr assms(2)] by simp
qed

lemma recv_loop_other:
  "recv_loop d sid seq cb st = (r, st') \<Longrightarrow> i \<noteq> sid \<Longrightarrow> socks (fst st') i = socks (fst st) i"
proof (induction d sid seq cb st rule: recv_loop.induct)
  case (1 d sid seq cb st)
  obtain q st1 where st: "recv_step sid seq (pure_cb cb) st = (q, st1)" by (metis surj_pair)
  note o1 = recv_step_other [OF st "1.prems"(2)]
  consider "\<exists>e. q = Inl e \<or> q = Inr DumpDone" | "q = Inr DumpContinue" | "q = Inr DumpPending"
    by (metis DumpPoll.exhaust old.sum.exhaust)
  then show ?case
  proof cases
    case 1
    with "1.prems"(1) st o1 show ?thesis by (subst (asm) recv_loop.simps) auto
  next
    case 2
    with "1.prems"(1) st have "recv_loop d sid seq cb st1 = (r, st')" by (subst (asm) recv_loop.simps) auto
    with "1.IH"(2) [of q st1 "DumpContinue"] "1.prems"(2) st 2 o1 show ?thesis by simp
  next
    case 3
    obtain p w where w: "wait_readable d (fst st1) = (p, w)" by fastforce
    show ?thesis
    proof (cases "p = Inr True")
      case True
      with "1.prems"(1) st 3 w have "recv_loop d sid seq cb (w, snd st1) = (r, st')" by (subst (asm) recv_loop.simps) auto
      with "1.IH"(1) [of q st1 "DumpPending"] "1.prems"(2) st 3 o1 w True wait_readable_frame [OF w] show ?thesis by simp
    next
      case False
      with "1.prems"(1) st 3 w o1 wait_readable_frame [OF w] show ?thesis
        by (subst (asm) recv_loop.simps) (auto split: sum.splits if_splits)
    qed
  qed
qed

lemma recv_until_done_other:
  "recv_until_done sid seq cb st = (r, st') \<Longrightarrow> i \<noteq> sid \<Longrightarrow> socks (fst st') i = socks (fst st) i"
  by (auto simp: recv_until_done_def split: prod.splits dest!: recv_loop_other)
    (metis instant_now_frame(1) snd_conv)

subsection \<open>A complete dump\<close>

text \<open>
  The messages a dump hands to the closure, and a receive batch that ends no dump early: it fits the
  ring, every message in it is well formed, and no acknowledgement in it carries an error.
\<close>

definition dump_payload :: "u32 \<Rightarrow> NetlinkMessageView \<Rightarrow> bool" where
  "dump_payload seq m \<longleftrightarrow>
     nlmsg_seq (nv_header m) = seq \<and> uint (nlmsg_type (nv_header m)) \<noteq> NLMSG_DONE \<and>
     uint (nlmsg_type (nv_header m)) \<noteq> NLMSG_ERROR"

definition dump_end :: "u32 \<Rightarrow> NetlinkMessageView \<Rightarrow> bool" where
  "dump_end seq m \<longleftrightarrow>
     nlmsg_seq (nv_header m) = seq \<and> uint (nlmsg_type (nv_header m)) = NLMSG_DONE"

definition dump_error :: "u32 \<Rightarrow> NetlinkMessageView \<Rightarrow> bool" where
  "dump_error seq m \<longleftrightarrow>
     nlmsg_seq (nv_header m) = seq \<and> uint (nlmsg_type (nv_header m)) = NLMSG_ERROR \<and>
     parse_ack_errno (nv_data m) \<noteq> Inr None"

definition batch_items :: "bytes list \<Rightarrow> (AppError, NetlinkMessageView) res list" where
  "batch_items b = concat (map iter_all b)"

definition batch_views :: "bytes list \<Rightarrow> NetlinkMessageView list" where
  "batch_views b = map projr (batch_items b)"

definition recv_batch :: "bytes list \<Rightarrow> bool" where
  "recv_batch b \<longleftrightarrow>
     b \<noteq> [] \<and> length b \<le> MMSG_SLOTS \<and> list_all (\<lambda>p. length p \<le> ROUTE_EVENT_BUFFER_SIZE) b \<and>
     list_all (\<lambda>it. \<not> isl it) (batch_items b)"

definition good_batch :: "u32 \<Rightarrow> bytes list \<Rightarrow> bool" where
  "good_batch seq b \<longleftrightarrow> recv_batch b \<and> list_all (\<lambda>m. \<not> dump_error seq m) (batch_views b)"

lemma recv_batch_items: "recv_batch b \<Longrightarrow> concat (map iter_all b) = map Inr (batch_views b)"
  unfolding batch_items_def [symmetric]
  by (rule nth_equalityI) (auto simp: batch_views_def recv_batch_def list_all_iff sum.collapse(2))

lemma sock_recv_batch:
  assumes "recv_batch b" "rx_script (socks w sid) = RecvOk b # rest"
  shows "sock_recv MMSG_SLOTS sid w = (Inr b, upd_sock sid (\<lambda>s. s\<lparr>rx_script := rest\<rparr>) w)"
proof -
  have "min MMSG_SLOTS (length b) = length b" "map (take ROUTE_EVENT_BUFFER_SIZE) b = b"
    using assms(1) by (auto simp: recv_batch_def list_all_iff intro: map_idI)
  then show ?thesis using assms(2) by (simp add: sock_recv_def)
qed

text \<open>Packets made of whole frames give a batch of this kind.\<close>

lemma recv_batch_frames:
  assumes "ps \<noteq> []" "length ps \<le> MMSG_SLOTS" "list_all (list_all nl_frame) ps"
    "list_all (\<lambda>ms. length (concat ms) \<le> ROUTE_EVENT_BUFFER_SIZE) ps"
  shows "recv_batch (map concat ps)" and "batch_views (map concat ps) = map frame_view (concat ps)"
proof -
  have it: "batch_items (map concat ps) = map (Inr \<circ> frame_view) (concat ps)"
    using assms(3) unfolding batch_items_def
    by (induction ps) (simp_all add: iter_all_frames)
  then show "recv_batch (map concat ps)"
    using assms by (simp add: recv_batch_def list_all_iff)
  show "batch_views (map concat ps) = map frame_view (concat ps)"
    using it by (simp add: batch_views_def)
qed

lemma step_msgs_clean:
  assumes cb: "\<And>m s. cb m s = (Inr (), f m s)"
  shows "list_all (\<lambda>m. \<not> dump_error seq m) msgs \<Longrightarrow>
    step_msgs seq cb (map Inr msgs) d s =
      (Inr (d \<or> list_ex (dump_end seq) msgs), fold f (filter (dump_payload seq) msgs) s)"
proof (induction msgs arbitrary: d s)
  case Nil
  then show ?case by simp
next
  case (Cons m msgs)
  then show ?case
    by (cases "nlmsg_seq (nv_header m) = seq")
      (auto simp: cb dump_payload_def dump_end_def dump_error_def split: sum.splits option.splits)
qed

lemma recv_step_good_batch:
  assumes cb: "\<And>m s. cb m s = (Inr (), f m s)" and good: "good_batch seq b"
    and sc: "rx_script (socks w sid) = RecvOk b # rest"
  shows "recv_step sid seq (pure_cb cb) (w, s) =
    (Inr (if list_ex (dump_end seq) (batch_views b) then DumpDone else DumpContinue),
     (upd_sock sid (\<lambda>s. s\<lparr>rx_script := rest\<rparr>) w, fold f (filter (dump_payload seq) (batch_views b)) s))"
proof -
  have b: "recv_batch b" "b \<noteq> []" and e: "list_all (\<lambda>m. \<not> dump_error seq m) (batch_views b)"
    using good by (simp_all add: good_batch_def recv_batch_def)
  show ?thesis
    using b(2) step_msgs_clean [OF cb e]
    by (simp add: recv_step_def sock_recv_batch [OF b(1) sc] step_msgs_pure_world
        recv_batch_items [OF b(1)])
qed

lemma recv_loop_dump:
  assumes cb: "\<And>m s. cb m s = (Inr (), f m s)"
  shows "rx_script (socks w sid) = map RecvOk (bs @ [b]) @ rest \<Longrightarrow>
    list_all (good_batch seq) (bs @ [b]) \<Longrightarrow>
    list_all (\<lambda>c. \<not> list_ex (dump_end seq) (batch_views c)) bs \<Longrightarrow>
    list_ex (dump_end seq) (batch_views b) \<Longrightarrow>
    recv_loop d sid seq cb (w, s) =
      (Inr (), (upd_sock sid (\<lambda>s. s\<lparr>rx_script := rest\<rparr>) w,
        fold f (filter (dump_payload seq) (concat (map batch_views (bs @ [b])))) s))"
proof (induction bs arbitrary: w s)
  case Nil
  then show ?case
    by (subst recv_loop.simps) (simp add: recv_step_good_batch [OF cb, of seq b])
next
  case (Cons c bs)
  let ?w = "upd_sock sid (\<lambda>s. s\<lparr>rx_script := map RecvOk (bs @ [b]) @ rest\<rparr>) w"
  have "rx_script (socks ?w sid) = map RecvOk (bs @ [b]) @ rest" by (simp add: upd_sock_def)
  moreover have "upd_sock sid (\<lambda>s. s\<lparr>rx_script := rest\<rparr>) ?w = upd_sock sid (\<lambda>s. s\<lparr>rx_script := rest\<rparr>) w"
    by (simp add: upd_sock_def)
  ultimately show ?case
    using Cons.prems Cons.IH [of ?w]
    by (subst recv_loop.simps) (simp add: recv_step_good_batch [OF cb, of seq c])
qed

text \<open>The message that ends a dump.\<close>

definition kernel_done :: "u32 \<Rightarrow> bytes" where
  "kernel_done seq = build_netlink_request 3 2 seq [0, 0, 0, 0]"

lemma kernel_done_frame:
  "nl_frame (kernel_done seq)" "length (kernel_done seq) = 20"
  "frame_view (kernel_done seq) =
     \<lparr>nv_header = \<lparr>nlmsg_len = 20, nlmsg_type = 3, nlmsg_flags = 2, nlmsg_seq = seq, nlmsg_pid = 0\<rparr>,
      nv_data = [0, 0, 0, 0]\<rparr>"
proof -
  have e: "kernel_done seq = nlmsghdr_bytes \<lparr>nlmsg_len = 20, nlmsg_type = 3, nlmsg_flags = 2, nlmsg_seq = seq, nlmsg_pid = 0\<rparr>
      @ [0, 0, 0, 0]"
    using build_netlink_request_eq [of "[0, 0, 0, 0]" 3 2 seq] by (simp add: kernel_done_def)
  show "nl_frame (kernel_done seq)" "length (kernel_done seq) = 20"
    "frame_view (kernel_done seq) =
     \<lparr>nv_header = \<lparr>nlmsg_len = 20, nlmsg_type = 3, nlmsg_flags = 2, nlmsg_seq = seq, nlmsg_pid = 0\<rparr>,
      nv_data = [0, 0, 0, 0]\<rparr>"
    by (simp_all add: e nl_frame_def frame_view_def)
qed

lemma frame_batch:
  assumes "nl_frame m" "length m \<le> ROUTE_EVENT_BUFFER_SIZE"
  shows "recv_batch [m]" "batch_views [m] = [frame_view m]"
  using recv_batch_frames [of "[[m]]"] assms by simp_all

lemma done_batch: "recv_batch [kernel_done seq]" "batch_views [kernel_done seq] = [frame_view (kernel_done seq)]"
  "good_batch s [kernel_done seq]" "list_ex (dump_end seq) (batch_views [kernel_done seq])"
  using frame_batch [OF kernel_done_frame(1), of seq]
  by (simp_all add: good_batch_def dump_error_def dump_end_def kernel_done_frame)

text \<open>
  C17. A dump hands over every message of its answer once and in order and skips messages of other requests:
  for any closure that does not fail, the run of the loop is the fold of the closure over the payload messages
  of the received batches up to the first one with an end marker. That batch is consumed whole: payload
  that follows the marker in it is still handed over, and only later batches stay in the queue.
\<close>

theorem dump_delivers_everything:
  assumes "\<And>m s. cb m s = (Inr (), f m s)"
    "rx_script (socks w sid) = map RecvOk (bs @ [b]) @ rest"
    "list_all (good_batch seq) (bs @ [b])"
    "list_all (\<lambda>c. \<not> list_ex (dump_end seq) (batch_views c)) bs"
    "list_ex (dump_end seq) (batch_views b)"
  shows "\<exists>w'. recv_until_done sid seq cb (w, s) =
      (Inr (), (w', fold f (filter (dump_payload seq) (concat (map batch_views (bs @ [b])))) s)) \<and>
    rx_script (socks w' sid) = rest"
proof -
  let ?w = "snd (instant_now w)"
  have "rx_script (socks ?w sid) = map RecvOk (bs @ [b]) @ rest" using assms(2) by simp
  from recv_loop_dump [OF assms(1) this assms(3-5)] show ?thesis
    by (simp add: recv_until_done_def case_prod_beta upd_sock_def)
qed

text \<open>An answer in two batches, with another request's end marker before it and a message behind its own.\<close>

definition sample_payload :: bytes where
  "sample_payload = build_netlink_request 20 2 5 [1, 2, 3, 4]"

lemma sample_payload_frame:
  "nl_frame sample_payload" "length sample_payload = 20" "dump_payload 5 (frame_view sample_payload)"
  "\<not> dump_end 5 (frame_view sample_payload)" "\<not> dump_error 5 (frame_view sample_payload)"
  using build_netlink_request_frame [of "[1, 2, 3, 4]" 20 2 5] build_netlink_request_eq [of "[1, 2, 3, 4]" 20 2 5]
  by (simp_all add: sample_payload_def dump_payload_def dump_end_def dump_error_def)

theorem dump_delivers_everything_witness:
  "\<exists>w'. recv_until_done RuleSock 5 (\<lambda>m n. (Inr (), n @ [nv_data m]))
      (upd_sock RuleSock (\<lambda>s. s\<lparr>rx_script := [RecvOk [kernel_done 4, sample_payload],
         RecvOk [kernel_done 5, sample_payload], RecvOk [kernel_done 5]]\<rparr>) quiet_world, []) =
    (Inr (), (w', [[1, 2, 3, 4], [1, 2, 3, 4]])) \<and> rx_script (socks w' RuleSock) = [RecvOk [kernel_done 5]]"
proof -
  let ?bs = "[[kernel_done 4, sample_payload]]" and ?b = "[kernel_done 5, sample_payload]"
  let ?w = "upd_sock RuleSock (\<lambda>s. s\<lparr>rx_script := [RecvOk [kernel_done 4, sample_payload],
         RecvOk [kernel_done 5, sample_payload], RecvOk [kernel_done 5]]\<rparr>) quiet_world"
  have b: "recv_batch [kernel_done q, sample_payload]"
    "batch_views [kernel_done q, sample_payload] = [frame_view (kernel_done q), frame_view sample_payload]" for q
    using recv_batch_frames [of "[[kernel_done q], [sample_payload]]"] kernel_done_frame(1,2) sample_payload_frame(1,2)
    by simp_all
  have d: "nv_data (frame_view sample_payload) = [1, 2, 3, 4]"
    using build_netlink_request_frame [of "[1, 2, 3, 4]" 20 2 5] by (simp add: sample_payload_def)
  have dn: "\<not> dump_payload 5 (frame_view (kernel_done q))" "\<not> dump_error 5 (frame_view (kernel_done q))"
    "dump_end 5 (frame_view (kernel_done q)) \<longleftrightarrow> q = 5" for q
    by (auto simp: kernel_done_frame dump_payload_def dump_error_def dump_end_def)
  have "rx_script (socks ?w RuleSock) = map RecvOk (?bs @ [?b]) @ [RecvOk [kernel_done 5]]"
    by (simp add: upd_sock_def)
  moreover have "list_all (good_batch 5) (?bs @ [?b])"
    "list_all (\<lambda>c. \<not> list_ex (dump_end 5) (batch_views c)) ?bs" "list_ex (dump_end 5) (batch_views ?b)"
    by (simp_all add: good_batch_def b dn sample_payload_frame)
  ultimately show ?thesis
    using dump_delivers_everything [where cb = "\<lambda>m n. (Inr (), n @ [nv_data m])" and f = "\<lambda>m n. n @ [nv_data m]"
        and seq = 5 and s = "[]" and w = ?w and sid = RuleSock and bs = ?bs and b = ?b and rest = "[RecvOk [kernel_done 5]]"]
    by (simp add: b dn sample_payload_frame d)
qed

end
