(* ===== verification/Rule.thy ===== *)
theory Rule
  imports Dump_Engine
begin

text \<open>
  \<^verbatim>\<open>src/netlink/rule.rs\<close>: rule requests, the batch that carries them and the tracker of their
  acknowledgements.

  A raw pointer to an outbound message is the bytes it points to. The tracker invariant
  \<open>tracker_ok\<close> ties its pending counter to the acknowledgements not yet seen; it holds whatever the
  kernel sends. The locale \<open>ack_tracking\<close> is the interface the batch code relies on, interpreted
  on \<open>AckTracker\<close>.
\<close>

unbundle bit_operations_syntax

abbreviation (input) ACK_WAIT_TIMEOUT :: nat where "ACK_WAIT_TIMEOUT \<equiv> secs 5"

datatype RuleAction = Delete | Add

record RuleOp =
  op_addr :: IpAddr
  op_action :: RuleAction

definition is_add :: "RuleOp \<Rightarrow> bool" where
  "is_add op \<longleftrightarrow> op_action op = Add"

record RuleContext =
  ctx_pref :: u32
  ctx_table_id :: u32

record NetlinkAckStatus =
  st_errno :: int
  st_ext_msg :: "ExtAckText option"
  st_ext_offset :: "u32 option"

datatype RuleAckClass = AckOk | EexistNoop | EnoentNoop | KernelErr

datatype AckWaitErrorKind = WaitTimeout | WaitSeqMismatch | WaitNonAck

record AckWaitError =
  we_kind :: AckWaitErrorKind
  we_pending :: usize
  we_count_seq_mismatch :: usize
  we_count_non_ack :: usize

definition to_app_error :: "AckWaitError \<Rightarrow> AppError" where
  "to_app_error e =
     (let kind = (case we_kind e of WaitTimeout \<Rightarrow> ''timeout'' | WaitSeqMismatch \<Rightarrow> ''seq_mismatch''
                  | WaitNonAck \<Rightarrow> ''non_ack'')
      in Netlink (''ack_wait_failed kind='' @ kind @ '' pending='' @ fmt_nat (we_pending e) @
           '' count_seq_mismatch='' @ fmt_nat (we_count_seq_mismatch e) @
           '' count_non_ack='' @ fmt_nat (we_count_non_ack e)))"

subsection \<open>The acknowledgement tracker\<close>

record AckTracker =
  tr_seen :: "bool list"
  tr_status :: "NetlinkAckStatus option list"
  tr_pending :: usize
  tr_count_seq_mismatch :: usize
  tr_count_non_ack :: usize

definition AckTracker_default :: AckTracker where
  "AckTracker_default = \<lparr>tr_seen = [], tr_status = [], tr_pending = 0, tr_count_seq_mismatch = 0,
     tr_count_non_ack = 0\<rparr>"

definition tracker_prepare :: "usize \<Rightarrow> AckTracker \<Rightarrow> AckTracker" where
  "tracker_prepare batch_len t =
     t\<lparr>tr_seen := vec_resize batch_len False [], tr_status := vec_resize batch_len None [],
       tr_pending := batch_len, tr_count_seq_mismatch := 0, tr_count_non_ack := 0\<rparr>"

definition seen_at :: "AckTracker \<Rightarrow> usize \<Rightarrow> bool" where
  "seen_at t idx = (if idx < length (tr_seen t) then tr_seen t ! idx else False)"

definition status_at :: "AckTracker \<Rightarrow> usize \<Rightarrow> NetlinkAckStatus option" where
  "status_at t idx = (if idx < length (tr_status t) then tr_status t ! idx else None)"

definition mark_non_ack :: "AckTracker \<Rightarrow> AckTracker" where
  "mark_non_ack t = t\<lparr>tr_count_non_ack := usize_sat_add (tr_count_non_ack t) 1\<rparr>"

definition mark_seq_mismatch :: "AckTracker \<Rightarrow> AckTracker" where
  "mark_seq_mismatch t = t\<lparr>tr_count_seq_mismatch := usize_sat_add (tr_count_seq_mismatch t) 1\<rparr>"

definition mark_status :: "usize \<Rightarrow> NetlinkAckStatus option \<Rightarrow> AckTracker \<Rightarrow> AckTracker" where
  "mark_status idx status t =
     (if idx \<ge> length (tr_seen t) \<or> tr_seen t ! idx then t
      else t\<lparr>tr_seen := (tr_seen t)[idx := True], tr_status := (tr_status t)[idx := status],
             tr_pending := tr_pending t - 1\<rparr>)"

text \<open>The invariant of a tracker prepared for \<open>n\<close> operations.\<close>

definition tracker_ok :: "usize \<Rightarrow> AckTracker \<Rightarrow> bool" where
  "tracker_ok n t \<longleftrightarrow>
     length (tr_seen t) = n \<and> length (tr_status t) = n \<and>
     tr_pending t = length (filter Not (tr_seen t)) \<and>
     (\<forall>i < n. \<not> tr_seen t ! i \<longrightarrow> tr_status t ! i = None)"

lemma tracker_ok_prepare [inv_intros]: "tracker_ok n (tracker_prepare n t)"
  by (simp add: tracker_ok_def tracker_prepare_def vec_resize_def)

lemma tracker_ok_marks [inv_intros]:
  "tracker_ok n t \<Longrightarrow> tracker_ok n (mark_non_ack t)"
  "tracker_ok n t \<Longrightarrow> tracker_ok n (mark_seq_mismatch t)"
  by (simp_all add: tracker_ok_def mark_non_ack_def mark_seq_mismatch_def)

lemma length_filter_Not_update:
  "i < length xs \<Longrightarrow> \<not> xs ! i \<Longrightarrow>
     length (filter Not (xs[i := True])) = length (filter Not xs) - 1 \<and> 0 < length (filter Not xs)"
proof (induction xs arbitrary: i)
  case (Cons x xs)
  show ?case
  proof (cases i)
    case 0
    with Cons.prems show ?thesis by simp
  next
    case (Suc j)
    with Cons.prems have "j < length xs" "\<not> xs ! j" by simp_all
    from Cons.IH [OF this] Suc show ?thesis by simp
  qed
qed simp

lemma tracker_ok_mark_status [inv_intros]:
  "tracker_ok n t \<Longrightarrow> tracker_ok n (mark_status idx st t)"
  using length_filter_Not_update [of idx "tr_seen t"]
  by (cases "idx < n") (simp_all add: tracker_ok_def mark_status_def nth_list_update)

lemma seen_at_mark_status:
  "tracker_ok n t \<Longrightarrow> seen_at (mark_status idx st t) i = (seen_at t i \<or> (i = idx \<and> idx < n))"
  by (cases "i = idx"; cases "idx < n") (simp_all add: tracker_ok_def mark_status_def seen_at_def)

lemma status_at_mark_status:
  "tracker_ok n t \<Longrightarrow> status_at (mark_status idx st t) i =
     (if i = idx \<and> idx < n \<and> \<not> seen_at t i then st else status_at t i)"
  by (cases "i = idx"; cases "idx < n")
    (simp_all add: tracker_ok_def mark_status_def seen_at_def status_at_def)

lemma at_marks [simp]:
  "seen_at (mark_non_ack t) i = seen_at t i" "seen_at (mark_seq_mismatch t) i = seen_at t i"
  "status_at (mark_non_ack t) i = status_at t i" "status_at (mark_seq_mismatch t) i = status_at t i"
  by (simp_all add: seen_at_def status_at_def mark_non_ack_def mark_seq_mismatch_def)

lemma tracker_pending_0:
  "tracker_ok n t \<Longrightarrow> tr_pending t = 0 \<longleftrightarrow> (\<forall>i < n. seen_at t i)"
  by (simp add: tracker_ok_def seen_at_def filter_empty_conv all_set_conv_all_nth)

lemma tracker_unseen_status: "tracker_ok n t \<Longrightarrow> \<not> seen_at t i \<Longrightarrow> status_at t i = None"
  by (auto simp: tracker_ok_def seen_at_def status_at_def split: if_splits)

lemma tracker_pending_le: "tracker_ok n t \<Longrightarrow> tr_pending t \<le> n"
  using length_filter_le [of Not "tr_seen t"] by (auto simp: tracker_ok_def)

subsection \<open>Rule messages\<close>

definition new_rule_context :: "u32 \<Rightarrow> u32 \<Rightarrow> RuleContext" where
  "new_rule_context pref table_id = \<lparr>ctx_pref = pref, ctx_table_id = table_id\<rparr>"

definition addr_from_netlink :: "u8 \<Rightarrow> bytes \<Rightarrow> IpAddr option" where
  "addr_from_netlink family raw =
     (if uint family = AF_INET then
        if length raw < 4 then None
        else Some (IpV4 (ipv4_new (raw ! 0) (raw ! 1) (raw ! 2) (raw ! 3)))
      else if uint family = AF_INET6 then
        if length raw < 16 then None
        else Some (IpV6 (ipv6_from_octets (write_at 0 (take 16 raw) (replicate 16 0))))
      else None)"

fun addr_to_netlink :: "IpAddr \<Rightarrow> (AppError, int \<times> bytes \<times> usize \<times> u8) res" where
  "addr_to_netlink (IpV4 v4) = Inr (AF_INET, write_at 0 (ipv4_octets v4) (replicate 16 0), 4, 32)"
| "addr_to_netlink (IpV6 v6) = Inr (AF_INET6, write_at 0 (ipv6_octets v6) (replicate 16 0), 16, 128)"

definition build_rule_message_into ::
  "bytes \<Rightarrow> RuleContext \<Rightarrow> RuleOp \<Rightarrow> u32 \<Rightarrow> (AppError, bytes) res" where
  "build_rule_message_into dst rule_ctx op seq =
     res_bind (addr_to_netlink (op_addr op)) (\<lambda>(family, addr, addr_len, dst_len).
       let req_type = (if is_add op then RTM_NEWRULE else RTM_DELRULE);
           req_flags = NLM_F_REQUEST OR NLM_F_ACK;
           req_flags = (if is_add op then req_flags OR (NLM_F_CREATE OR NLM_F_EXCL) else req_flags);
           rtm = zero_RtMsg\<lparr>rtm_family := word_of_int family, rtm_dst_len := dst_len,
             rtm_protocol := RTPROT_BOOT, rtm_scope := RT_SCOPE_UNIVERSE, rtm_type := RTN_UNICAST\<rparr>;
           rtm = (if ctx_table_id rule_ctx \<le> 255 then rtm\<lparr>rtm_table := ucast (ctx_table_id rule_ctx)\<rparr>
                  else rtm);
           start = length dst;
           dst = append_zeros dst (NLMSGHDR_SIZE + RTMSG_SIZE);
           body_start = start + NLMSGHDR_SIZE;
           dst = write_at body_start (RtMsg_bytes rtm) dst;
           dst = append_nla dst FRA_ATTR_DST (take addr_len addr);
           dst = append_nla_u32 dst FRA_ATTR_PRIORITY (ctx_pref rule_ctx);
           dst = append_nla_u32 dst FRA_ATTR_TABLE (ctx_table_id rule_ctx);
           msg_len = length dst - start;
           hdr = \<lparr>nlmsg_len = of_nat msg_len, nlmsg_type = req_type, nlmsg_flags = req_flags,
                  nlmsg_seq = seq, nlmsg_pid = 0\<rparr>;
           dst = write_at start (nlmsghdr_bytes hdr) dst;
           aligned = nlmsg_align msg_len
       in Inr (if aligned > msg_len then append_zeros dst (aligned - msg_len) else dst))"

text \<open>The address bytes of an operation, its family and the message as one concatenation.\<close>

fun addr_octets :: "IpAddr \<Rightarrow> bytes" where
  "addr_octets (IpV4 v) = ipv4_octets v"
| "addr_octets (IpV6 v) = ipv6_octets v"

fun addr_family :: "IpAddr \<Rightarrow> int" where
  "addr_family (IpV4 v) = AF_INET"
| "addr_family (IpV6 v) = AF_INET6"

fun addr_bits :: "IpAddr \<Rightarrow> u8" where
  "addr_bits (IpV4 v) = 32"
| "addr_bits (IpV6 v) = 128"

definition rule_rtm :: "RuleContext \<Rightarrow> IpAddr \<Rightarrow> RtMsg" where
  "rule_rtm ctx a =
     zero_RtMsg\<lparr>rtm_family := word_of_int (addr_family a), rtm_dst_len := addr_bits a,
       rtm_table := (if ctx_table_id ctx \<le> 255 then ucast (ctx_table_id ctx) else 0),
       rtm_protocol := RTPROT_BOOT, rtm_type := RTN_UNICAST\<rparr>"

definition rule_attrs :: "RuleContext \<Rightarrow> IpAddr \<Rightarrow> (u16 \<times> bytes) list" where
  "rule_attrs ctx a =
     [(FRA_ATTR_DST, addr_octets a), (FRA_ATTR_PRIORITY, le_bytes 4 (ctx_pref ctx)),
      (FRA_ATTR_TABLE, le_bytes 4 (ctx_table_id ctx))]"

definition rule_body :: "RuleContext \<Rightarrow> IpAddr \<Rightarrow> bytes" where
  "rule_body ctx a = RtMsg_bytes (rule_rtm ctx a) @ enc_nlas (rule_attrs ctx a)"

definition rule_header :: "RuleContext \<Rightarrow> RuleOp \<Rightarrow> u32 \<Rightarrow> nlmsghdr" where
  "rule_header ctx op seq =
     \<lparr>nlmsg_len = of_nat (NLMSGHDR_SIZE + length (rule_body ctx (op_addr op))),
      nlmsg_type = (if is_add op then RTM_NEWRULE else RTM_DELRULE),
      nlmsg_flags = (if is_add op then 0x605 else 0x5), nlmsg_seq = seq, nlmsg_pid = 0\<rparr>"

definition rule_message :: "RuleContext \<Rightarrow> RuleOp \<Rightarrow> u32 \<Rightarrow> bytes" where
  "rule_message ctx op seq = nlmsghdr_bytes (rule_header ctx op seq) @ rule_body ctx (op_addr op)"

lemma length_rule_body [simp]:
  "length (rule_body ctx a) = (case a of IpV4 _ \<Rightarrow> 36 | IpV6 _ \<Rightarrow> 48)"
  by (cases a) (simp_all add: rule_body_def rule_attrs_def nla_align_eq ipv4_octets_def ipv6_octets_def)

lemma write_at_body:
  "length b = m \<Longrightarrow> write_at (length dst + n) b (dst @ replicate (n + m) z) = dst @ replicate n z @ b"
  by (simp add: write_at_def)

lemma write_at_front:
  "length h = n \<Longrightarrow> write_at (length dst) h (dst @ replicate n z @ rest) = dst @ h @ rest"
  by (simp add: write_at_def)

lemma addr_to_netlink_eq:
  "\<exists>buf n. addr_to_netlink a = Inr (addr_family a, buf, n, addr_bits a) \<and> take n buf = addr_octets a"
  by (cases a) (simp_all add: ipv4_octets_def ipv6_octets_def write_at_def)

lemma build_rule_message_into_eq:
  "build_rule_message_into dst ctx op seq = Inr (dst @ rule_message ctx op seq)"
proof -
  let ?a = "op_addr op"
  obtain buf n where b: "addr_to_netlink ?a = Inr (addr_family ?a, buf, n, addr_bits ?a)"
    and t: "take n buf = addr_octets ?a" using addr_to_netlink_eq by blast
  let ?body = "rule_body ctx ?a" and ?hdr = "rule_header ctx op seq"
  let ?pre = "dst @ replicate 16 0 @ RtMsg_bytes (rule_rtm ctx ?a)"
  have w1: "write_at (length dst + 16) (RtMsg_bytes (rule_rtm ctx ?a)) (append_zeros dst 28) = ?pre"
    using write_at_body [of "RtMsg_bytes (rule_rtm ctx ?a)" 12 dst 16] by (simp add: append_zeros_def)
  have w2: "write_at (length dst) (nlmsghdr_bytes ?hdr) (dst @ replicate 16 0 @ ?body) =
      dst @ nlmsghdr_bytes ?hdr @ ?body"
    by (rule write_at_front) simp
  have len: "nlmsg_align (16 + length ?body) = 16 + length ?body"
    by (cases ?a) (simp_all add: nlmsg_align_eq)
  have rtm: "rule_rtm ctx ?a =
      (let rtm = zero_RtMsg\<lparr>rtm_family := word_of_int (addr_family ?a), rtm_dst_len := addr_bits ?a,
             rtm_protocol := RTPROT_BOOT, rtm_scope := RT_SCOPE_UNIVERSE, rtm_type := RTN_UNICAST\<rparr>
       in if ctx_table_id ctx \<le> 255 then rtm\<lparr>rtm_table := ucast (ctx_table_id ctx)\<rparr> else rtm)"
    by (simp add: rule_rtm_def zero_RtMsg_def)
  have attrs: "append_nla_u32 (append_nla_u32 (append_nla ?pre FRA_ATTR_DST (take n buf))
        FRA_ATTR_PRIORITY (ctx_pref ctx)) FRA_ATTR_TABLE (ctx_table_id ctx) = dst @ replicate 16 0 @ ?body"
    by (simp add: t append_nla_eq append_nla_u32_eq rule_body_def rule_attrs_def)
  have "build_rule_message_into dst ctx op seq =
      Inr (let d = write_at (length dst) (nlmsghdr_bytes ?hdr) (dst @ replicate 16 0 @ ?body);
               m = length (dst @ replicate 16 (0 :: u8) @ ?body) - length dst
           in if nlmsg_align m > m then append_zeros d (nlmsg_align m - m) else d)"
    unfolding build_rule_message_into_def b res_bind_simps prod.case Let_def
      rtm [unfolded Let_def, symmetric]
    using w1 attrs by (simp add: rule_header_def)
  also have "\<dots> = Inr (dst @ rule_message ctx op seq)"
    using len by (simp add: w2 rule_message_def)
  finally show ?thesis .
qed

lemma rule_message_frame:
  "nl_frame (rule_message ctx op seq)"
  "frame_view (rule_message ctx op seq) =
     \<lparr>nv_header = rule_header ctx op seq, nv_data = rule_body ctx (op_addr op)\<rparr>"
proof -
  have "unat (of_nat (16 + length (rule_body ctx (op_addr op))) :: u32) =
      16 + length (rule_body ctx (op_addr op))"
    by (rule unat_of_nat_small) (simp split: IpAddr.splits)
  then show "nl_frame (rule_message ctx op seq)"
    by (simp add: nl_frame_def rule_message_def rule_header_def del: of_nat_add split: IpAddr.splits)
qed (simp add: frame_view_def rule_message_def)

lemma addr_from_netlink_octets [simp]:
  "addr_from_netlink (word_of_int (addr_family a)) (addr_octets a) = Some a"
proof (cases a)
  case (IpV4 v)
  have "[ipv4_octets v ! 0, ipv4_octets v ! 1, ipv4_octets v ! 2, ipv4_octets v ! 3] = ipv4_octets v"
    by (rule nth_equalityI) (auto simp: ipv4_octets_def nth_Cons' less_Suc_eq numeral_eq_Suc)
  with IpV4 show ?thesis
    by (simp add: addr_from_netlink_def ipv4_new_def) (simp add: ipv4_octets_def)
next
  case (IpV6 v)
  then show ?thesis
    by (simp add: addr_from_netlink_def ipv6_from_octets_def ipv6_octets_def write_at_def)
qed

subsection \<open>Sending a batch\<close>

record ApplyScratch =
  outbound :: "bytes list"
  tx_ptrs :: "bytes list"
  tx_lens :: "usize list"
  blocking_tracker :: AckTracker

definition ApplyScratch_default :: ApplyScratch where
  "ApplyScratch_default = \<lparr>outbound = [], tx_ptrs = [], tx_lens = [],
     blocking_tracker = AckTracker_default\<rparr>"

fun build_outbound :: "RuleContext \<Rightarrow> u32 \<Rightarrow> nat \<Rightarrow> RuleOp list \<Rightarrow> bytes list \<Rightarrow> (AppError + unit) \<times> bytes list" where
  "build_outbound ctx first_seq index [] outb = (Inr (), outb)"
| "build_outbound ctx first_seq index (op # ops) outb =
     (case build_rule_message_into (outb ! index) ctx op (seq_with_offset first_seq index) of
        Inl e \<Rightarrow> (Inl e, outb)
      | Inr m \<Rightarrow> build_outbound ctx first_seq (Suc index) ops (outb[index := m]))"

text \<open>The outbound buffers are grown to the batch and emptied; then pointers and lengths are taken.\<close>

definition scratch_clear :: "nat \<Rightarrow> ApplyScratch \<Rightarrow> ApplyScratch" where
  "scratch_clear n sc =
     (let outb = (if length (outbound sc) < n then vec_resize n [] (outbound sc) else outbound sc)
      in sc\<lparr>outbound := map (\<lambda>_. []) (take n outb) @ drop n outb\<rparr>)"

definition scratch_point :: "nat \<Rightarrow> ApplyScratch \<Rightarrow> ApplyScratch" where
  "scratch_point n sc =
     (let ptrs = (if length (tx_ptrs sc) < n then vec_resize n [] (tx_ptrs sc) else tx_ptrs sc);
          lens = (if length (tx_lens sc) < n then vec_resize n 0 (tx_lens sc) else tx_lens sc);
          msgs = take n (outbound sc)
      in sc\<lparr>tx_ptrs := msgs @ drop (length msgs) ptrs,
            tx_lens := map length msgs @ drop (length msgs) lens\<rparr>)"

definition start_apply_rules_batch ::
  "SockId \<Rightarrow> RuleContext \<Rightarrow> RuleOp list \<Rightarrow> ApplyScratch \<Rightarrow> AckTracker \<Rightarrow> world \<Rightarrow>
     (AppError + u32) \<times> ApplyScratch \<times> AckTracker \<times> world" where
  "start_apply_rules_batch sid rule_ctx ops scratch tracker w =
     (if ops = [] then (Inr 0, scratch, tracker_prepare 0 tracker, w)
      else
        let n = length ops;
            (first_seq, cell) = reserve_seq_block (seq_cell w) n;
            w = w\<lparr>seq_cell := cell\<rparr>;
            scratch = scratch_clear n scratch
        in
        case build_outbound rule_ctx first_seq 0 ops (outbound scratch) of
          (Inl e, outb) \<Rightarrow> (Inl e, scratch\<lparr>outbound := outb\<rparr>, tracker, w)
        | (Inr _, outb) \<Rightarrow>
            let scratch = scratch_point n (scratch\<lparr>outbound := outb\<rparr>) in
            (case send_many_raw sid (take n (tx_ptrs scratch)) (take n (tx_lens scratch)) w of
               (Inl e, w') \<Rightarrow> (Inl (AppError_from_io e), scratch, tracker, w')
             | (Inr _, w') \<Rightarrow> (Inr first_seq, scratch, tracker_prepare n tracker, w')))"

text \<open>The messages of a batch, numbered from the first sequence number.\<close>

definition batch_messages :: "RuleContext \<Rightarrow> u32 \<Rightarrow> RuleOp list \<Rightarrow> bytes list" where
  "batch_messages ctx first_seq ops =
     map (\<lambda>i. rule_message ctx (ops ! i) (seq_with_offset first_seq i)) [0..<length ops]"

lemma length_batch_messages [simp]: "length (batch_messages ctx f ops) = length ops"
  by (simp add: batch_messages_def)

lemma build_outbound_eq:
  assumes "k + length ops \<le> length outb" "\<forall>i. k \<le> i \<and> i < k + length ops \<longrightarrow> outb ! i = []"
  shows "build_outbound ctx f k ops outb =
    (Inr (), take k outb @ map (\<lambda>i. rule_message ctx (ops ! i) (seq_with_offset f (k + i))) [0..<length ops]
       @ drop (k + length ops) outb)"
  using assms
proof (induction ctx f k ops outb rule: build_outbound.induct)
  case (1 ctx f k outb)
  then show ?case by simp
next
  case (2 ctx f k op ops outb)
  let ?m = "rule_message ctx op (seq_with_offset f k)"
  have k: "k < length outb" "outb ! k = []" using "2.prems" by auto
  have b: "build_rule_message_into (outb ! k) ctx op (seq_with_offset f k) = Inr ?m"
    using k by (simp add: build_rule_message_into_eq)
  have ih: "build_outbound ctx f (Suc k) ops (outb[k := ?m]) =
    (Inr (), take (Suc k) (outb[k := ?m]) @
       map (\<lambda>i. rule_message ctx (ops ! i) (seq_with_offset f (Suc k + i))) [0..<length ops]
       @ drop (Suc k + length ops) (outb[k := ?m]))"
    using "2.IH" [OF b] "2.prems" by simp
  have "[0..<length (op # ops)] = 0 # map Suc [0..<length ops]" by (simp add: upt_conv_Cons map_Suc_upt del: upt_Suc)
  then have "map (\<lambda>i. rule_message ctx ((op # ops) ! i) (seq_with_offset f (k + i))) [0..<length (op # ops)] =
      ?m # map (\<lambda>i. rule_message ctx (ops ! i) (seq_with_offset f (Suc k + i))) [0..<length ops]"
    by (simp del: upt_Suc)
  then show ?case
    using k(1) by (simp add: b ih take_Suc_conv_app_nth del: upt_Suc)
qed

lemma start_apply_rules_batch_eq:
  fixes w :: world
  assumes "ops \<noteq> []"
  defines "f \<equiv> normalize_seq (seq_cell w)"
  shows "\<exists>sc. start_apply_rules_batch sid ctx ops scratch tracker w =
    (case send_loop sid (batch_messages ctx f ops) (w\<lparr>seq_cell := seq_advance f (length ops)\<rparr>) of
       (Inl e, w') \<Rightarrow> (Inl (AppError_from_io e), sc, tracker, w')
     | (Inr _, w') \<Rightarrow> (Inr f, sc, tracker_prepare (length ops) tracker, w'))"
proof -
  let ?n = "length ops"
  let ?ob = "outbound (scratch_clear ?n scratch)" and ?bm = "batch_messages ctx f ops"
  let ?sc = "scratch_point ?n ((scratch_clear ?n scratch)\<lparr>outbound := ?bm @ drop ?n ?ob\<rparr>)"
  have len: "?n \<le> length ?ob" by (simp add: scratch_clear_def Let_def)
  have "\<forall>i. 0 \<le> i \<and> i < 0 + ?n \<longrightarrow> ?ob ! i = []"
    by (simp add: scratch_clear_def Let_def nth_append)
  then have bo: "build_outbound ctx f 0 ops ?ob = (Inr (), ?bm @ drop ?n ?ob)"
    using build_outbound_eq [of 0 ops ?ob ctx f] len by (simp add: batch_messages_def)
  have r: "reserve_seq_block (seq_cell w) ?n = (f, seq_advance f ?n)"
    using assms(1) by (cases ops) (simp_all add: reserve_seq_block_def f_def Let_def)
  have bm: "?bm \<noteq> []"
    using assms(1) length_batch_messages [of ctx f ops] by (metis length_0_conv)
  have sc: "take ?n (tx_ptrs ?sc) = ?bm" "take ?n (tx_lens ?sc) = map length ?bm"
    by (simp_all add: scratch_point_def Let_def)
  have m2: "map2 (\<lambda>p n. take n p) ?bm (map length ?bm) = ?bm"
    by (rule nth_equalityI) simp_all
  show ?thesis
    unfolding start_apply_rules_batch_def r bo Let_def prod.case sum.case sc
    using assms(1) bm by (intro exI [of _ ?sc]) (simp add: send_many_raw_def m2)
qed

subsection \<open>Draining acknowledgements\<close>

definition ack_status :: "AckErrorInfo \<Rightarrow> NetlinkAckStatus" where
  "ack_status info = \<lparr>st_errno = ack_errno info, st_ext_msg = ack_ext_msg info,
     st_ext_offset = ack_ext_offset info\<rparr>"

fun drain_items ::
  "u32 \<Rightarrow> usize \<Rightarrow> (AppError, NetlinkMessageView) res list \<Rightarrow> AckTracker \<Rightarrow> (AppError + unit) \<times> AckTracker" where
  "drain_items first_seq n [] tracker = (Inr (), tracker)"
| "drain_items first_seq n (Inl e # items) tracker = (Inl e, tracker)"
| "drain_items first_seq n (Inr msg # items) tracker =
     (if nlmsg_type (nv_header msg) \<noteq> word_of_int NLMSG_ERROR
      then drain_items first_seq n items (mark_non_ack tracker)
      else
        case seq_to_batch_index (nlmsg_seq (nv_header msg)) first_seq n of
          None \<Rightarrow> drain_items first_seq n items (mark_seq_mismatch tracker)
        | Some batch_idx \<Rightarrow>
            (case parse_ack_error_info (nv_data msg) of
               Inl e \<Rightarrow> (Inl e, tracker)
             | Inr ack \<Rightarrow>
                 drain_items first_seq n items (mark_status batch_idx (map_option ack_status ack) tracker)))"

function drain_apply_ack_messages ::
  "SockId \<Rightarrow> u32 \<Rightarrow> RuleOp list \<Rightarrow> AckTracker \<Rightarrow> world \<Rightarrow> (AppError + unit) \<times> AckTracker \<times> world" where
  "drain_apply_ack_messages sid first_seq ops tracker w =
     (case sock_recv MMSG_SLOTS sid w of
        (Inl err, w') \<Rightarrow>
          if is_transient_recv_err err then (Inr (), tracker, w')
          else (Inl (AppError_from_io err), tracker, w')
      | (Inr pkts, w') \<Rightarrow>
          if pkts = [] then (Inr (), tracker, w')
          else
            (case drain_items first_seq (length ops) (concat (map iter_all pkts)) tracker of
               (Inl e, tracker') \<Rightarrow> (Inl e, tracker', w')
             | (Inr _, tracker') \<Rightarrow> drain_apply_ack_messages sid first_seq ops tracker' w'))"
  by pat_completeness auto
termination
  by (relation "measure (\<lambda>(sid, f, ops, t, w). rx_weight sid w)")
    (auto dest: sock_recv_weight(2) [OF sym])

declare drain_apply_ack_messages.simps [simp del]

lemma drain_items_ok:
  "tracker_ok n t \<Longrightarrow> tracker_ok n (snd (drain_items f m items t))"
proof (induction f m items t rule: drain_items.induct)
  case (3 f m msg items t)
  then show ?case
    by (auto simp: tracker_ok_marks tracker_ok_mark_status split: option.splits sum.splits)
qed simp_all

lemma drain_apply_ack_messages_ok:
  "tracker_ok n t \<Longrightarrow> tracker_ok n (fst (snd (drain_apply_ack_messages sid f ops t w)))"
proof (induction sid f ops t w rule: drain_apply_ack_messages.induct)
  case (1 sid f ops t w)
  obtain r w' where sr: "sock_recv MMSG_SLOTS sid w = (r, w')" by fastforce
  show ?case
  proof (cases r)
    case (Inl e)
    then show ?thesis using sr "1.prems" by (simp add: drain_apply_ack_messages.simps [of sid f ops t w])
  next
    case (Inr pkts)
    obtain q t' where d: "drain_items f (length ops) (concat (map iter_all pkts)) t = (q, t')" by fastforce
    have t': "tracker_ok n t'" using drain_items_ok [OF "1.prems"] d by (metis snd_conv)
    show ?thesis
    proof (cases "pkts = [] \<or> isl q")
      case True
      then show ?thesis
        using sr Inr d t' "1.prems"
        by (subst drain_apply_ack_messages.simps) (cases q; auto)
    next
      case False
      then obtain u where u: "q = Inr u" by (cases q) auto
      have "drain_apply_ack_messages sid f ops t w = drain_apply_ack_messages sid f ops t' w'"
        using sr Inr d u False by (simp add: drain_apply_ack_messages.simps [of sid f ops t w])
      moreover have "tracker_ok n (fst (snd (drain_apply_ack_messages sid f ops t' w')))"
        using "1.IH" [OF sr [symmetric] Inr _ d [symmetric] u t'] False by simp
      ultimately show ?thesis by simp
    qed
  qed
qed

lemma drain_apply_frame:
  "drain_apply_ack_messages sid f ops t w = (r, t', w') \<Longrightarrow>
     polls w' = polls w \<and> seq_cell w' = seq_cell w \<and> clock w' = clock w \<and> times w' = times w \<and>
     tx_log (socks w' i) = tx_log (socks w i) \<and> (i \<noteq> sid \<longrightarrow> socks w' i = socks w i)"
proof (induction sid f ops t w rule: drain_apply_ack_messages.induct)
  case (1 sid f ops t w)
  obtain q w1 where sr: "sock_recv MMSG_SLOTS sid w = (q, w1)" by fastforce
  note fr = sock_recv_frame [OF sr]
  show ?case
  proof (cases "\<exists>pkts u t1. q = Inr pkts \<and> pkts \<noteq> [] \<and>
      drain_items f (length ops) (concat (map iter_all pkts)) t = (Inr u, t1)")
    case True
    then obtain pkts u t1 where c: "q = Inr pkts" "pkts \<noteq> []"
      "drain_items f (length ops) (concat (map iter_all pkts)) t = (Inr u, t1)" by blast
    have "drain_apply_ack_messages sid f ops t1 w1 = (r, t', w')"
      using "1.prems" sr c by (simp add: drain_apply_ack_messages.simps [of sid f ops t w])
    from "1.IH" [OF sr [symmetric] c(1,2) c(3) [symmetric] refl this] fr show ?thesis by simp
  next
    case False
    then have "w' = w1"
      using "1.prems" sr
      by (subst (asm) drain_apply_ack_messages.simps) (auto split: sum.splits prod.splits if_splits)
    with fr show ?thesis by simp
  qed
qed

lemma drain_items_keeps_seen:
  assumes "tracker_ok n t" "seen_at t i"
  shows "seen_at (snd (drain_items f m items t)) i \<and>
    status_at (snd (drain_items f m items t)) i = status_at t i"
  using assms
proof (induction f m items t rule: drain_items.induct)
  case (3 f m msg items t)
  show ?case
    using 3
    by (auto simp: tracker_ok_marks tracker_ok_mark_status seen_at_mark_status status_at_mark_status
        split: option.splits sum.splits)
qed simp_all

subsection \<open>Classification\<close>

definition classify_ack_for_op :: "RuleOp \<Rightarrow> NetlinkAckStatus option \<Rightarrow> RuleAckClass" where
  "classify_ack_for_op op status =
     (case status of
        None \<Rightarrow> AckOk
      | Some st \<Rightarrow>
          if is_add op \<and> st_errno st = EEXIST then EexistNoop
          else if \<not> is_add op \<and> (st_errno st = ENOENT \<or> st_errno st = ESRCH) then EnoentNoop
          else KernelErr)"

definition classify_wait_error :: "AckTracker \<Rightarrow> AckWaitError" where
  "classify_wait_error t =
     (let kind = (if tr_count_seq_mismatch t > 0 \<and> tr_count_non_ack t = 0 then WaitSeqMismatch
                  else if tr_count_non_ack t > 0 \<and> tr_count_seq_mismatch t = 0 then WaitNonAck
                  else WaitTimeout)
      in \<lparr>we_kind = kind, we_pending = tr_pending t, we_count_seq_mismatch = tr_count_seq_mismatch t,
          we_count_non_ack = tr_count_non_ack t\<rparr>)"

lemma classify_KernelErr_status: "classify_ack_for_op op status = KernelErr \<Longrightarrow> status \<noteq> None"
  by (auto simp: classify_ack_for_op_def split: option.splits)

subsection \<open>A batch that is acknowledged\<close>

text \<open>One message as the drain loop sees it, without the wire format and without the errors.\<close>

definition track_msg :: "u32 \<Rightarrow> usize \<Rightarrow> NetlinkMessageView \<Rightarrow> AckTracker \<Rightarrow> AckTracker" where
  "track_msg f n m t =
     (if nlmsg_type (nv_header m) \<noteq> word_of_int NLMSG_ERROR then mark_non_ack t
      else case seq_to_batch_index (nlmsg_seq (nv_header m)) f n of
             None \<Rightarrow> mark_seq_mismatch t
           | Some i \<Rightarrow> mark_status i (map_option ack_status (projr (parse_ack_error_info (nv_data m)))) t)"

definition ack_for :: "u32 \<Rightarrow> usize \<Rightarrow> NetlinkMessageView \<Rightarrow> usize \<Rightarrow> bool" where
  "ack_for f n m i \<longleftrightarrow>
     nlmsg_type (nv_header m) = word_of_int NLMSG_ERROR \<and>
     seq_to_batch_index (nlmsg_seq (nv_header m)) f n = Some i"

definition readable_msg :: "u32 \<Rightarrow> usize \<Rightarrow> NetlinkMessageView \<Rightarrow> bool" where
  "readable_msg f n m \<longleftrightarrow> (\<forall>i < n. ack_for f n m i \<longrightarrow> \<not> isl (parse_ack_error_info (nv_data m)))"

lemma drain_items_track:
  "list_all (readable_msg f n) msgs \<Longrightarrow>
     drain_items f n (map Inr msgs) t = (Inr (), fold (track_msg f n) msgs t)"
proof (induction msgs arbitrary: t)
  case (Cons m msgs)
  show ?case
  proof (cases "\<exists>i. ack_for f n m i")
    case True
    then obtain i where i: "nlmsg_type (nv_header m) = word_of_int NLMSG_ERROR"
      "seq_to_batch_index (nlmsg_seq (nv_header m)) f n = Some i" by (auto simp: ack_for_def)
    then have "i < n" by (simp add: seq_to_batch_index_iff)
    with Cons.prems i have "\<not> isl (parse_ack_error_info (nv_data m))"
      by (simp add: readable_msg_def ack_for_def)
    then obtain v where "parse_ack_error_info (nv_data m) = Inr v"
      by (cases "parse_ack_error_info (nv_data m)") auto
    with i Cons show ?thesis by (simp add: track_msg_def)
  next
    case False
    with Cons show ?thesis by (auto simp: track_msg_def ack_for_def split: option.splits)
  qed
qed simp

lemma track_msg_props:
  assumes "tracker_ok n t"
  shows "tracker_ok n (track_msg f n m t)"
    and "seen_at (track_msg f n m t) i \<longleftrightarrow> seen_at t i \<or> ack_for f n m i"
    and "status_at (track_msg f n m t) i =
      (if ack_for f n m i \<and> \<not> seen_at t i
       then map_option ack_status (projr (parse_ack_error_info (nv_data m))) else status_at t i)"
proof -
  have lt: "seq_to_batch_index (nlmsg_seq (nv_header m)) f n = Some j \<Longrightarrow> j < n" for j
    by (simp add: seq_to_batch_index_iff)
  show "tracker_ok n (track_msg f n m t)"
    using assms by (simp add: track_msg_def tracker_ok_marks tracker_ok_mark_status split: option.splits)
  show "seen_at (track_msg f n m t) i \<longleftrightarrow> seen_at t i \<or> ack_for f n m i"
    using assms lt by (auto simp: track_msg_def ack_for_def seen_at_mark_status split: option.splits)
  show "status_at (track_msg f n m t) i =
      (if ack_for f n m i \<and> \<not> seen_at t i
       then map_option ack_status (projr (parse_ack_error_info (nv_data m))) else status_at t i)"
    using assms lt by (auto simp: track_msg_def ack_for_def status_at_mark_status split: option.splits)
qed

text \<open>
  The interface of an acknowledgement tracker: a message answers at most the operations it hits, the
  first answer of an operation stays, and nothing is pending exactly when every operation has one.
\<close>

locale ack_tracking =
  fixes ok :: "usize \<Rightarrow> 't \<Rightarrow> bool"
    and pending :: "'t \<Rightarrow> usize"
    and seen :: "'t \<Rightarrow> usize \<Rightarrow> bool"
    and status :: "'t \<Rightarrow> usize \<Rightarrow> 's"
    and prepare :: "usize \<Rightarrow> 't \<Rightarrow> 't"
    and note_msg :: "usize \<Rightarrow> 'm \<Rightarrow> 't \<Rightarrow> 't"
    and hits :: "usize \<Rightarrow> 'm \<Rightarrow> usize \<Rightarrow> bool"
    and answer :: "'m \<Rightarrow> 's"
  assumes ok_prepare: "ok n (prepare n t)"
    and seen_prepare: "\<not> seen (prepare n t) i"
    and pending_zero: "ok n t \<Longrightarrow> pending t = 0 \<longleftrightarrow> (\<forall>i < n. seen t i)"
    and ok_note: "ok n t \<Longrightarrow> ok n (note_msg n m t)"
    and seen_note: "ok n t \<Longrightarrow> seen (note_msg n m t) i \<longleftrightarrow> seen t i \<or> hits n m i"
    and status_note: "ok n t \<Longrightarrow>
      status (note_msg n m t) i = (if hits n m i \<and> \<not> seen t i then answer m else status t i)"
begin

lemma ok_fold: "ok n t \<Longrightarrow> ok n (fold (note_msg n) ms t)"
  by (induction ms arbitrary: t) (simp_all add: ok_note)

lemma seen_fold: "ok n t \<Longrightarrow> seen (fold (note_msg n) ms t) i \<longleftrightarrow> seen t i \<or> list_ex (\<lambda>m. hits n m i) ms"
  by (induction ms arbitrary: t) (auto simp: ok_note seen_note)

lemma status_fold:
  "ok n t \<Longrightarrow> status (fold (note_msg n) ms t) i =
     (if seen t i then status t i
      else case find (\<lambda>m. hits n m i) ms of None \<Rightarrow> status t i | Some m \<Rightarrow> answer m)"
  by (induction ms arbitrary: t) (simp_all add: ok_note seen_note status_note split: option.split)

lemma finished_iff_all_answered:
  "pending (fold (note_msg n) ms (prepare n t)) = 0 \<longleftrightarrow> (\<forall>i < n. \<exists>m \<in> set ms. hits n m i)"
  using pending_zero [OF ok_fold [OF ok_prepare]] seen_fold [OF ok_prepare]
  by (simp add: seen_prepare list_ex_iff)

lemma first_answer_kept:
  "find (\<lambda>m. hits n m i) ms = Some m \<Longrightarrow> status (fold (note_msg n) ms (prepare n t)) i = answer m"
  using status_fold [OF ok_prepare] by (simp add: seen_prepare)

end

definition ack_answer :: "NetlinkMessageView \<Rightarrow> NetlinkAckStatus option" where
  "ack_answer m = map_option ack_status (projr (parse_ack_error_info (nv_data m)))"

interpretation tr: ack_tracking tracker_ok tr_pending seen_at status_at tracker_prepare
  "track_msg f" "ack_for f" ack_answer for f
proof
  show "\<not> seen_at (tracker_prepare n t) i" for n t i
    by (simp add: seen_at_def tracker_prepare_def vec_resize_def)
qed (simp_all add: tracker_ok_prepare tracker_pending_0 track_msg_props ack_answer_def)

lemma drain_acked:
  "rx_script (socks w sid) = map RecvOk bs \<Longrightarrow> list_all recv_batch bs \<Longrightarrow>
   list_all (list_all (readable_msg f (length ops)) \<circ> batch_views) bs \<Longrightarrow>
   drain_apply_ack_messages sid f ops t w =
     (Inr (), fold (track_msg f (length ops)) (concat (map batch_views bs)) t,
      upd_sock sid (\<lambda>s. s\<lparr>rx_script := []\<rparr>) w)"
proof (induction bs arbitrary: t w)
  case Nil
  have "upd_sock sid (\<lambda>s. s\<lparr>rx_script := []\<rparr>) w = w"
    using Nil by (simp add: upd_sock_def fun_upd_idem)
  moreover have "is_transient_recv_err eagain_error"
    by (simp add: is_transient_recv_err_def eagain_error_def os_error_matches_def)
  ultimately show ?case
    using Nil by (simp add: drain_apply_ack_messages.simps [of sid f ops t w] sock_recv_def)
next
  case (Cons b bs)
  let ?w = "upd_sock sid (\<lambda>s. s\<lparr>rx_script := map RecvOk bs\<rparr>) w"
  have b: "recv_batch b" "b \<noteq> []" using Cons.prems(2) by (simp_all add: recv_batch_def)
  have rd: "list_all (readable_msg f (length ops)) (batch_views b)" using Cons.prems(3) by simp
  have sr: "sock_recv MMSG_SLOTS sid w = (Inr b, ?w)"
    using sock_recv_batch [OF b(1)] Cons.prems(1) by simp
  have "upd_sock sid (\<lambda>s. s\<lparr>rx_script := []\<rparr>) ?w = upd_sock sid (\<lambda>s. s\<lparr>rx_script := []\<rparr>) w"
    "rx_script (socks ?w sid) = map RecvOk bs" by (simp_all add: upd_sock_def)
  with Cons.IH [of ?w] Cons.prems show ?case
    by (simp add: drain_apply_ack_messages.simps [of sid f ops t w] sr b(2)
        recv_batch_items [OF b(1)] drain_items_track [OF rd])
qed

subsection \<open>Properties of a batch\<close>

lemma start_apply_quiet:
  assumes "ops \<noteq> []" "tx_script (socks w sid) = []"
  shows "\<exists>sc w'. start_apply_rules_batch sid ctx ops scratch tracker w =
    (Inr (normalize_seq (seq_cell w)), sc, tracker_prepare (length ops) tracker, w')"
proof -
  let ?f = "normalize_seq (seq_cell w)"
  obtain w1 where "send_loop sid (batch_messages ctx ?f ops) (w\<lparr>seq_cell := seq_advance ?f (length ops)\<rparr>) = (Inr (), w1)"
    using send_loop_quiet [of "w\<lparr>seq_cell := seq_advance ?f (length ops)\<rparr>" sid] assms(2) by auto
  with start_apply_rules_batch_eq [OF assms(1), of sid ctx scratch tracker w] show ?thesis by auto
qed

text \<open>The acknowledgement the kernel sends for a request: the negated error number and the request's header.\<close>

definition kernel_ack :: "u32 \<Rightarrow> int \<Rightarrow> bytes" where
  "kernel_ack seq e =
     nlmsghdr_bytes \<lparr>nlmsg_len = 36, nlmsg_type = 2, nlmsg_flags = 0, nlmsg_seq = seq, nlmsg_pid = 0\<rparr> @
     le_bytes 4 (word_of_int (- e) :: u32) @ replicate 16 0"

lemma kernel_ack_frame:
  "nl_frame (kernel_ack seq e)" "length (kernel_ack seq e) = 36"
  "nv_header (frame_view (kernel_ack seq e)) =
     \<lparr>nlmsg_len = 36, nlmsg_type = 2, nlmsg_flags = 0, nlmsg_seq = seq, nlmsg_pid = 0\<rparr>"
  "nv_data (frame_view (kernel_ack seq e)) = le_bytes 4 (word_of_int (- e) :: u32) @ replicate 16 0"
  by (simp_all add: kernel_ack_def nl_frame_def frame_view_def)

lemma kernel_ack_for:
  "ack_for f n (frame_view (kernel_ack (seq_with_offset f i) e)) j \<longleftrightarrow>
     j < n \<and> j < U32_MAX \<and> seq_with_offset f i = seq_with_offset f j"
  by (simp add: ack_for_def kernel_ack_frame seq_to_batch_index_iff)

lemma kernel_ack_readable:
  assumes "0 \<le> e" "e < 2 ^ 31"
  shows "readable_msg f n (frame_view (kernel_ack seq e))"
  using parse_ack_errno_enc [OF assms, of "replicate 16 0"]
  by (simp add: readable_msg_def kernel_ack_frame parse_ack_error_info_cases Let_def)

lemma kernel_acks_batch:
  assumes "acks \<noteq> []" "length acks \<le> MMSG_SLOTS"
  shows "recv_batch (map (\<lambda>a. kernel_ack (fst a) (snd a)) acks)"
    "batch_views (map (\<lambda>a. kernel_ack (fst a) (snd a)) acks) = map (\<lambda>a. frame_view (kernel_ack (fst a) (snd a))) acks"
  using recv_batch_frames [of "map (\<lambda>a. [kernel_ack (fst a) (snd a)]) acks"] assms
  by (simp_all add: list_all_iff kernel_ack_frame comp_def concat_map_singleton)

text \<open>
  C16. A batch is sent whole or reported: when \<open>start_apply_rules_batch\<close> returns a first sequence
  number, the socket has received exactly the messages of all operations, in order and numbered from
  it, and the tracker waits for all of them; when it fails, at most a prefix has been sent and the
  tracker is untouched. Buffers left over from earlier batches never show up in what is sent.
\<close>

theorem batch_sent:
  assumes "ops \<noteq> []" "start_apply_rules_batch sid ctx ops scratch tracker w = (r, scratch', tracker', w')"
  shows "case r of
      Inr f \<Rightarrow> f = normalize_seq (seq_cell w) \<and>
        tx_log (socks w' sid) = tx_log (socks w sid) @ batch_messages ctx f ops \<and>
        tracker' = tracker_prepare (length ops) tracker
    | Inl e \<Rightarrow> \<exists>k \<le> length ops. tracker' = tracker \<and>
        tx_log (socks w' sid) = tx_log (socks w sid) @ take k (batch_messages ctx (normalize_seq (seq_cell w)) ops)"
proof -
  let ?f = "normalize_seq (seq_cell w)"
  let ?w = "w\<lparr>seq_cell := seq_advance ?f (length ops)\<rparr>"
  obtain q w1 where s: "send_loop sid (batch_messages ctx ?f ops) ?w = (q, w1)" by fastforce
  obtain k where k: "k \<le> length ops" "tx_log (socks w1 sid) = tx_log (socks w sid) @ take k (batch_messages ctx ?f ops)"
    "q = Inr () \<longrightarrow> k = length ops"
    using send_loop_log [OF s] by auto
  obtain sc where "(r, scratch', tracker', w') = (case q of
      Inl e \<Rightarrow> (Inl (AppError_from_io e), sc, tracker, w1)
    | Inr _ \<Rightarrow> (Inr ?f, sc, tracker_prepare (length ops) tracker, w1))"
    using start_apply_rules_batch_eq [OF assms(1), of sid ctx scratch tracker w] assms(2) s by auto
  with k show ?thesis by (cases q) auto
qed

theorem batch_sent_witness:
  "\<exists>r scratch' tracker' w'.
     start_apply_rules_batch RuleSock \<lparr>ctx_pref = 100, ctx_table_id = 200\<rparr> [\<lparr>op_addr = IpV4 0x0A000001, op_action = Add\<rparr>]
       ApplyScratch_default AckTracker_default quiet_world = (r, scratch', tracker', w') \<and>
     r = Inr 1 \<and> tx_log (socks w' RuleSock) =
       batch_messages \<lparr>ctx_pref = 100, ctx_table_id = 200\<rparr> 1 [\<lparr>op_addr = IpV4 0x0A000001, op_action = Add\<rparr>]"
proof -
  let ?ctx = "\<lparr>ctx_pref = 100, ctx_table_id = 200\<rparr>" and ?ops = "[\<lparr>op_addr = IpV4 0x0A000001, op_action = Add\<rparr>]"
  obtain r sc t w' where st: "start_apply_rules_batch RuleSock ?ctx ?ops
      ApplyScratch_default AckTracker_default quiet_world = (r, sc, t, w')" by (metis prod_cases4)
  have "r = Inr 1"
    using st start_apply_quiet [of ?ops quiet_world RuleSock ?ctx ApplyScratch_default AckTracker_default]
    by (auto simp: quiet_world_def normalize_seq_def)
  then show ?thesis
    using batch_sent [OF _ st] st by (auto simp: quiet_world_def)
qed

text \<open>
  Whatever arrives on the socket, the tracker stays exact: draining never loses or overwrites an
  answer that was recorded, and its pending count is always the number of operations without one.
\<close>

theorem drain_keeps_tracker:
  assumes "tracker_ok n t" "drain_apply_ack_messages sid first_seq ops t w = (r, t', w')"
  shows "tr_pending t' = card {i. i < n \<and> \<not> seen_at t' i} \<and>
    (\<forall>i. seen_at t i \<longrightarrow> seen_at t' i \<and> status_at t' i = status_at t i)"
proof -
  have ok: "tracker_ok n t'" using drain_apply_ack_messages_ok [OF assms(1)] assms(2) by (metis fst_conv snd_conv)
  have "tr_pending t' = card {i. i < n \<and> \<not> seen_at t' i}"
    using ok by (auto simp: tracker_ok_def seen_at_def length_filter_conv_card intro!: arg_cong [of _ _ card])
  moreover have "seen_at t' i \<and> status_at t' i = status_at t i" if "seen_at t i" for i
    using assms that
  proof (induction sid first_seq ops t w rule: drain_apply_ack_messages.induct)
    case (1 sid f ops t w)
    obtain q w1 where sr: "sock_recv MMSG_SLOTS sid w = (q, w1)" by fastforce
    show ?case
    proof (cases "\<exists>pkts. q = Inr pkts \<and> pkts \<noteq> []")
      case True
      then obtain pkts where p: "q = Inr pkts" "pkts \<noteq> []" by blast
      obtain q2 t1 where d: "drain_items f (length ops) (concat (map iter_all pkts)) t = (q2, t1)" by fastforce
      have keep: "seen_at t1 i \<and> status_at t1 i = status_at t i" "tracker_ok n t1"
        using drain_items_keeps_seen [OF "1.prems"(1,3), of f "length ops" "concat (map iter_all pkts)"]
          drain_items_ok [OF "1.prems"(1), of f "length ops" "concat (map iter_all pkts)"] d by simp_all
      show ?thesis
      proof (cases q2)
        case (Inl e)
        with "1.prems"(2) sr p d keep show ?thesis
          by (simp add: drain_apply_ack_messages.simps [of sid f ops t w])
      next
        case (Inr u)
        have "drain_apply_ack_messages sid f ops t1 w1 = (r, t', w')"
          using "1.prems"(2) sr p d Inr by (simp add: drain_apply_ack_messages.simps [of sid f ops t w])
        from "1.IH" [OF sr [symmetric] p d [symmetric] Inr keep(2) this] keep show ?thesis by simp
      qed
    next
      case False
      then have "t' = t"
        using "1.prems"(2) sr
        by (cases q) (auto simp: drain_apply_ack_messages.simps [of sid f ops t w] split: if_splits)
      with "1.prems"(3) show ?thesis by simp
    qed
  qed
  ultimately show ?thesis by blast
qed

theorem drain_keeps_tracker_witness:
  "tr_pending (fst (snd (drain_apply_ack_messages RuleSock 1 [] (tracker_prepare 2 AckTracker_default) quiet_world))) =
   card {i. i < (2 :: nat) \<and> \<not> seen_at
     (fst (snd (drain_apply_ack_messages RuleSock 1 [] (tracker_prepare 2 AckTracker_default) quiet_world))) i}"
  using drain_keeps_tracker [OF tracker_ok_prepare [of 2 AckTracker_default], of RuleSock 1 "[]" quiet_world]
  by (metis prod.collapse)

text \<open>
  A batch is finished exactly when it is answered: draining a queue of well-formed packets, in
  whatever order and mixture the answers come, leaves nothing pending if and only if every operation
  has an answer among the messages, and each operation keeps the first answer to it.
\<close>

theorem batch_finished_iff_answered:
  assumes "rx_script (socks w sid) = map RecvOk bs" "list_all recv_batch bs"
    "list_all (list_all (readable_msg f (length ops)) \<circ> batch_views) bs"
    "drain_apply_ack_messages sid f ops (tracker_prepare (length ops) t) w = (r, t', w')"
  shows "r = Inr () \<and>
    (tr_pending t' = 0 \<longleftrightarrow> (\<forall>i < length ops. \<exists>m \<in> set (concat (map batch_views bs)). ack_for f (length ops) m i)) \<and>
    (\<forall>i m. find (\<lambda>m. ack_for f (length ops) m i) (concat (map batch_views bs)) = Some m \<longrightarrow>
       status_at t' i = ack_answer m)"
  using assms(4) unfolding drain_acked [OF assms(1-3)]
  by (auto simp: tr.finished_iff_all_answered tr.first_answer_kept)

theorem batch_finished_iff_answered_witness:
  "tr_pending (fst (snd (drain_apply_ack_messages RuleSock 1 [\<lparr>op_addr = IpV4 1, op_action = Add\<rparr>]
     (tracker_prepare 1 AckTracker_default)
     (upd_sock RuleSock (\<lambda>s. s\<lparr>rx_script := [RecvOk [kernel_ack 1 0]]\<rparr>) quiet_world)))) = 0"
proof -
  let ?ops = "[\<lparr>op_addr = IpV4 1, op_action = Add\<rparr>]"
  let ?w = "upd_sock RuleSock (\<lambda>s. s\<lparr>rx_script := [RecvOk [kernel_ack 1 0]]\<rparr>) quiet_world"
  have seq: "seq_with_offset 1 0 = 1" by (simp add: seq_with_offset_def seq_advance_def normalize_seq_def)
  obtain r t' w' where d: "drain_apply_ack_messages RuleSock 1 ?ops
      (tracker_prepare (length ?ops) AckTracker_default) ?w = (r, t', w')" by (metis prod_cases3)
  have b: "recv_batch [kernel_ack 1 0]" "batch_views [kernel_ack 1 0] = [frame_view (kernel_ack 1 0)]"
    using kernel_acks_batch [of "[(1, 0)]"] by simp_all
  have rx: "rx_script (socks ?w RuleSock) = map RecvOk [[kernel_ack 1 0]]" by (simp add: upd_sock_def)
  have "ack_for 1 1 (frame_view (kernel_ack 1 0)) 0" using kernel_ack_for [of 1 1 0 0 0] seq by simp
  with batch_finished_iff_answered [OF rx _ _ d] d b kernel_ack_readable [of 0 1 1 1] show ?thesis by simp
qed

end
