(* ===== verification/Cleanup.thy ===== *)
theory Cleanup
  imports Rule
begin

text \<open>
  \<^verbatim>\<open>src/netlink/cleanup.rs\<close>: finding the daemon's own rules in a rule dump.

  \<open>parse_cleanup_rule_addr\<close> decides which rules a cleanup may delete. It is characterised exactly on
  messages as the kernel lays them out (a header structure and a list of attributes), and it is
  shown to recognise every rule the daemon itself requests.
\<close>

unbundle bit_operations_syntax

definition build_rule_dump_message :: "int \<Rightarrow> u32 \<Rightarrow> bytes" where
  "build_rule_dump_message family seq =
     (let rtm = zero_RtMsg\<lparr>rtm_family := word_of_int family\<rparr>
      in build_netlink_request RTM_GETRULE (NLM_F_REQUEST OR NLM_F_DUMP) seq (RtMsg_bytes rtm))"

subsection \<open>Recognising a rule\<close>

record rule_scan =
  sc_table_id :: u32
  sc_pref :: u32
  sc_has_pref :: bool
  sc_dst :: "RawAddrBuf option"

definition cleanup_attr_cb :: "rule_scan nla_cb" where
  "cleanup_attr_cb ty value s =
     (if ty = FRA_ATTR_PRIORITY \<and> length value \<ge> 4
      then (Inr (), s\<lparr>sc_pref := of_le_bytes (slice 0 4 value), sc_has_pref := True\<rparr>)
      else if ty = FRA_ATTR_TABLE \<and> length value \<ge> 4
      then (Inr (), s\<lparr>sc_table_id := of_le_bytes (slice 0 4 value)\<rparr>)
      else if ty = FRA_ATTR_DST then
        (case RawAddrBuf_from_slice value ''rule dump invalid FRA_DST length'' of
           Inl e \<Rightarrow> (Inl e, s)
         | Inr b \<Rightarrow> (Inr (), s\<lparr>sc_dst := Some b\<rparr>))
      else (Inr (), s))"

definition parse_cleanup_rule_addr ::
  "NetlinkMessageView \<Rightarrow> RuleContext \<Rightarrow> int \<Rightarrow> (AppError, IpAddr option) res" where
  "parse_cleanup_rule_addr msg rule_ctx family =
     (if length (nv_data msg) < RTMSG_SIZE then Inr None
      else
        let rtm = read_RtMsg (nv_data msg) in
        if uint (rtm_family rtm) \<noteq> family then Inr None
        else if family = AF_INET \<and> rtm_dst_len rtm \<noteq> 32 then Inr None
        else if family = AF_INET6 \<and> rtm_dst_len rtm \<noteq> 128 then Inr None
        else
          case parse_nlas cleanup_attr_cb (drop RTMSG_SIZE (nv_data msg))
                 \<lparr>sc_table_id = ucast (rtm_table rtm), sc_pref = 0, sc_has_pref = False, sc_dst = None\<rparr> of
            (Inl e, _) \<Rightarrow> Inl e
          | (Inr _, s) \<Rightarrow>
              (case sc_dst s of
                 None \<Rightarrow> Inr None
               | Some dst \<Rightarrow>
                   if \<not> sc_has_pref s \<or> sc_pref s \<noteq> ctx_pref rule_ctx \<or>
                      sc_table_id s \<noteq> ctx_table_id rule_ctx
                   then Inr None
                   else Inr (addr_from_netlink (rtm_family rtm) (RawAddrBuf_as_slice dst))))"

subsection \<open>Streaming the targets of a family\<close>

datatype CleanupDumpPoll = CleanupPending | CleanupDone

text \<open>The scratch's \<open>seen\<close> set is the first component of the closure's state.\<close>

definition begin_family :: "IpAddr set \<Rightarrow> IpAddr set" where
  "begin_family seen = {}"

definition start_cleanup_dump_family ::
  "SockId \<Rightarrow> int \<Rightarrow> u32 \<Rightarrow> IpAddr set \<Rightarrow> world \<Rightarrow> (AppError + unit) \<times> IpAddr set \<times> world" where
  "start_cleanup_dump_family sid family seq seen w =
     (case sock_send sid (build_rule_dump_message family seq) w of
        (Inl e, w') \<Rightarrow> (Inl (AppError_from_io e), seen, w')
      | (Inr _, w') \<Rightarrow> (Inr (), begin_family seen, w'))"

definition cleanup_cb ::
  "RuleContext \<Rightarrow> int \<Rightarrow> (RuleOp \<Rightarrow> 's \<Rightarrow> (AppError + unit) \<times> 's) \<Rightarrow> (IpAddr set \<times> 's) dump_cb" where
  "cleanup_cb rule_ctx family on_target msg st =
     (if uint (nlmsg_type (nv_header msg)) \<noteq> uint RTM_NEWRULE then (Inr (), st)
      else
        case parse_cleanup_rule_addr msg rule_ctx family of
          Inl e \<Rightarrow> (Inl e, st)
        | Inr None \<Rightarrow> (Inr (), st)
        | Inr (Some addr) \<Rightarrow>
            if addr \<in> fst st then (Inr (), st)
            else
              (case on_target \<lparr>op_addr = addr, op_action = Delete\<rparr> (snd st) of
                 (r, s') \<Rightarrow> (r, (insert addr (fst st), s'))))"

definition poll_cleanup_targets_stream_with_scratch ::
  "SockId \<Rightarrow> RuleContext \<Rightarrow> int \<Rightarrow> u32 \<Rightarrow> (RuleOp \<Rightarrow> 's \<Rightarrow> (AppError + unit) \<times> 's) \<Rightarrow>
     world \<times> IpAddr set \<times> 's \<Rightarrow> (AppError + CleanupDumpPoll) \<times> (world \<times> IpAddr set \<times> 's)" where
  "poll_cleanup_targets_stream_with_scratch sid rule_ctx family seq on_target st =
     (case recv_step sid seq (pure_cb (cleanup_cb rule_ctx family on_target)) st of
        (Inl e, st') \<Rightarrow> (Inl e, st')
      | (Inr DumpDone, st') \<Rightarrow> (Inr CleanupDone, st')
      | (Inr _, st') \<Rightarrow> (Inr CleanupPending, st'))"

text \<open>
  The blocking variant. Its \<open>on_target\<close> may send and receive on the same socket while the dump is
  being read, so its state includes the world; the counter is the number of targets handed over.
\<close>

definition cleanup_io_cb ::
  "RuleContext \<Rightarrow> int \<Rightarrow> (RuleOp \<Rightarrow> world \<times> 's \<Rightarrow> (AppError + unit) \<times> (world \<times> 's)) \<Rightarrow>
     (world \<times> IpAddr set \<times> nat \<times> 's) dump_cb" where
  "cleanup_io_cb rule_ctx family on_target msg st =
     (case st of (w, seen, count, s) \<Rightarrow>
        (case cleanup_cb rule_ctx family
                (\<lambda>op (w, count, s).
                   case on_target op (w, s) of
                     (Inl e, (w', s')) \<Rightarrow> (Inl e, (w', count, s'))
                   | (Inr _, (w', s')) \<Rightarrow> (Inr (), (w', count + 1, s')))
                msg (seen, w, count, s) of
           (r, (seen', w', count', s')) \<Rightarrow> (r, (w', seen', count', s'))))"

definition dump_cleanup_targets_stream_with_scratch ::
  "SockId \<Rightarrow> RuleContext \<Rightarrow> int \<Rightarrow> (RuleOp \<Rightarrow> world \<times> 's \<Rightarrow> (AppError + unit) \<times> (world \<times> 's)) \<Rightarrow>
     world \<times> IpAddr set \<times> 's \<Rightarrow> ((AppError + nat) \<times> (world \<times> IpAddr set \<times> 's)) option" where
  "dump_cleanup_targets_stream_with_scratch sid rule_ctx family on_target st =
     (case st of (w, seen, s) \<Rightarrow>
        let (seq, cell) = next_seq (seq_cell w); w = w\<lparr>seq_cell := cell\<rparr> in
        (case start_cleanup_dump_family sid family seq seen w of
           (Inl e, seen', w') \<Rightarrow> Some (Inl e, (w', seen', s))
         | (Inr _, seen', w') \<Rightarrow>
             (case recv_until_done_io sid seq (cleanup_io_cb rule_ctx family on_target) (w', seen', 0, s) of
                None \<Rightarrow> None
              | Some (Inl e, (w'', seen'', count, s'')) \<Rightarrow> Some (Inl e, (w'', seen'', s''))
              | Some (Inr _, (w'', seen'', count, s'')) \<Rightarrow> Some (Inr count, (w'', seen'', s'')))))"


subsection \<open>Which rules are recognised\<close>

definition dst_attrs_ok :: "(u16 \<times> bytes) list \<Rightarrow> bool" where
  "dst_attrs_ok as \<longleftrightarrow> list_all (\<lambda>(t, v). t = FRA_ATTR_DST \<longrightarrow> 0 < length v \<and> length v \<le> 16) as"

definition scan_view :: "rule_scan \<Rightarrow> u32 \<times> u32 option \<times> bytes option" where
  "scan_view s =
     (sc_table_id s, (if sc_has_pref s then Some (sc_pref s) else None), map_option RawAddrBuf_as_slice (sc_dst s))"

lemma run_cleanup_attrs:
  "(case run_nlas cleanup_attr_cb as s of
      (Inl e, _) \<Rightarrow> \<not> dst_attrs_ok as
    | (Inr _, s') \<Rightarrow>
        dst_attrs_ok as \<and>
        scan_view s' =
          (the (last_u32 FRA_ATTR_TABLE as (Some (fst (scan_view s)))),
           last_u32 FRA_ATTR_PRIORITY as (fst (snd (scan_view s))),
           last_raw FRA_ATTR_DST as (snd (snd (scan_view s)))))"
proof (induction as arbitrary: s)
  case Nil
  show ?case by (simp add: dst_attrs_ok_def)
next
  case (Cons a as)
  obtain t v where a: "a = (t, v)" by fastforce
  show ?case
  proof (cases "t = FRA_ATTR_DST")
    case dst: True
    show ?thesis
    proof (cases "RawAddrBuf_from_slice v ''rule dump invalid FRA_DST length''")
      case (Inl e)
      then show ?thesis
        using dst a by (auto simp: cleanup_attr_cb_def dst_attrs_ok_def RawAddrBuf_from_slice_def split: if_splits)
    next
      case (Inr b)
      have "RawAddrBuf_as_slice b = v" "0 < length v" "length v \<le> 16"
        using RawAddrBuf_roundtrip [OF Inr] Inr by (simp_all add: RawAddrBuf_from_slice_Inr)
      then show ?thesis
        using Cons.IH [of "s\<lparr>sc_dst := Some b\<rparr>"] Inr dst a
        by (auto simp: cleanup_attr_cb_def dst_attrs_ok_def scan_view_def split: prod.splits sum.splits)
    qed
  next
    case ndst: False
    define s' where "s' = snd (cleanup_attr_cb t v s)"
    have s': "cleanup_attr_cb t v s = (Inr (), s')"
      "scan_view s' =
        ((if t = FRA_ATTR_TABLE \<and> 4 \<le> length v then of_le_bytes (take 4 v) else fst (scan_view s)),
         (if t = FRA_ATTR_PRIORITY \<and> 4 \<le> length v then Some (of_le_bytes (take 4 v)) else fst (snd (scan_view s))),
         snd (snd (scan_view s)))"
      using ndst by (simp_all add: s'_def cleanup_attr_cb_def scan_view_def slice_def)
    show ?thesis
      using Cons.IH [of s'] ndst a s'
      by (auto simp: dst_attrs_ok_def if_distrib split: prod.splits sum.splits)
  qed
qed

definition full_prefix :: "int \<Rightarrow> u8 \<Rightarrow> bool" where
  "full_prefix family len \<longleftrightarrow>
     (family = AF_INET \<longrightarrow> len = 32) \<and> (family = AF_INET6 \<longrightarrow> len = 128)"

definition rule_selected :: "RuleContext \<Rightarrow> int \<Rightarrow> RtMsg \<Rightarrow> (u16 \<times> bytes) list \<Rightarrow> IpAddr \<Rightarrow> bool" where
  "rule_selected ctx family rtm as a \<longleftrightarrow>
     uint (rtm_family rtm) = family \<and> full_prefix family (rtm_dst_len rtm) \<and> dst_attrs_ok as \<and>
     last_u32 FRA_ATTR_PRIORITY as None = Some (ctx_pref ctx) \<and>
     last_u32 FRA_ATTR_TABLE as (Some (ucast (rtm_table rtm))) = Some (ctx_table_id ctx) \<and>
     (case last_raw FRA_ATTR_DST as None of
        None \<Rightarrow> False | Some raw \<Rightarrow> addr_from_netlink (rtm_family rtm) raw = Some a)"

lemma parse_cleanup_rule_addr_iff:
  assumes "nv_data msg = RtMsg_bytes rtm @ enc_nlas as" "list_all nla_fits as"
  shows "parse_cleanup_rule_addr msg ctx family = Inr (Some a) \<longleftrightarrow> rule_selected ctx family rtm as a"
proof -
  let ?s = "\<lparr>sc_table_id = ucast (rtm_table rtm), sc_pref = 0, sc_has_pref = False, sc_dst = None\<rparr>"
  have rd: "read_RtMsg (nv_data msg) = rtm" "drop 12 (nv_data msg) = enc_nlas as"
    "\<not> length (nv_data msg) < 12" using assms(1) by simp_all
  obtain r s' where run: "run_nlas cleanup_attr_cb as ?s = (r, s')" by fastforce
  obtain y where y: "last_u32 FRA_ATTR_TABLE as (Some (ucast (rtm_table rtm))) = Some y"
    using last_u32_Some by blast
  have "scan_view ?s = (ucast (rtm_table rtm), None, None)" by (simp add: scan_view_def)
  with run_cleanup_attrs [of as ?s, unfolded run prod.case] y
  have r: "case r of Inl e \<Rightarrow> \<not> dst_attrs_ok as
     | Inr _ \<Rightarrow> dst_attrs_ok as \<and> scan_view s' =
         (y, last_u32 FRA_ATTR_PRIORITY as None, last_raw FRA_ATTR_DST as None)"
    by (cases r) simp_all
  show ?thesis
    using r y
    unfolding parse_cleanup_rule_addr_def Let_def rd parse_nlas_enc_nlas [OF assms(2)] run
      rule_selected_def full_prefix_def
    by (cases r; cases "sc_dst s'") (auto simp: rd(3) scan_view_def split: if_splits option.splits)
qed

lemma parse_cleanup_own_rule:
  assumes "nv_data msg = rule_body ctx a"
  shows "parse_cleanup_rule_addr msg ctx' family = Inr (Some b) \<longleftrightarrow>
    a = b \<and> family = addr_family a \<and> ctx_pref ctx' = ctx_pref ctx \<and> ctx_table_id ctx' = ctx_table_id ctx"
proof -
  have fits: "list_all nla_fits (rule_attrs ctx a)"
    by (cases a) (simp_all add: rule_attrs_def nla_fits_def ipv4_octets_def ipv6_octets_def)
  have dst: "dst_attrs_ok (rule_attrs ctx a)"
    by (cases a) (simp_all add: rule_attrs_def dst_attrs_ok_def ipv4_octets_def ipv6_octets_def
        flip: length_greater_0_conv)
  have fam: "uint (rtm_family (rule_rtm ctx a)) = addr_family a"
    "full_prefix (addr_family a) (rtm_dst_len (rule_rtm ctx a))"
    by (cases a; simp add: rule_rtm_def zero_RtMsg_def full_prefix_def)+
  have "addr_from_netlink (rtm_family (rule_rtm ctx a)) (addr_octets a) = Some a"
    by (simp add: rule_rtm_def zero_RtMsg_def)
  then show ?thesis
    using dst fam
    by (subst parse_cleanup_rule_addr_iff [OF _ fits, of msg "rule_rtm ctx a"])
      (auto simp: assms rule_body_def rule_selected_def rule_attrs_def)
qed

text \<open>
  C11. A cleanup deletes exactly the daemon's own rules: on a rule message as the kernel lays it out,
  the parser returns an address if and only if the rule has the requested family, a full-length
  destination prefix, the configured priority and table (the table attribute taking precedence over
  the 8-bit header field) and that destination.
\<close>

theorem cleanup_selects_exactly:
  assumes "nv_data msg = RtMsg_bytes rtm @ enc_nlas as" "list_all nla_fits as"
  shows "parse_cleanup_rule_addr msg ctx family = Inr (Some a) \<longleftrightarrow> rule_selected ctx family rtm as a"
  using assms by (rule parse_cleanup_rule_addr_iff)

theorem cleanup_selects_exactly_witness:
  "parse_cleanup_rule_addr
     \<lparr>nv_header = \<lparr>nlmsg_len = 0, nlmsg_type = RTM_NEWRULE, nlmsg_flags = 0, nlmsg_seq = 1, nlmsg_pid = 0\<rparr>,
      nv_data = RtMsg_bytes (zero_RtMsg\<lparr>rtm_family := 2, rtm_dst_len := 32, rtm_table := 7\<rparr>) @
        enc_nlas [(FRA_ATTR_DST, [10, 0, 0, 1]), (FRA_ATTR_PRIORITY, [100, 0, 0, 0])]\<rparr>
     \<lparr>ctx_pref = 100, ctx_table_id = 7\<rparr> AF_INET = Inr (Some (IpV4 0x0A000001))"
proof -
  let ?rtm = "zero_RtMsg\<lparr>rtm_family := 2, rtm_dst_len := 32, rtm_table := 7\<rparr>"
  let ?as = "[(FRA_ATTR_DST, [10, 0, 0, 1]), (FRA_ATTR_PRIORITY, [100, 0, 0, 0 :: u8])]"
  let ?msg = "\<lparr>nv_header = \<lparr>nlmsg_len = 0, nlmsg_type = RTM_NEWRULE, nlmsg_flags = 0, nlmsg_seq = 1, nlmsg_pid = 0\<rparr>,
      nv_data = RtMsg_bytes ?rtm @ enc_nlas ?as\<rparr>"
  have "rule_selected \<lparr>ctx_pref = 100, ctx_table_id = 7\<rparr> AF_INET ?rtm ?as (IpV4 0x0A000001)"
    by (simp add: rule_selected_def zero_RtMsg_def full_prefix_def dst_attrs_ok_def addr_from_netlink_def
        ipv4_new_def of_be_bytes_def)
  then show ?thesis
    using cleanup_selects_exactly [of ?msg ?rtm ?as] by (simp add: nla_fits_def)
qed

text \<open>
  C12. Every rule the daemon requests is recognised by its own cleanup, and only under the same
  priority and table: the message built for an operation is one well-formed netlink message, and
  parsing its body gives the operation's address back.
\<close>

theorem own_rules_recognised:
  "\<exists>m v. build_rule_message_into [] ctx op seq = Inr m \<and> iter_all m = [Inr v] \<and>
     nlmsg_seq (nv_header v) = seq \<and>
     (\<forall>ctx' family b. parse_cleanup_rule_addr v ctx' family = Inr (Some b) \<longleftrightarrow>
        b = op_addr op \<and> family = addr_family b \<and> ctx_pref ctx' = ctx_pref ctx \<and> ctx_table_id ctx' = ctx_table_id ctx)"
proof -
  let ?m = "rule_message ctx op seq" and ?v = "frame_view (rule_message ctx op seq)"
  have "iter_all ?m = [Inr ?v]" using iter_all_frame [OF rule_message_frame(1), of ctx op seq "[]"] by simp
  moreover have "nv_data ?v = rule_body ctx (op_addr op)" "nlmsg_seq (nv_header ?v) = seq"
    by (simp_all add: rule_message_frame(2) rule_header_def)
  ultimately show ?thesis
    using parse_cleanup_own_rule [of ?v ctx "op_addr op"]
    by (intro exI [of _ ?m] exI [of _ ?v]) (auto simp: build_rule_message_into_eq)
qed

end
