(* ===== verification/Resync_Plan.thy ===== *)
theory Resync_Plan
  imports Rule
begin

text \<open>
  The planning functions of \<^verbatim>\<open>src/daemon/service/resync_cleanup.rs\<close>: the sorted merge that turns the
  addresses of the interfaces and the addresses with an installed rule into add and delete
  operations, cut into chunks, and the chunks of a tracked cleanup.

  Each while loop is a function on the same indices and the same output vector. The abstract
  specification \<open>diff_ops\<close> lists all operations of a plan; a chunk is a prefix of what is left of it.
  The locale \<open>chunk_source\<close> is the contract the maintenance job relies on, interpreted for both
  kinds of plan.
\<close>

abbreviation (input) add_op :: "IpKey \<Rightarrow> RuleOp" where
  "add_op k \<equiv> \<lparr>op_addr = into_ip k, op_action = Add\<rparr>"
abbreviation (input) del_op :: "IpKey \<Rightarrow> RuleOp" where
  "del_op k \<equiv> \<lparr>op_addr = into_ip k, op_action = Delete\<rparr>"

subsection \<open>The code's loops\<close>

function merge_loop ::
  "IpKey list \<Rightarrow> IpKey list \<Rightarrow> usize \<Rightarrow> usize \<times> usize \<times> RuleOp list \<Rightarrow> usize \<times> usize \<times> RuleOp list" where
  "merge_loop target current max_ops (ti, ci, out) =
     (if length out < max_ops \<and> ti < length target \<and> ci < length current then
        let target_key = target ! ti; current_key = current ! ci in
        if target_key < current_key
        then merge_loop target current max_ops (ti + 1, ci, out @ [add_op target_key])
        else if target_key > current_key
        then merge_loop target current max_ops (ti, ci + 1, out @ [del_op current_key])
        else merge_loop target current max_ops (ti + 1, ci + 1, out)
      else (ti, ci, out))"
  by pat_completeness auto
termination
  by (relation "measure (\<lambda>(target, current, m, ti, ci, out). (length target - ti) + (length current - ci))")
    auto

function tail_loop ::
  "(IpKey \<Rightarrow> RuleOp) \<Rightarrow> IpKey list \<Rightarrow> usize \<Rightarrow> usize \<times> RuleOp list \<Rightarrow> usize \<times> RuleOp list" where
  "tail_loop mk keys max_ops (i, out) =
     (if length out < max_ops \<and> i < length keys
      then tail_loop mk keys max_ops (i + 1, out @ [mk (keys ! i)])
      else (i, out))"
  by pat_completeness auto
termination
  by (relation "measure (\<lambda>(mk, keys, m, i, out). length keys - i)") auto

declare merge_loop.simps [simp del] tail_loop.simps [simp del]

definition fill_resync_chunk ::
  "IpKey list \<Rightarrow> IpKey list \<Rightarrow> usize \<Rightarrow> usize \<times> usize \<times> RuleOp list \<Rightarrow> usize \<times> usize \<times> RuleOp list" where
  "fill_resync_chunk target current max_ops st =
     (if max_ops = 0 then st
      else
        let (ti, ci, out) = merge_loop target current max_ops st;
            (ti, out) = tail_loop (\<lambda>k. add_op k) target max_ops (ti, out);
            (ci, out) = tail_loop (\<lambda>k. del_op k) current max_ops (ci, out)
        in (ti, ci, out))"

definition fill_tracked_cleanup_chunk ::
  "IpKey list \<Rightarrow> usize \<Rightarrow> usize \<times> RuleOp list \<Rightarrow> usize \<times> RuleOp list" where
  "fill_tracked_cleanup_chunk tracked max_ops st =
     (case st of (offset, out) \<Rightarrow>
        if max_ops = 0 \<or> offset \<ge> length tracked then (offset, out)
        else
          let e = min (offset + max_ops) (length tracked)
          in (e, out @ map (\<lambda>k. del_op k) (slice offset e tracked)))"

function next_family_loop :: "bool \<Rightarrow> usize \<Rightarrow> (usize \<times> int) option" where
  "next_family_loop ipv6_enabled idx =
     (let families = [AF_INET, AF_INET6] in
      if idx < length families then
        let family = families ! idx in
        if family = AF_INET6 \<and> \<not> ipv6_enabled then next_family_loop ipv6_enabled (idx + 1)
        else Some (idx, family)
      else None)"
  by pat_completeness auto
termination by (relation "measure (\<lambda>(b, idx). 2 - idx)") auto

declare next_family_loop.simps [simp del]

definition next_startup_cleanup_family :: "usize \<Rightarrow> bool \<Rightarrow> (usize \<times> int) option" where
  "next_startup_cleanup_family start_idx ipv6_enabled = next_family_loop ipv6_enabled start_idx"

lemma next_startup_cleanup_family_eq:
  "next_startup_cleanup_family i v6 =
     (if i = 0 then Some (0, AF_INET) else if i = 1 \<and> v6 then Some (1, AF_INET6) else None)"
proof -
  have out: "next_family_loop v6 k = None" if "2 \<le> k" for k v6
    using that by (subst next_family_loop.simps) simp
  show ?thesis
    unfolding next_startup_cleanup_family_def
    by (cases "2 \<le> i"; subst next_family_loop.simps)
      (auto simp: out less_Suc_eq numeral_2_eq_2)
qed

subsection \<open>The plan\<close>

fun diff_ops :: "IpKey list \<Rightarrow> IpKey list \<Rightarrow> RuleOp list" where
  "diff_ops [] cs = map (\<lambda>k. del_op k) cs"
| "diff_ops ts [] = map (\<lambda>k. add_op k) ts"
| "diff_ops (t # ts) (c # cs) =
     (if t < c then add_op t # diff_ops ts (c # cs)
      else if t > c then del_op c # diff_ops (t # ts) cs
      else diff_ops ts cs)"

lemma diff_ops_Nil2 [simp]: "diff_ops ts [] = map (\<lambda>k. add_op k) ts"
  by (cases ts) simp_all

lemma drop_nth: "i < length xs \<Longrightarrow> drop i xs = xs ! i # drop (Suc i) xs"
  by (rule Cons_nth_drop_Suc [symmetric])

lemma merge_loop_spec:
  assumes "merge_loop target current m (ti, ci, out) = (ti', ci', out')" "length out \<le> m"
  shows "(\<exists>ops. out' = out @ ops \<and>
      diff_ops (drop ti target) (drop ci current) = ops @ diff_ops (drop ti' target) (drop ci' current)) \<and>
    length out' \<le> m \<and>
    (length out' < m \<longrightarrow> \<not> (ti' < length target \<and> ci' < length current))"
  using assms
proof (induction target current m "(ti, ci, out)" arbitrary: ti ci out rule: merge_loop.induct)
  case (1 target current m ti ci out)
  show ?case
  proof (cases "length out < m \<and> ti < length target \<and> ci < length current")
    case False
    with "1.prems" show ?thesis by (auto simp: merge_loop.simps)
  next
    case True
    have d: "drop ti target = target ! ti # drop (Suc ti) target"
      "drop ci current = current ! ci # drop (Suc ci) current" using True by (simp_all add: drop_nth)
    consider "target ! ti < current ! ci" | "target ! ti > current ! ci" | "target ! ti = current ! ci"
      by (rule linorder_cases)
    then show ?thesis
    proof cases
      case 1
      have "merge_loop target current m (ti + 1, ci, out @ [add_op (target ! ti)]) = (ti', ci', out')"
        using "1.prems"(1) True 1 by (simp add: merge_loop.simps [of target current m ti ci out])
      from "1.hyps"(1) [OF True refl refl 1 this] True show ?thesis
        using 1 by (auto simp: d)
    next
      case 2
      then have n: "\<not> target ! ti < current ! ci" by simp
      have "merge_loop target current m (ti, ci + 1, out @ [del_op (current ! ci)]) = (ti', ci', out')"
        using "1.prems"(1) True 2 n by (simp add: merge_loop.simps [of target current m ti ci out])
      from "1.hyps"(2) [OF True refl refl n 2 this] True 2 n show ?thesis
        by (auto simp: d)
    next
      case 3
      have "merge_loop target current m (ti + 1, ci + 1, out) = (ti', ci', out')"
        using "1.prems"(1) True 3 by (simp add: merge_loop.simps [of target current m ti ci out])
      from "1.hyps"(3) [OF True refl refl _ _ this] True 3 show ?thesis
        by (auto simp: d)
    qed
  qed
qed

lemma tail_loop_spec:
  "length out \<le> m \<Longrightarrow>
     tail_loop mk keys m (i, out) =
       (i + min (m - length out) (length keys - i), out @ take (m - length out) (map mk (drop i keys)))"
proof (induction mk keys m "(i, out)" arbitrary: i out rule: tail_loop.induct)
  case (1 mk keys m i out)
  show ?case
  proof (cases "length out < m \<and> i < length keys")
    case False
    with "1.prems" show ?thesis by (auto simp: tail_loop.simps)
  next
    case True
    have "tail_loop mk keys m (i, out) = tail_loop mk keys m (i + 1, out @ [mk (keys ! i)])"
      using True by (simp add: tail_loop.simps [of mk keys m i])
    also have "\<dots> = (i + 1 + min (m - Suc (length out)) (length keys - Suc i),
        out @ mk (keys ! i) # take (m - Suc (length out)) (map mk (drop (Suc i) keys)))"
      using "1.hyps" [OF True] True by simp
    also have "mk (keys ! i) # take (m - Suc (length out)) (map mk (drop (Suc i) keys)) =
        take (m - length out) (map mk (drop i keys))"
      using True by (simp add: drop_nth take_Cons' Suc_diff_Suc)
    finally show ?thesis using True by (simp add: min_def) linarith
  qed
qed

lemma diff_ops_exhausted:
  "\<not> (ti < length target \<and> ci < length current) \<Longrightarrow>
     diff_ops (drop ti target) (drop ci current) =
       map (\<lambda>k. add_op k) (drop ti target) @ map (\<lambda>k. del_op k) (drop ci current)"
  by (cases "ti < length target") simp_all

lemma drop_add_min: "drop (i + min k (length xs - i)) xs = drop k (drop i xs)"
  by (simp add: min_def add.commute)

lemma fill_resync_chunk_spec:
  assumes "0 < m" "fill_resync_chunk target current m (ti, ci, []) = (ti', ci', out')"
  shows "out' = take m (diff_ops (drop ti target) (drop ci current))"
    and "diff_ops (drop ti' target) (drop ci' current) = drop m (diff_ops (drop ti target) (drop ci current))"
proof -
  let ?all = "diff_ops (drop ti target) (drop ci current)"
  obtain t1 c1 o1 where m1: "merge_loop target current m (ti, ci, []) = (t1, c1, o1)"
    by (metis prod_cases3)
  from merge_loop_spec [OF m1] have all: "?all = o1 @ diff_ops (drop t1 target) (drop c1 current)"
    and len: "length o1 \<le> m"
    and ex: "length o1 < m \<longrightarrow> \<not> (t1 < length target \<and> c1 < length current)" by auto
  let ?adds = "map (\<lambda>k. add_op k) (drop t1 target)" and ?dels = "map (\<lambda>k. del_op k) (drop c1 current)"
  let ?o2 = "o1 @ take (m - length o1) ?adds"
  have len2: "length ?o2 \<le> m" using len by simp
  have f: "ti' = t1 + min (m - length o1) (length target - t1)"
    "ci' = c1 + min (m - length ?o2) (length current - c1)"
    "out' = ?o2 @ take (m - length ?o2) ?dels"
    using assms m1 tail_loop_spec [OF len, of "\<lambda>k. add_op k" target t1]
      tail_loop_spec [OF len2, of "\<lambda>k. del_op k" current c1]
    by (auto simp: fill_resync_chunk_def Let_def)
  have "out' = take m ?all \<and> diff_ops (drop ti' target) (drop ci' current) = drop m ?all"
  proof (cases "length o1 = m")
    case True
    then show ?thesis using f all by simp
  next
    case False
    then have nx: "\<not> (t1 < length target \<and> c1 < length current)" using ex len by simp
    have all': "?all = o1 @ ?adds @ ?dels" using all diff_ops_exhausted [OF nx] by simp
    have "\<not> (ti' < length target \<and> ci' < length current)" using nx f(1,2) by auto
    from diff_ops_exhausted [OF this] have
      rest: "diff_ops (drop ti' target) (drop ci' current) =
        drop (m - length o1) ?adds @ drop (m - length ?o2) ?dels"
      unfolding f(1,2) drop_add_min by (simp only: drop_map)
    have "m - (length o1 + min (length target - t1) (m - length o1)) = m - (length o1 + (length target - t1))"
      by (simp add: min_def)
    then show ?thesis
      unfolding all' rest f(3) using len by simp
  qed
  then show "out' = take m ?all" "diff_ops (drop ti' target) (drop ci' current) = drop m ?all" by simp_all
qed

lemma fill_tracked_spec:
  assumes "0 < m" "fill_tracked_cleanup_chunk tracked m (i, []) = (i', out')"
  shows "out' = take m (map (\<lambda>k. del_op k) (drop i tracked))"
    and "map (\<lambda>k. del_op k) (drop i' tracked) = drop m (map (\<lambda>k. del_op k) (drop i tracked))"
  using assms
  by (auto simp: fill_tracked_cleanup_chunk_def slice_def take_map drop_map min_def add.commute
      split: if_splits)

subsection \<open>Plans cut into chunks\<close>

text \<open>
  The contract of a chunk producer: a call for \<open>m\<close> operations returns the next \<open>m\<close> of what remains
  (fewer only at the end) and advances past them.
\<close>

locale chunk_source =
  fixes remaining :: "'s \<Rightarrow> 'op list"
    and fill :: "usize \<Rightarrow> 's \<Rightarrow> 's \<times> 'op list"
  assumes fill_take: "0 < m \<Longrightarrow> snd (fill m s) = take m (remaining s)"
    and fill_drop: "0 < m \<Longrightarrow> remaining (fst (fill m s)) = drop m (remaining s)"
begin

primrec run_chunks :: "usize list \<Rightarrow> 's \<Rightarrow> 'op list list \<times> 's" where
  "run_chunks [] s = ([], s)"
| "run_chunks (m # ms) s =
     (let (cs, s') = run_chunks ms (fst (fill m s)) in (snd (fill m s) # cs, s'))"

lemma run_chunks_concat:
  "list_all (\<lambda>m. 0 < m) ms \<Longrightarrow>
     concat (fst (run_chunks ms s)) = take (sum_list ms) (remaining s) \<and>
     remaining (snd (run_chunks ms s)) = drop (sum_list ms) (remaining s)"
proof (induction ms arbitrary: s)
  case (Cons m ms)
  then show ?case
    using Cons.IH [of "fst (fill m s)"] fill_take [of m s] fill_drop [of m s]
    by (simp add: case_prod_beta Let_def take_add add.commute [of "sum_list ms" m])
qed simp

lemma chunk_empty_iff: "0 < m \<Longrightarrow> snd (fill m s) = [] \<longleftrightarrow> remaining s = []"
  by (simp add: fill_take)

lemma chunk_le: "0 < m \<Longrightarrow> length (snd (fill m s)) \<le> m"
  by (simp add: fill_take)

lemma run_chunks_complete:
  "list_all (\<lambda>m. 0 < m) ms \<Longrightarrow> length (remaining s) \<le> sum_list ms \<Longrightarrow>
     concat (fst (run_chunks ms s)) = remaining s \<and> remaining (snd (run_chunks ms s)) = []"
  using run_chunks_concat [of ms s] by simp

end

definition resync_fill ::
  "IpKey list \<Rightarrow> IpKey list \<Rightarrow> usize \<Rightarrow> usize \<times> usize \<Rightarrow> (usize \<times> usize) \<times> RuleOp list" where
  "resync_fill target current m s =
     (case fill_resync_chunk target current m (fst s, snd s, []) of (ti, ci, out) \<Rightarrow> ((ti, ci), out))"

definition tracked_fill :: "IpKey list \<Rightarrow> usize \<Rightarrow> usize \<Rightarrow> usize \<times> RuleOp list" where
  "tracked_fill tracked m i = fill_tracked_cleanup_chunk tracked m (i, [])"

definition resync_remaining :: "IpKey list \<Rightarrow> IpKey list \<Rightarrow> usize \<times> usize \<Rightarrow> RuleOp list" where
  "resync_remaining target current s = diff_ops (drop (fst s) target) (drop (snd s) current)"

definition tracked_remaining :: "IpKey list \<Rightarrow> usize \<Rightarrow> RuleOp list" where
  "tracked_remaining tracked i = map (\<lambda>k. del_op k) (drop i tracked)"

interpretation rs: chunk_source "resync_remaining target current" "resync_fill target current"
  for target current
proof
  fix m s assume "(0 :: nat) < m"
  then show "snd (resync_fill target current m s) = take m (resync_remaining target current s)"
    "resync_remaining target current (fst (resync_fill target current m s)) =
       drop m (resync_remaining target current s)"
    using fill_resync_chunk_spec [of m target current "fst s" "snd s"]
    by (cases "fill_resync_chunk target current m (fst s, snd s, [])";
        simp add: resync_fill_def resync_remaining_def)+
qed

interpretation tk: chunk_source "tracked_remaining tracked" "tracked_fill tracked"
  for tracked
proof
  fix m s assume "(0 :: nat) < m"
  then show "snd (tracked_fill tracked m s) = take m (tracked_remaining tracked s)"
    "tracked_remaining tracked (fst (tracked_fill tracked m s)) = drop m (tracked_remaining tracked s)"
    using fill_tracked_spec [of m tracked s]
    by (cases "fill_tracked_cleanup_chunk tracked m (s, [])";
        simp add: tracked_fill_def tracked_remaining_def)+
qed

subsection \<open>The plan is the set difference\<close>

definition op_key :: "RuleOp \<Rightarrow> IpKey" where
  "op_key op = from_ip (op_addr op)"

lemma diff_ops_set:
  "sorted_wrt (<) ts \<Longrightarrow> sorted_wrt (<) cs \<Longrightarrow>
     set (diff_ops ts cs) =
       (\<lambda>k. add_op k) ` (set ts - set cs) \<union> (\<lambda>k. del_op k) ` (set cs - set ts)"
proof (induction ts cs rule: diff_ops.induct)
  case (3 t ts c cs)
  have st: "sorted_wrt (<) ts" "sorted_wrt (<) cs" using "3.prems" by simp_all
  consider "t < c" | "c < t" | "t = c" by (rule linorder_cases)
  then show ?case
  proof cases
    case 1
    then have "t \<notin> set (c # cs)" using "3.prems"(2) by auto
    then have "set (t # ts) - set (c # cs) = insert t (set ts - set (c # cs))"
      "set (c # cs) - set (t # ts) = set (c # cs) - set ts" by auto
    moreover have "set (diff_ops (t # ts) (c # cs)) = insert (add_op t) (set (diff_ops ts (c # cs)))"
      using 1 by simp
    ultimately show ?thesis
      using "3.IH"(1) [OF 1 st(1) "3.prems"(2)] by (simp only: image_insert Un_insert_left)
  next
    case 2
    then have "c \<notin> set (t # ts)" and n: "\<not> t < c" using "3.prems"(1) by auto
    then have "set (c # cs) - set (t # ts) = insert c (set cs - set (t # ts))"
      "set (t # ts) - set (c # cs) = set (t # ts) - set cs" by auto
    moreover have "set (diff_ops (t # ts) (c # cs)) = insert (del_op c) (set (diff_ops (t # ts) cs))"
      using 2 n by simp
    ultimately show ?thesis
      using "3.IH"(2) [OF n 2 "3.prems"(1) st(2)] by (simp only: image_insert Un_insert_right)
  next
    case 3
    then have "c \<notin> set ts" "t \<notin> set cs" using "3.prems" by auto
    with 3 have "set (c # cs) - set (t # ts) = set cs - set ts" "set (t # ts) - set (c # cs) = set ts - set cs"
      by auto
    with "3.IH"(3) "3.prems" 3 show ?thesis by (simp del: set_simps(2))
  qed
qed simp_all

lemma op_key_ops [simp]: "op_key (add_op k) = k" "op_key (del_op k) = k"
  by (simp_all add: op_key_def)

lemma diff_ops_keys: "op_key ` set (diff_ops ts cs) \<subseteq> set ts \<union> set cs"
  by (induction ts cs rule: diff_ops.induct) (auto simp: image_subset_iff)

lemma diff_ops_strict:
  "sorted_wrt (<) ts \<Longrightarrow> sorted_wrt (<) cs \<Longrightarrow> sorted_wrt (<) (map op_key (diff_ops ts cs))"
proof (induction ts cs rule: diff_ops.induct)
  case (3 t ts c cs)
  consider "t < c" | "c < t" | "t = c" by (rule linorder_cases)
  then show ?case
  proof cases
    case 1
    have "\<forall>k \<in> set ts \<union> set (c # cs). t < k" using 1 "3.prems" by auto
    then have "\<forall>op \<in> set (diff_ops ts (c # cs)). t < op_key op"
      using diff_ops_keys [of ts "c # cs"] by blast
    with "3.IH"(1) "3.prems" 1 show ?thesis by simp
  next
    case 2
    have "\<forall>k \<in> set (t # ts) \<union> set cs. c < k" using 2 "3.prems" by auto
    then have "\<forall>op \<in> set (diff_ops (t # ts) cs). c < op_key op"
      using diff_ops_keys [of "t # ts" cs] by blast
    moreover have "\<not> t < c" using 2 by simp
    ultimately show ?thesis using "3.IH"(2) "3.prems" 2 by simp
  next
    case 3
    with "3.IH"(3) "3.prems" show ?thesis by simp
  qed
qed (simp_all add: comp_def)

subsection \<open>Properties of the plans\<close>

text \<open>The chunks a job takes from a plan, one call after the other with the given sizes.\<close>

fun resync_run :: "IpKey list \<Rightarrow> IpKey list \<Rightarrow> usize list \<Rightarrow> usize \<times> usize \<Rightarrow> RuleOp list list" where
  "resync_run target current [] st = []"
| "resync_run target current (m # ms) (ti, ci) =
     (case fill_resync_chunk target current m (ti, ci, []) of
        (ti', ci', chunk) \<Rightarrow> chunk # resync_run target current ms (ti', ci'))"

fun tracked_run :: "IpKey list \<Rightarrow> usize list \<Rightarrow> usize \<Rightarrow> RuleOp list list" where
  "tracked_run tracked [] off = []"
| "tracked_run tracked (m # ms) off =
     (case fill_tracked_cleanup_chunk tracked m (off, []) of
        (off', chunk) \<Rightarrow> chunk # tracked_run tracked ms off')"

lemma resync_run_chunks: "resync_run target current ms st = fst (rs.run_chunks target current ms st)"
proof (induction ms arbitrary: st)
  case (Cons m ms)
  obtain ti ci ti' ci' c where st: "st = (ti, ci)" and f: "fill_resync_chunk target current m (ti, ci, []) = (ti', ci', c)"
    by (metis prod_cases3 surj_pair)
  then have "resync_fill target current m st = ((ti', ci'), c)" by (simp add: resync_fill_def)
  with Cons st f show ?case by (simp add: rs.run_chunks.simps Let_def case_prod_beta)
qed (simp add: rs.run_chunks.simps)

lemma tracked_run_chunks: "tracked_run tracked ms off = fst (tk.run_chunks tracked ms off)"
proof (induction ms arbitrary: off)
  case (Cons m ms)
  obtain off' c where f: "fill_tracked_cleanup_chunk tracked m (off, []) = (off', c)" by fastforce
  then have "tracked_fill tracked m off = (off', c)" by (simp add: tracked_fill_def)
  with Cons f show ?case by (simp add: tk.run_chunks.simps Let_def case_prod_beta)
qed (simp add: tk.run_chunks.simps)

text \<open>
  C6. A resync applies exactly the difference: however the plan is cut into chunks, the operations of
  all chunks together add every address that an interface has and no rule covers, delete every rule
  whose address is gone, touch no other address and mention no address twice; no chunk is larger than
  asked for.
\<close>

theorem resync_chunks_are_difference:
  assumes "sorted_wrt (<) target" "sorted_wrt (<) current" "list_all (\<lambda>m. 0 < m) ms"
    "length target + length current \<le> sum_list ms"
  shows "let ops = concat (resync_run target current ms (0, 0)) in
    set ops = (\<lambda>k. add_op k) ` (set target - set current) \<union> (\<lambda>k. del_op k) ` (set current - set target) \<and>
    distinct (map op_key ops) \<and> list_all2 (\<lambda>chunk m. length chunk \<le> m) (resync_run target current ms (0, 0)) ms"
proof -
  have "length (diff_ops target current) \<le> length target + length current"
    by (induction target current rule: diff_ops.induct) auto
  then have "concat (resync_run target current ms (0, 0)) = diff_ops target current"
    using rs.run_chunks_complete [OF assms(3), of target current "(0, 0)"] assms(4)
    by (simp add: resync_run_chunks resync_remaining_def)
  moreover have "list_all2 (\<lambda>chunk m. length chunk \<le> m) (resync_run target current ms st) ms" for st
    using assms(3)
  proof (induction ms arbitrary: st)
    case (Cons m ms)
    obtain ti ci where st: "st = (ti, ci)" by fastforce
    have "length (snd (resync_fill target current m st)) \<le> m" using Cons.prems by (simp add: rs.chunk_le)
    with Cons st show ?case by (auto simp: resync_fill_def split: prod.splits)
  qed simp
  ultimately show ?thesis
    using diff_ops_set [OF assms(1,2)] diff_ops_strict [OF assms(1,2)] by (simp add: strict_sorted_iff Let_def)
qed

theorem resync_chunks_are_difference_witness:
  "set (concat (resync_run [V4 1, V4 2] [V4 2, V4 3] [1, 3] (0, 0))) = {add_op (V4 1), del_op (V4 3)}"
proof -
  have "set [V4 1, V4 2] - set [V4 2, V4 3] = {V4 1}" "set [V4 2, V4 3] - set [V4 1, V4 2] = {V4 3}" by auto
  with resync_chunks_are_difference [of "[V4 1, V4 2]" "[V4 2, V4 3]" "[1, 3]"]
  have "set (concat (resync_run [V4 1, V4 2] [V4 2, V4 3] [1, 3] (0, 0))) =
      (\<lambda>k. add_op k) ` {V4 1} \<union> (\<lambda>k. del_op k) ` {V4 3}"
    by (simp add: Let_def del: resync_run.simps set_concat)
  then show ?thesis by (simp add: insert_commute del: resync_run.simps set_concat)
qed

text \<open>
  A tracked cleanup deletes every tracked address exactly once: cut into chunks in any way, its
  operations are the deletions of the tracked addresses, in order.
\<close>

theorem tracked_chunks_delete_all:
  assumes "list_all (\<lambda>m. 0 < m) ms" "length tracked \<le> sum_list ms"
  shows "concat (tracked_run tracked ms 0) = map (\<lambda>k. del_op k) tracked"
  using tk.run_chunks_complete [OF assms(1), of tracked 0] assms(2)
  by (simp add: tracked_run_chunks tracked_remaining_def)

theorem tracked_chunks_delete_all_witness:
  "concat (tracked_run [V4 5, V6 6, V4 7] [2, 2] 0) = map (\<lambda>k. del_op k) [V4 5, V6 6, V4 7]"
  using tracked_chunks_delete_all [of "[2, 2]" "[V4 5, V6 6, V4 7]"] by simp

end
