(* ===== verification/Net_Parse.thy ===== *)
theory Net_Parse
  imports Rust_Str Ip
begin

text \<open>
  The conversions between text and values of the standard library that the program uses:
  \<open>str::parse\<close> for decimal integers, \<open>IpAddr::from_str\<close> with the reader functions it is built from, the
  \<open>Display\<close> of addresses, and the splitting functions of \<open>str\<close>.

  A reader of the address parser takes the remaining text and gives a value with the text after it,
  or nothing; a reader that fails leaves the text as it was, as \<open>read_atomically\<close> does.
\<close>

subsection \<open>Integers\<close>

definition to_digit :: "nat \<Rightarrow> char \<Rightarrow> nat option" where
  "to_digit radix c =
     (let n = of_char c :: nat;
          d = (if 48 \<le> n \<and> n \<le> 57 then Some (n - 48)
               else if 97 \<le> n \<and> n \<le> 122 then Some (n - 87)
               else if 65 \<le> n \<and> n \<le> 90 then Some (n - 55) else None)
      in case d of Some v \<Rightarrow> if v < radix then Some v else None | None \<Rightarrow> None)"

fun digits_val :: "nat \<Rightarrow> nat \<Rightarrow> string \<Rightarrow> nat option" where
  "digits_val radix acc [] = Some acc"
| "digits_val radix acc (c # cs) =
     (case to_digit radix c of None \<Rightarrow> None | Some d \<Rightarrow> digits_val radix (acc * radix + d) cs)"

text \<open>
  \<open>from_str_radix\<close> of an unsigned type with the given number of values (\<open>parse\<close> has radix 10), and
  \<open>parse\<close> of \<open>i64\<close>.
\<close>

definition parse_radix :: "nat \<Rightarrow> nat \<Rightarrow> string \<Rightarrow> nat option" where
  "parse_radix radix bound s =
     (let d = (if starts_with s ''+'' then tl s else s) in
      if d = [] then None
      else case digits_val radix 0 d of Some n \<Rightarrow> if n < bound then Some n else None | None \<Rightarrow> None)"

abbreviation parse_unsigned :: "nat \<Rightarrow> string \<Rightarrow> nat option" where
  "parse_unsigned \<equiv> parse_radix 10"

text \<open>\<open>parse\<close> of a signed type whose largest value is \<open>bound - 1\<close>.\<close>

definition parse_signed :: "nat \<Rightarrow> string \<Rightarrow> int option" where
  "parse_signed bound s =
     (if starts_with s ''-'' then
        (let d = tl s in
         if d = [] then None
         else case digits_val 10 0 d of Some n \<Rightarrow> if n \<le> bound then Some (- int n) else None | None \<Rightarrow> None)
      else map_option int (parse_unsigned bound s))"

definition parse_i64 :: "string \<Rightarrow> int option" where
  "parse_i64 s = parse_signed (2 ^ 63) s"

definition parse_i32 :: "string \<Rightarrow> int option" where
  "parse_i32 s = parse_signed (2 ^ 31) s"

subsection \<open>Reading addresses\<close>

definition read_number :: "nat \<Rightarrow> nat \<Rightarrow> bool \<Rightarrow> nat \<Rightarrow> string \<Rightarrow> (nat \<times> string) option" where
  "read_number radix max_digits allow_zero_prefix bound s =
     (let ds = takeWhile (\<lambda>c. to_digit radix c \<noteq> None) s; n = length ds in
      if n > max_digits \<or> n = 0 then None
      else if \<not> allow_zero_prefix \<and> hd ds = CHR ''0'' \<and> n > 1 then None
      else case digits_val radix 0 ds of
             Some v \<Rightarrow> if v < bound then Some (v, drop n s) else None
           | None \<Rightarrow> None)"

definition read_separator ::
  "char \<Rightarrow> nat \<Rightarrow> (string \<Rightarrow> ('a \<times> string) option) \<Rightarrow> string \<Rightarrow> ('a \<times> string) option" where
  "read_separator sep index inner s =
     (if index > 0
      then case s of [] \<Rightarrow> None | c # r \<Rightarrow> if c = sep then inner r else None
      else inner s)"

fun read_octets :: "nat \<Rightarrow> nat \<Rightarrow> string \<Rightarrow> (nat list \<times> string) option" where
  "read_octets i 0 s = Some ([], s)"
| "read_octets i (Suc k) s =
     (case read_separator CHR ''.'' i (read_number 10 3 False 256) s of
        None \<Rightarrow> None
      | Some (v, r) \<Rightarrow>
          (case read_octets (Suc i) k r of None \<Rightarrow> None | Some (vs, r') \<Rightarrow> Some (v # vs, r')))"

definition read_ipv4_addr :: "string \<Rightarrow> (u32 \<times> string) option" where
  "read_ipv4_addr s =
     (case read_octets 0 4 s of
        None \<Rightarrow> None
      | Some (vs, r) \<Rightarrow> Some (of_be_bytes (map (\<lambda>v. of_nat v :: u8) vs), r))"

text \<open>
  A run of 16-bit groups into the \<open>k\<close> slots that are left, from slot \<open>i\<close> on; an embedded IPv4 address
  fills two slots and ends the run.
\<close>

fun read_groups :: "nat \<Rightarrow> nat \<Rightarrow> string \<Rightarrow> nat list \<times> bool \<times> string" where
  "read_groups i 0 s = ([], False, s)"
| "read_groups i (Suc k) s =
     (case (if 0 < k then read_separator CHR '':'' i read_ipv4_addr s else None) of
        Some (v4, r) \<Rightarrow> ([unat (drop_bit 16 v4), unat (v4 AND 0xFFFF)], True, r)
      | None \<Rightarrow>
          (case read_separator CHR '':'' i (read_number 16 4 True 65536) s of
             None \<Rightarrow> ([], False, s)
           | Some (g, r) \<Rightarrow> (case read_groups (Suc i) k r of (gs, b, r') \<Rightarrow> (g # gs, b, r'))))"

definition ipv6_of_groups :: "nat list \<Rightarrow> u128" where
  "ipv6_of_groups gs = of_nat (foldl (\<lambda>a g. a * 65536 + g) 0 gs)"

definition read_ipv6_addr :: "string \<Rightarrow> (u128 \<times> string) option" where
  "read_ipv6_addr s =
     (case read_groups 0 8 s of
        (head, head_ipv4, r) \<Rightarrow>
          if length head = 8 then Some (ipv6_of_groups head, r)
          else if head_ipv4 then None
          else if \<not> starts_with r ''::'' then None
          else
            case read_groups 0 (8 - (length head + 1)) (drop 2 r) of
              (tail, _, r') \<Rightarrow>
                Some (ipv6_of_groups (head @ replicate (8 - length head - length tail) 0 @ tail), r'))"

definition parse_ip :: "string \<Rightarrow> IpAddr option" where
  "parse_ip s =
     (case read_ipv4_addr s of
        Some (a, r) \<Rightarrow> if r = [] then Some (IpV4 a) else None
      | None \<Rightarrow>
          (case read_ipv6_addr s of
             Some (a, r) \<Rightarrow> if r = [] then Some (IpV6 a) else None
           | None \<Rightarrow> None))"

subsection \<open>Displaying addresses\<close>

definition hex_char :: "nat \<Rightarrow> char" where
  "hex_char d = char_of (if d < 10 then 48 + d else 87 + d)"

fun fmt_hex :: "nat \<Rightarrow> string" where
  "fmt_hex n = (if n < 16 then [hex_char n] else fmt_hex (n div 16) @ [hex_char (n mod 16)])"

declare fmt_hex.simps [simp del]

fun join_with :: "string \<Rightarrow> string list \<Rightarrow> string" where
  "join_with sep [] = []"
| "join_with sep [x] = x"
| "join_with sep (x # y # ys) = x @ sep @ join_with sep (y # ys)"

definition fmt_ipv4 :: "u32 \<Rightarrow> string" where
  "fmt_ipv4 a = join_with ''.'' (map (\<lambda>b. fmt_nat (unat b)) (ipv4_octets a))"

definition ipv6_segments :: "u128 \<Rightarrow> nat list" where
  "ipv6_segments a = map (\<lambda>i. unat (ucast (drop_bit (16 * (7 - i)) a) :: u16)) [0..<8]"

text \<open>The first of the longest runs of zero segments, as start and length.\<close>

fun zero_span :: "nat list \<Rightarrow> nat \<Rightarrow> nat \<times> nat \<Rightarrow> nat \<times> nat \<Rightarrow> nat \<times> nat" where
  "zero_span [] i current longest = longest"
| "zero_span (g # gs) i current longest =
     (if g = 0 then
        let current = (if snd current = 0 then i else fst current, snd current + 1)
        in zero_span gs (i + 1) current (if snd current > snd longest then current else longest)
      else zero_span gs (i + 1) (0, 0) longest)"

definition fmt_ipv6 :: "u128 \<Rightarrow> string" where
  "fmt_ipv6 a =
     (case to_ipv4_mapped a of
        Some v4 \<Rightarrow> ''::ffff:'' @ fmt_ipv4 v4
      | None \<Rightarrow>
          let gs = ipv6_segments a; (start, len) = zero_span gs 0 (0, 0) (0, 0);
              sub = (\<lambda>xs. join_with '':'' (map fmt_hex xs))
          in if len > 1 then sub (take start gs) @ ''::'' @ sub (drop (start + len) gs) else sub gs)"

fun fmt_ip :: "IpAddr \<Rightarrow> string" where
  "fmt_ip (IpV4 a) = fmt_ipv4 a"
| "fmt_ip (IpV6 a) = fmt_ipv6 a"

subsection \<open>Splitting text\<close>

fun split_on :: "char \<Rightarrow> string \<Rightarrow> string list" where
  "split_on sep [] = [[]]"
| "split_on sep (c # cs) =
     (if c = sep then [] # split_on sep cs
      else case split_on sep cs of [] \<Rightarrow> [[c]] | p # ps \<Rightarrow> (c # p) # ps)"

fun split_once :: "char \<Rightarrow> string \<Rightarrow> (string \<times> string) option" where
  "split_once sep [] = None"
| "split_once sep (c # cs) =
     (if c = sep then Some ([], cs)
      else map_option (\<lambda>(a, b). (c # a, b)) (split_once sep cs))"

text \<open>\<open>str::lines\<close>: pieces ended by a line feed, which is cut off with a carriage return before it.\<close>

fun lines_from :: "string \<Rightarrow> string \<Rightarrow> string list" where
  "lines_from cur [] = (if cur = [] then [] else [rev cur])"
| "lines_from cur (c # cs) =
     (if c = CHR 0x0A
      then (case cur of [] \<Rightarrow> [] | d # ds \<Rightarrow> if d = CHR 0x0D then rev ds else rev cur) # lines_from [] cs
      else lines_from (c # cur) cs)"

definition str_lines :: "string \<Rightarrow> string list" where
  "str_lines s = lines_from [] s"

lemma split_on_nonempty [simp]: "split_on sep s \<noteq> []"
  by (induction s) (auto split: list.split)

lemma split_once_none: "split_once sep s = None \<longleftrightarrow> sep \<notin> set s"
  by (induction s) auto

lemma split_once_append [simp]: "sep \<notin> set a \<Longrightarrow> split_once sep (a @ sep # b) = Some (a, b)"
  by (induction a) auto

lemma split_onceD: "split_once sep s = Some (a, b) \<Longrightarrow> s = a @ sep # b \<and> sep \<notin> set a"
  by (induction s arbitrary: a) (auto split: if_splits)

subsection \<open>Decimal numbers are read back\<close>

definition is_digit :: "char \<Rightarrow> bool" where
  "is_digit c \<longleftrightarrow> 48 \<le> (of_char c :: nat) \<and> (of_char c :: nat) \<le> 57"

lemma digits_val_append:
  "digits_val radix acc (xs @ ys) =
     (case digits_val radix acc xs of None \<Rightarrow> None | Some a \<Rightarrow> digits_val radix a ys)"
  by (induction xs arbitrary: acc) (simp_all split: option.split)

lemma to_digit_dec [simp]: "d < 10 \<Longrightarrow> to_digit 10 (char_of (48 + d)) = Some d"
  by (simp add: to_digit_def of_char_of)

lemma digits_val_fmt_nat: "digits_val 10 0 (fmt_nat n) = Some n"
proof (induction n rule: fmt_nat.induct)
  case (1 n)
  show ?case
  proof (cases "n < 10")
    case True
    then show ?thesis by (subst fmt_nat.simps) simp
  next
    case False
    with 1 show ?thesis by (subst fmt_nat.simps) (simp add: digits_val_append)
  qed
qed

lemma fmt_nat_digits: "list_all is_digit (fmt_nat n)" and fmt_nat_nonempty [simp]: "fmt_nat n \<noteq> []"
proof -
  have d: "is_digit (char_of (48 + d))" if "d < 10" for d :: nat
    using that by (simp add: is_digit_def of_char_of)
  show "list_all is_digit (fmt_nat n)"
  proof (induction n rule: fmt_nat.induct)
    case (1 n)
    then show ?case by (subst fmt_nat.simps) (simp add: d)
  qed
  show "fmt_nat n \<noteq> []" by (subst fmt_nat.simps) simp
qed

lemma fmt_nat_char: "c \<in> set (fmt_nat n) \<Longrightarrow> is_digit c"
  using fmt_nat_digits [of n] by (simp add: list_all_iff)

lemma parse_radix_fmt_nat: "n < bound \<Longrightarrow> parse_radix 10 bound (fmt_nat n) = Some n"
proof -
  assume "n < bound"
  have "\<not> starts_with (fmt_nat n) ''+''"
    using fmt_nat_char [of "CHR ''+''" n] by (cases "fmt_nat n") (auto simp: starts_with_def is_digit_def)
  with \<open>n < bound\<close> show ?thesis by (simp add: parse_radix_def digits_val_fmt_nat)
qed

lemma fmt_nat_not_hex: "\<not> starts_with (fmt_nat n) ''0x''" "\<not> starts_with (fmt_nat n) ''0X''"
proof -
  have "\<not> is_digit CHR ''x''" "\<not> is_digit CHR ''X''" by (simp_all add: is_digit_def)
  then have "CHR ''x'' \<notin> set (fmt_nat n)" "CHR ''X'' \<notin> set (fmt_nat n)" using fmt_nat_char by blast+
  moreover have "starts_with s p \<Longrightarrow> set p \<subseteq> set s" for s p
    by (metis set_take_subset starts_with_def)
  ultimately show "\<not> starts_with (fmt_nat n) ''0x''" "\<not> starts_with (fmt_nat n) ''0X''" by fastforce+
qed

end
