(* ===== verification/Toml.thy ===== *)
theory Toml
  imports Net_Parse Errors "HOL-Library.AList"
begin

text \<open>
  The TOML subset parser of \<^verbatim>\<open>src/config.rs\<close>.

  A text is the list of its UTF-8 bytes. Every character the parser tests for is ASCII, and no byte of a
  longer character is, so walking over bytes finds the same positions as the code's walks over
  characters. A table is an association list with distinct keys; nothing here depends on its order. The
  code can panic (slicing a one-character array element), so a parse has one of three outcomes.
\<close>

datatype 'a outcome = Panics | Fails AppError | Returns 'a

fun out_bind :: "'a outcome \<Rightarrow> ('a \<Rightarrow> 'b outcome) \<Rightarrow> 'b outcome" where
  "out_bind Panics k = Panics"
| "out_bind (Fails e) k = Fails e"
| "out_bind (Returns a) k = k a"

definition out_of_res :: "(AppError, 'a) res \<Rightarrow> 'a outcome" where
  "out_of_res r = (case r of Inl e \<Rightarrow> Fails e | Inr a \<Rightarrow> Returns a)"

lemma out_bind_Returns_iff: "out_bind m k = Returns b \<longleftrightarrow> (\<exists>a. m = Returns a \<and> k a = Returns b)"
  by (cases m) simp_all

lemma out_bind_Panics_iff: "out_bind m k = Panics \<longleftrightarrow> m = Panics \<or> (\<exists>a. m = Returns a \<and> k a = Panics)"
  by (cases m) simp_all

lemma out_of_res_simps [simp]: "out_of_res (Inl e) = Fails e" "out_of_res (Inr a) = Returns a"
  by (simp_all add: out_of_res_def)

lemma out_of_res_iff [simp]:
  "out_of_res r = Returns a \<longleftrightarrow> r = Inr a" "out_of_res r = Fails e \<longleftrightarrow> r = Inl e" "out_of_res r \<noteq> Panics"
  by (cases r; simp)+

datatype TomlValue = TStr string | TInt int | TBool bool | TArray "string list"

type_synonym toml_section = "(string \<times> TomlValue) list"
type_synonym TomlTable = "(string \<times> toml_section) list"

abbreviation (input) DQ :: char where "DQ \<equiv> CHR 0x22"
abbreviation (input) SQ :: char where "SQ \<equiv> CHR 0x27"
abbreviation (input) BSL :: char where "BSL \<equiv> CHR 0x5C"
abbreviation (input) HASH :: char where "HASH \<equiv> CHR 0x23"

definition parse_err :: "usize \<Rightarrow> string \<Rightarrow> AppError" where
  "parse_err line_no msg = Config (''line '' @ fmt_nat (line_no + 1) @ '': '' @ msg)"

text \<open>The walk of \<open>strip_comment\<close>: the quote that is open, whether the last character escapes the next.\<close>

fun strip_from :: "char option \<Rightarrow> bool \<Rightarrow> string \<Rightarrow> string" where
  "strip_from quote escaped [] = []"
| "strip_from quote escaped (ch # r) =
     (case quote of
        Some q \<Rightarrow>
          ch # (if q = DQ then
                  if escaped then strip_from quote False r
                  else if ch = BSL then strip_from quote True r
                  else if ch = DQ then strip_from None escaped r
                  else strip_from quote escaped r
                else if q = SQ then
                  if ch = SQ then strip_from None escaped r else strip_from quote escaped r
                else strip_from quote escaped r)
      | None \<Rightarrow>
          if ch = DQ \<or> ch = SQ then ch # strip_from (Some ch) escaped r
          else if ch = HASH then []
          else ch # strip_from None escaped r)"

definition strip_comment :: "string \<Rightarrow> string" where
  "strip_comment line = strip_from None False line"

fun unescape_string :: "string \<Rightarrow> string" where
  "unescape_string [] = []"
| "unescape_string (ch # cs) =
     (if ch = BSL then
        (case cs of
           [] \<Rightarrow> [BSL]
         | c # r \<Rightarrow>
             if c = CHR ''n'' then CHR 0x0A # unescape_string r
             else if c = CHR ''t'' then CHR 0x09 # unescape_string r
             else if c = BSL then BSL # unescape_string r
             else if c = DQ then DQ # unescape_string r
             else if c = SQ then SQ # unescape_string r
             else BSL # c # unescape_string r)
      else ch # unescape_string cs)"

text \<open>\<open>s[1..s.len() - 1]\<close>, which panics on a text of one byte.\<close>

definition inner_slice :: "string \<Rightarrow> string outcome" where
  "inner_slice s = (if length s < 2 then Panics else Returns (butlast (tl s)))"

definition is_quoted :: "string \<Rightarrow> bool" where
  "is_quoted s \<longleftrightarrow> starts_with s [DQ] \<and> ends_with s [DQ] \<or> starts_with s [SQ] \<and> ends_with s [SQ]"

fun array_items :: "usize \<Rightarrow> string list \<Rightarrow> string list \<Rightarrow> string list outcome" where
  "array_items line_no [] items = Returns items"
| "array_items line_no (part # parts) items =
     (let part = str_trim part in
      if part = [] then array_items line_no parts items
      else if is_quoted part
      then out_bind (inner_slice part) (\<lambda>t. array_items line_no parts (items @ [unescape_string t]))
      else Fails (parse_err line_no ''array elements must be quoted strings''))"

definition parse_array :: "string \<Rightarrow> usize \<Rightarrow> TomlValue outcome" where
  "parse_array s line_no =
     (if \<not> ends_with s '']'' then Fails (parse_err line_no ''unterminated array'')
      else
        out_bind (inner_slice s) (\<lambda>inner.
          let inner = str_trim inner in
          if inner = [] then Returns (TArray [])
          else out_bind (array_items line_no (split_on CHR '','' inner) []) (\<lambda>items. Returns (TArray items))))"

definition parse_value :: "string \<Rightarrow> usize \<Rightarrow> TomlValue outcome" where
  "parse_value s line_no =
     (if s = [] then Fails (parse_err line_no ''empty value'')
      else if s = ''true'' then Returns (TBool True)
      else if s = ''false'' then Returns (TBool False)
      else if is_quoted s then
        if length s < 2 then Fails (parse_err line_no ''malformed string'')
        else out_bind (inner_slice s) (\<lambda>t. Returns (TStr (unescape_string t)))
      else if starts_with s ''['' then parse_array s line_no
      else
        case parse_i64 s of
          Some n \<Rightarrow> Returns (TInt n)
        | None \<Rightarrow> Fails (parse_err line_no (''cannot parse value: '' @ s)))"

text \<open>The insertion of a parsed value into its section.\<close>

definition insert_key :: "usize \<Rightarrow> string \<Rightarrow> string \<Rightarrow> TomlValue \<Rightarrow> TomlTable \<Rightarrow> TomlTable outcome" where
  "insert_key line_no section_name key val table =
     (case map_of table section_name of
        None \<Rightarrow> Fails (parse_err line_no ''section not initialized'')
      | Some sec \<Rightarrow>
          if map_of sec key \<noteq> None
          then Fails (parse_err line_no (''duplicate key '' @ [SQ] @ key @ [SQ] @ '' in ['' @ section_name @ '']''))
          else Returns (AList.update section_name (AList.update key val sec) table))"

text \<open>One line of the loop of \<open>parse_toml\<close>, on the table and the current section.\<close>

definition toml_line ::
  "usize \<Rightarrow> string \<Rightarrow> TomlTable \<times> string option \<Rightarrow> (TomlTable \<times> string option) outcome" where
  "toml_line line_no raw_line st =
     (case st of (table, current_section) \<Rightarrow>
        let line = str_trim (strip_comment raw_line) in
        if line = [] then Returns (table, current_section)
        else if starts_with line ''['' then
          if \<not> ends_with line '']'' then Fails (parse_err line_no ''malformed section header'')
          else
            out_bind (inner_slice line) (\<lambda>inner.
              let name = str_trim inner in
              if name = [] then Fails (parse_err line_no ''empty section name'')
              else
                Returns (if map_of table name = None then AList.update name [] table else table,
                         if current_section \<noteq> Some name then Some name else current_section))
        else
          case split_once CHR ''='' line of
            None \<Rightarrow> Fails (parse_err line_no ''expected key = value'')
          | Some (k, v) \<Rightarrow>
              let key = str_trim k; val_str = str_trim v in
              if key = [] then Fails (parse_err line_no ''empty key'')
              else
                case current_section of
                  None \<Rightarrow> Fails (parse_err line_no ''key outside of section'')
                | Some section_name \<Rightarrow>
                    if section_name = [] then Fails (parse_err line_no ''key outside of section'')
                    else
                      out_bind (parse_value val_str line_no) (\<lambda>val.
                        out_bind (insert_key line_no section_name key val table) (\<lambda>table.
                          Returns (table, current_section))))"

fun toml_lines ::
  "usize \<Rightarrow> string list \<Rightarrow> TomlTable \<times> string option \<Rightarrow> (TomlTable \<times> string option) outcome" where
  "toml_lines line_no [] st = Returns st"
| "toml_lines line_no (l # ls) st = out_bind (toml_line line_no l st) (toml_lines (line_no + 1) ls)"

definition parse_toml :: "string \<Rightarrow> TomlTable outcome" where
  "parse_toml txt = out_bind (toml_lines 0 (str_lines txt) ([], None)) (\<lambda>st. Returns (fst st))"

subsection \<open>Trimming\<close>

text \<open>A printable ASCII byte other than space: it begins and ends no whitespace character.\<close>

definition plain :: "char \<Rightarrow> bool" where
  "plain c \<longleftrightarrow> 0x21 \<le> (of_char c :: nat) \<and> (of_char c :: nat) < 0x7F"

lemma leading_enc_plain:
  assumes "plain c"
  shows "leading_enc ws_encodings (c # s) = 0" "leading_enc (map rev ws_encodings) (c # s) = 0"
  using assms by (simp_all add: ws_encodings_def plain_def)

lemma trim_with_plain [simp]:
  assumes "plain c"
  shows "trim_with ws_encodings (c # s) = c # s" "trim_with (map rev ws_encodings) (c # s) = c # s"
  by (simp_all add: trim_with.simps [of _ "c # s"] leading_enc_plain assms)

lemma trim_with_space [simp]:
  "trim_with ws_encodings (CHR '' '' # s) = trim_with ws_encodings s"
  "trim_with (map rev ws_encodings) (CHR '' '' # s) = trim_with (map rev ws_encodings) s"
proof -
  have "leading_enc ws_encodings (CHR '' '' # s) = 1" "leading_enc (map rev ws_encodings) (CHR '' '' # s) = 1"
    by (simp_all add: ws_encodings_def)
  then show "trim_with ws_encodings (CHR '' '' # s) = trim_with ws_encodings s"
    "trim_with (map rev ws_encodings) (CHR '' '' # s) = trim_with (map rev ws_encodings) s"
    by (simp_all add: trim_with.simps [of _ "CHR '' '' # s"])
qed

lemma trim_start_space [simp]: "trim_start (CHR '' '' # s) = trim_start s"
  by (simp add: trim_start_def)

lemma trim_start_plain [simp]: "plain c \<Longrightarrow> trim_start (c # s) = c # s"
  by (simp add: trim_start_def)

lemma trim_end_plain [simp]: "plain c \<Longrightarrow> trim_end (s @ [c]) = s @ [c]"
  by (simp add: trim_end_def)

lemma trim_end_space [simp]: "trim_end (s @ [CHR '' '']) = trim_end s"
  by (simp add: trim_end_def)

lemma str_trim_space [simp]: "str_trim (CHR '' '' # s) = str_trim s"
  by (simp add: str_trim_def)

lemma str_trim_plain:
  assumes "s \<noteq> []" "plain (hd s)" "plain (last s)"
  shows "str_trim s = s" "str_trim (s @ '' '') = s"
proof -
  obtain c s' where c: "s = c # s'" "plain c" using assms by (cases s) simp_all
  obtain t d where d: "s = t @ [d]" "plain d" using assms by (cases s rule: rev_cases) simp_all
  have "trim_start s = s" "trim_start (s @ '' '') = s @ '' ''" using c by simp_all
  moreover have "trim_end s = s" using d by simp
  ultimately show "str_trim s = s" "str_trim (s @ '' '') = s" by (simp_all add: str_trim_def)
qed

subsection \<open>Quoted strings\<close>

fun escape_char :: "char \<Rightarrow> string" where
  "escape_char c =
     (if c = BSL then [BSL, BSL] else if c = DQ then [BSL, DQ]
      else if c = CHR 0x0A then [BSL, CHR ''n''] else if c = CHR 0x09 then [BSL, CHR ''t''] else [c])"

definition escape_string :: "string \<Rightarrow> string" where
  "escape_string s = concat (map escape_char s)"

lemma escape_string_simps [simp]:
  "escape_string [] = []" "escape_string (c # s) = escape_char c @ escape_string s"
  by (simp_all add: escape_string_def)

lemma unescape_escape [simp]: "unescape_string (escape_string s) = s"
  by (induction s) simp_all

lemma strip_from_escape [simp]:
  "strip_from (Some DQ) False (escape_string s @ r) = escape_string s @ strip_from (Some DQ) False r"
  by (induction s) simp_all

text \<open>A key as the configuration uses them: letters, digits and underscores.\<close>

definition key_char :: "char \<Rightarrow> bool" where
  "key_char c \<longleftrightarrow> (let n = of_char c :: nat in 48 \<le> n \<and> n \<le> 57 \<or> 65 \<le> n \<and> n \<le> 90 \<or> 97 \<le> n \<and> n \<le> 122 \<or> n = 95)"

lemma key_char_plain: "key_char c \<Longrightarrow> plain c"
  by (auto simp: key_char_def plain_def Let_def)

lemma key_char_neq:
  "key_char c \<Longrightarrow> c \<noteq> DQ \<and> c \<noteq> SQ \<and> c \<noteq> HASH \<and> c \<noteq> CHR ''='' \<and> c \<noteq> CHR ''[''"
  by (auto simp: key_char_def Let_def)

lemma strip_from_key: "list_all key_char k \<Longrightarrow> strip_from None False (k @ r) = k @ strip_from None False r"
  by (induction k) (auto simp: key_char_neq)

definition quoted :: "string \<Rightarrow> string" where
  "quoted s = [DQ] @ escape_string s @ [DQ]"

lemma parse_quoted: "parse_value (quoted s) line_no = Returns (TStr s)"
  by (simp add: parse_value_def quoted_def is_quoted_def starts_with_def ends_with_def inner_slice_def)

lemma quoted_ends: "quoted s \<noteq> []" "hd (quoted s) = DQ" "last (quoted s) = DQ"
  by (simp_all add: quoted_def)

lemma key_line_trim:
  assumes "list_all key_char k" "k \<noteq> []"
  shows "str_trim (strip_comment (k @ '' = '' @ quoted s @ '' '' @ HASH # comment)) = k @ '' = '' @ quoted s"
proof -
  have "strip_comment (k @ '' = '' @ quoted s @ '' '' @ HASH # comment) = (k @ '' = '' @ quoted s) @ '' ''"
    using assms by (simp add: strip_comment_def strip_from_key quoted_def)
  moreover have "str_trim ((k @ '' = '' @ quoted s) @ '' '') = k @ '' = '' @ quoted s"
  proof (rule str_trim_plain(2))
    show "plain (hd (k @ '' = '' @ quoted s))" using assms by (cases k) (simp_all add: key_char_plain)
    show "plain (last (k @ '' = '' @ quoted s))" by (simp add: quoted_def plain_def)
  qed simp
  ultimately show ?thesis by simp
qed

text \<open>
  C29. A string survives the configuration file: written in double quotes with backslash, quote, line
  feed and tab escaped, any text at all is read back unchanged, whatever comment follows it on the line
  and however many comment signs, quotes or equals signs the text itself contains.
\<close>

theorem config_string_roundtrip:
  assumes "list_all key_char k" "k \<noteq> []" "section_name \<noteq> []" "map_of table section_name = Some sec" "map_of sec k = None"
  shows "toml_line line_no (k @ '' = '' @ quoted s @ '' '' @ HASH # comment) (table, Some section_name) =
    Returns (AList.update section_name (AList.update k (TStr s) sec) table, Some section_name)"
proof -
  obtain c k' where k: "k = c # k'" "key_char c" using assms(1,2) by (cases k) simp_all
  have k0: "\<not> starts_with (k @ '' = '' @ quoted s) ''[''"
    using k key_char_neq [of c] by (simp add: starts_with_def)
  have noeq: "CHR ''='' \<notin> set (k @ '' '')"
    using assms(1) key_char_neq by (auto simp: list_all_iff)
  have sp: "split_once CHR ''='' (k @ '' = '' @ quoted s) = Some (k @ '' '', '' '' @ quoted s)"
    using split_once_append [OF noeq, of "'' '' @ quoted s"] by simp
  have tk: "str_trim (k @ '' '') = k"
    using assms(1,2) by (intro str_trim_plain(2)) (auto simp: list_all_iff key_char_plain)
  have tv: "str_trim ('' '' @ quoted s) = quoted s"
    using str_trim_plain(1) [OF quoted_ends(1)] by (simp add: quoted_ends plain_def)
  show ?thesis
    using assms k0 tk tv
    by (simp add: toml_line_def insert_key_def key_line_trim Let_def sp parse_quoted del: append.simps append_Cons)
qed

theorem config_string_roundtrip_witness:
  "toml_line 3 (''file = '' @ quoted ''a#b'' @ '' '' @ HASH # '' where'') ([(''log'', [])], Some ''log'') =
     Returns ([(''log'', [(''file'', TStr ''a#b'')])], Some ''log'')"
  using config_string_roundtrip [of "''file''" "''log''" "[(''log'', [])]" "[]" 3 "''a#b''" "'' where''"]
  by (simp add: key_char_def)

subsection \<open>Well-formed tables\<close>

definition table_ok :: "TomlTable \<Rightarrow> bool" where
  "table_ok table \<longleftrightarrow> distinct (map fst table) \<and> list_all (\<lambda>(_, sec). distinct (map fst sec)) table"

lemma list_all_update: "list_all P t \<Longrightarrow> P (k, v) \<Longrightarrow> list_all P (AList.update k v t)"
  by (induction t) auto

lemma table_ok_update:
  "table_ok table \<Longrightarrow> distinct (map fst sec) \<Longrightarrow> table_ok (AList.update name sec table)"
  by (auto simp: table_ok_def distinct_update intro: list_all_update)

lemma insert_key_ok:
  assumes "table_ok table" "insert_key n name key val table = Returns table'"
  shows "table_ok table'"
proof -
  obtain sec where sec: "map_of table name = Some sec" "table' = AList.update name (AList.update key val sec) table"
    using assms(2) by (auto simp: insert_key_def split: option.splits if_splits)
  then have "distinct (map fst sec)"
    using assms(1) map_of_SomeD [OF sec(1)] by (auto simp: table_ok_def list_all_iff)
  with assms(1) sec(2) show ?thesis by (simp add: table_ok_update distinct_update)
qed

lemma toml_line_ok:
  assumes "table_ok (fst st)" "toml_line n l st = Returns st'"
  shows "table_ok (fst st')"
  using assms insert_key_ok [of "fst st" n]
  by (cases st) (auto simp: toml_line_def Let_def out_bind_Returns_iff table_ok_update
      split: if_splits option.splits)

lemma toml_lines_ok: "table_ok (fst st) \<Longrightarrow> toml_lines n ls st = Returns st' \<Longrightarrow> table_ok (fst st')"
  by (induction n ls st rule: toml_lines.induct) (auto simp: out_bind_Returns_iff intro: toml_line_ok)

lemma parse_toml_ok: "parse_toml txt = Returns table \<Longrightarrow> table_ok table"
  using toml_lines_ok [of "([], None)" 0 "str_lines txt"]
  by (auto simp: parse_toml_def out_bind_Returns_iff table_ok_def)

subsection \<open>Panics\<close>

definition item_ok :: "string \<Rightarrow> bool" where
  "item_ok p \<longleftrightarrow> str_trim p = [] \<or> is_quoted (str_trim p) \<and> 2 \<le> length (str_trim p)"

lemma quoted_short: "is_quoted p \<Longrightarrow> length p < 2 \<longleftrightarrow> p = [DQ] \<or> p = [SQ]"
  by (cases p) (auto simp: is_quoted_def starts_with_def)

lemma array_items_panics:
  "array_items n parts items = Panics \<longleftrightarrow>
     (\<exists>p rest. dropWhile item_ok parts = p # rest \<and> str_trim p \<in> {[DQ], [SQ]})"
proof (induction n parts items rule: array_items.induct)
  case (2 n part parts items)
  let ?p = "str_trim part"
  have q: "is_quoted [DQ]" "is_quoted [SQ]" by (simp_all add: is_quoted_def starts_with_def ends_with_def)
  consider (skip) "?p = []" | (lone) "?p \<in> {[DQ], [SQ]}" | (good) "?p \<noteq> []" "is_quoted ?p" "2 \<le> length ?p"
    | (bad) "\<not> is_quoted ?p" "?p \<noteq> []"
    using quoted_short [of ?p] by fastforce
  then show ?case
  proof cases
    case skip
    with 2 show ?thesis by (simp add: item_ok_def)
  next
    case lone
    with q show ?thesis by (auto simp: item_ok_def inner_slice_def)
  next
    case good
    with 2(2) [OF refl good(1,2)] show ?thesis by (simp add: item_ok_def inner_slice_def)
  next
    case bad
    with q show ?thesis by (auto simp: item_ok_def)
  qed
qed simp

text \<open>
  The only text that makes the parser panic is an array element that is a lone quotation mark:
  a value panics exactly when it is a bracketed list whose first element that is neither empty nor properly
  quoted is a single quote character; every other value is parsed or reported as an error with its line.
\<close>

theorem lone_quote_panics:
  "parse_value s line_no = Panics \<longleftrightarrow>
     starts_with s ''['' \<and> ends_with s '']'' \<and>
     (\<exists>p rest. dropWhile item_ok (split_on CHR '','' (str_trim (butlast (tl s)))) = p # rest \<and> str_trim p \<in> {[DQ], [SQ]})"
proof (cases "starts_with s ''['' \<and> ends_with s '']''")
  case True
  then have s: "s \<noteq> []" "\<not> is_quoted s" "2 \<le> length s" "s \<noteq> ''true''" "s \<noteq> ''false''"
    by (cases s; cases "tl s"; auto simp: starts_with_def ends_with_def is_quoted_def)+
  have "str_trim [] = []" by (simp add: str_trim_def trim_start_def trim_end_def trim_with.simps ws_encodings_def)
  then have nil: "item_ok []" by (simp add: item_ok_def)
  show ?thesis
    using True s nil array_items_panics [of line_no "split_on CHR '','' (str_trim (butlast (tl s)))" "[]"]
    by (auto simp: parse_value_def parse_array_def inner_slice_def Let_def out_bind_Panics_iff)
next
  case False
  then show ?thesis
    by (auto simp: parse_value_def parse_array_def inner_slice_def Let_def split: option.splits)
qed

end
