(* ===== verification/Path.thy ===== *)
theory Path
  imports Net_Parse
begin

text \<open>
  The part of \<open>std::path\<close> (on Unix) and of lossy UTF-8 decoding that the program uses, with
  \<open>normalize_path\<close> of \<^verbatim>\<open>src/control.rs\<close>, the one function of the sources that is only about paths.

  A path is its text. Its components are the pieces between slashes, without empty pieces and without
  single dots (except a leading one of a relative path). A parent is a prefix of the text, as in the
  library, found from the pieces.
\<close>

datatype component = RootDir | CurDir | ParentDir | NormalPart string

abbreviation is_absolute :: "string \<Rightarrow> bool" where
  "is_absolute p \<equiv> starts_with p ''/''"

definition skipped :: "string \<Rightarrow> bool" where
  "skipped s \<longleftrightarrow> s = [] \<or> s = ''.''"

fun seg_component :: "string \<Rightarrow> component list" where
  "seg_component s = (if skipped s then [] else if s = ''..'' then [ParentDir] else [NormalPart s])"

definition components :: "string \<Rightarrow> component list" where
  "components p =
     (if is_absolute p then [RootDir] else if hd (split_on CHR ''/'' p) = ''.'' then [CurDir] else []) @
     concat (map seg_component (split_on CHR ''/'' p))"

definition path_join :: "string \<Rightarrow> string \<Rightarrow> string" where
  "path_join base path =
     (if is_absolute path then path
      else if base = [] \<or> ends_with base ''/'' then base @ path
      else base @ ''/'' @ path)"

text \<open>The pieces after the root, without those at the end that are no component.\<close>

definition trim_right :: "bool \<Rightarrow> string list \<Rightarrow> string list" where
  "trim_right rooted segs =
     (let t = rev (dropWhile skipped (rev segs))
      in if t = [] \<and> \<not> rooted \<and> segs \<noteq> [] \<and> hd segs = ''.'' then [''.''] else t)"

definition path_parent :: "string \<Rightarrow> string option" where
  "path_parent p =
     (let rooted = is_absolute p;
          segs = (if rooted then tl (split_on CHR ''/'' p) else split_on CHR ''/'' p);
          body = trim_right rooted segs
      in if body = [] then None
         else Some ((if rooted then ''/'' else []) @ join_with ''/'' (trim_right rooted (butlast body))))"

definition path_pop :: "string \<Rightarrow> string" where
  "path_pop p = (case path_parent p of Some q \<Rightarrow> q | None \<Rightarrow> p)"

definition file_name :: "string \<Rightarrow> string option" where
  "file_name p =
     (case rev (components p) of NormalPart s # _ \<Rightarrow> Some s | _ \<Rightarrow> None)"

subsection \<open>normalize\_path\<close>

fun push_component :: "component \<Rightarrow> string \<Rightarrow> string" where
  "push_component RootDir out = path_join out ''/''"
| "push_component CurDir out = out"
| "push_component ParentDir out = path_pop out"
| "push_component (NormalPart s) out = path_join out s"

definition normalize_path :: "string \<Rightarrow> string" where
  "normalize_path p = fold push_component (components p) []"

subsection \<open>Lossy UTF-8\<close>

text \<open>Whether a character begins here, and the bytes of the character or of the rejected part.\<close>

definition utf8_step :: "u8 \<Rightarrow> bytes \<Rightarrow> bool \<times> nat" where
  "utf8_step a as =
     (let at = (\<lambda>i. if i < length as then as ! i else 0);
          second = (if a = 0xE0 then 0xA0 \<le> at 0 \<and> at 0 \<le> 0xBF
                    else if a = 0xED then 0x80 \<le> at 0 \<and> at 0 \<le> 0x9F
                    else if a = 0xF0 then 0x90 \<le> at 0 \<and> at 0 \<le> 0xBF
                    else if a = 0xF4 then 0x80 \<le> at 0 \<and> at 0 \<le> 0x8F
                    else utf8_cont (at 0))
      in if a < 0x80 then (True, 1)
         else if 0xC2 \<le> a \<and> a \<le> 0xDF then (if second then (True, 2) else (False, 1))
         else if 0xE0 \<le> a \<and> a \<le> 0xEF then
           (if \<not> second then (False, 1) else if \<not> utf8_cont (at 1) then (False, 2) else (True, 3))
         else if 0xF0 \<le> a \<and> a \<le> 0xF4 then
           (if \<not> second then (False, 1) else if \<not> utf8_cont (at 1) then (False, 2)
            else if \<not> utf8_cont (at 2) then (False, 3) else (True, 4))
         else (False, 1))"

lemma utf8_step_pos: "0 < snd (utf8_step a as)"
  by (simp add: utf8_step_def Let_def)

function utf8_lossy :: "bytes \<Rightarrow> bytes" where
  "utf8_lossy [] = []"
| "utf8_lossy (a # as) =
     (let (ok, n) = utf8_step a as
      in (if ok then take n (a # as) else [0xEF, 0xBF, 0xBD]) @ utf8_lossy (drop n (a # as)))"
  by pat_completeness auto
termination
proof (relation "measure length")
  fix a as x ok n assume "x = utf8_step a as" "(ok, n) = x"
  then have "0 < n" using utf8_step_pos [of a as] by (metis snd_conv)
  then show "(drop n (a # as), a # as) \<in> measure length" by (cases n) auto
qed simp

declare utf8_lossy.simps(2) [simp del]

subsection \<open>What normalisation gives\<close>

text \<open>The specification: a stack of names, from which a double dot removes the last.\<close>

fun stack_component :: "component \<Rightarrow> string list \<Rightarrow> string list" where
  "stack_component (NormalPart s) st = st @ [s]"
| "stack_component ParentDir st = butlast st"
| "stack_component RootDir st = st"
| "stack_component CurDir st = st"

definition abs_text :: "string list \<Rightarrow> string" where
  "abs_text segs = ''/'' @ join_with ''/'' segs"

definition name_ok :: "string \<Rightarrow> bool" where
  "name_ok s \<longleftrightarrow> s \<noteq> [] \<and> s \<noteq> ''.'' \<and> s \<noteq> ''..'' \<and> CHR ''/'' \<notin> set s"

lemma split_on_piece: "sep \<notin> set s \<Longrightarrow> split_on sep s = [s]"
  by (induction s) auto

lemma split_on_append: "sep \<notin> set s \<Longrightarrow> split_on sep (s @ sep # r) = s # split_on sep r"
  by (induction s) auto

lemma split_on_join: "xs \<noteq> [] \<Longrightarrow> list_all (\<lambda>s. sep \<notin> set s) xs \<Longrightarrow> split_on sep (join_with [sep] xs) = xs"
  by (induction xs rule: induct_list012) (auto simp: split_on_piece split_on_append)

lemma split_on_pieces: "list_all (\<lambda>s. sep \<notin> set s) (split_on sep s)"
  by (induction s) (auto split: list.split simp: list_all_iff)

lemma split_abs_text: "list_all name_ok xs \<Longrightarrow> split_on CHR ''/'' (abs_text xs) = [] # (if xs = [] then [[]] else xs)"
  using split_on_join [of xs "CHR ''/''"] by (auto simp: abs_text_def name_ok_def list_all_iff)

lemma abs_text_absolute [simp]: "is_absolute (abs_text xs)"
  by (simp add: abs_text_def starts_with_def)

lemma join_with_snoc: "xs \<noteq> [] \<Longrightarrow> join_with sep (xs @ [s]) = join_with sep xs @ sep @ s"
  by (induction xs rule: induct_list012) simp_all

lemma last_abs_text: "xs \<noteq> [] \<Longrightarrow> list_all name_ok xs \<Longrightarrow> last (abs_text xs) \<noteq> CHR ''/''"
proof -
  assume a: "xs \<noteq> []" "list_all name_ok xs"
  then obtain ys s where xs: "xs = ys @ [s]" by (metis rev_exhaust)
  with a have s: "s \<noteq> []" "CHR ''/'' \<notin> set s" by (auto simp: name_ok_def)
  then have "last (abs_text xs) = last s"
    by (cases "ys = []") (simp_all add: xs abs_text_def join_with_snoc)
  with s show ?thesis by (metis last_in_set)
qed

lemma ends_with_slash: "ends_with s ''/'' \<longleftrightarrow> s \<noteq> [] \<and> last s = CHR ''/''"
  by (cases s rule: rev_cases) (auto simp: ends_with_def)

lemma path_join_abs:
  assumes "list_all name_ok xs" "name_ok s"
  shows "path_join (abs_text xs) s = abs_text (xs @ [s])"
proof -
  have "\<not> is_absolute s" using assms(2) by (cases s) (auto simp: starts_with_def name_ok_def)
  moreover have "ends_with (abs_text xs) ''/'' \<longleftrightarrow> xs = []"
  proof (cases "xs = []")
    case False
    with last_abs_text [of xs] assms(1) show ?thesis by (simp add: ends_with_slash)
  qed (simp add: ends_with_slash abs_text_def)
  moreover have "abs_text xs \<noteq> []" by (simp add: abs_text_def)
  ultimately show ?thesis
    by (cases "xs = []") (simp_all add: path_join_def abs_text_def join_with_snoc)
qed

lemma not_skipped: "name_ok s \<Longrightarrow> \<not> skipped s"
  by (auto simp: name_ok_def skipped_def)

lemma trim_right_names: "list_all name_ok xs \<Longrightarrow> trim_right True xs = xs"
  by (cases xs rule: rev_cases) (auto simp: trim_right_def not_skipped)

lemma path_pop_abs:
  assumes "list_all name_ok xs"
  shows "path_pop (abs_text xs) = abs_text (butlast xs)"
proof (cases "xs = []")
  case True
  then show ?thesis
    using split_abs_text [of "[]"] by (simp add: path_pop_def path_parent_def trim_right_def skipped_def)
next
  case False
  have "list_all name_ok (butlast xs)" using assms by (auto simp: list_all_iff dest: in_set_butlastD)
  then show ?thesis
    using False assms split_abs_text [OF assms]
    by (simp add: path_pop_def path_parent_def trim_right_names abs_text_def [of "butlast xs"])
qed

definition component_ok :: "component \<Rightarrow> bool" where
  "component_ok c = (case c of NormalPart s \<Rightarrow> name_ok s | RootDir \<Rightarrow> False | _ \<Rightarrow> True)"

lemma fold_push_component:
  "list_all component_ok cs \<Longrightarrow> list_all name_ok st \<Longrightarrow>
     fold push_component cs (abs_text st) = abs_text (fold stack_component cs st) \<and> list_all name_ok (fold stack_component cs st)"
proof (induction cs arbitrary: st)
  case (Cons c cs)
  have "list_all name_ok (butlast st)" using Cons.prems(2) by (auto simp: list_all_iff dest: in_set_butlastD)
  then show ?case
    using Cons by (cases c) (auto simp: component_ok_def path_join_abs path_pop_abs)
qed simp

lemma components_ok:
  assumes "is_absolute p"
  shows "components p = RootDir # tl (components p) \<and> list_all component_ok (tl (components p))"
proof -
  have "component_ok c" if "c \<in> set (seg_component s)" "CHR ''/'' \<notin> set s" for c s
    using that by (auto simp: component_ok_def name_ok_def skipped_def split: if_splits)
  then show ?thesis
    using assms split_on_pieces [of "CHR ''/''" p] by (auto simp: components_def list_all_iff simp del: seg_component.simps)
qed

lemma normalize_path_stack:
  assumes "is_absolute p"
  shows "normalize_path p = abs_text (fold stack_component (tl (components p)) [])"
    "list_all name_ok (fold stack_component (tl (components p)) [])"
proof -
  have root: "push_component RootDir [] = abs_text []" by (simp add: path_join_def abs_text_def starts_with_def)
  have c: "components p = RootDir # tl (components p)" "list_all component_ok (tl (components p))"
    using components_ok [OF assms] by simp_all
  have "normalize_path p = fold push_component (tl (components p)) (abs_text [])"
    unfolding normalize_path_def by (subst c(1)) (simp only: fold_simps root)
  then show "normalize_path p = abs_text (fold stack_component (tl (components p)) [])"
    "list_all name_ok (fold stack_component (tl (components p)) [])"
    using fold_push_component [OF c(2), of "[]"] by simp_all
qed

lemma components_abs_text:
  assumes "list_all name_ok xs"
  shows "components (abs_text xs) = RootDir # map NormalPart xs"
proof -
  have "concat (map seg_component ys) = map NormalPart ys" if "list_all name_ok ys" for ys
    using that by (induction ys) (auto simp: name_ok_def skipped_def)
  then show ?thesis using assms by (auto simp: components_def split_abs_text skipped_def)
qed

lemma fold_stack_names: "fold stack_component (map NormalPart ys) zs = zs @ ys"
  by (induction ys arbitrary: zs) simp_all

lemma normalize_path_abs_text: "list_all name_ok xs \<Longrightarrow> normalize_path (abs_text xs) = abs_text xs"
  using normalize_path_stack(1) [OF abs_text_absolute, of xs] by (simp add: components_abs_text fold_stack_names)

lemma normalize_path_idem: "is_absolute p \<Longrightarrow> is_absolute (normalize_path p) \<and> normalize_path (normalize_path p) = normalize_path p"
  using normalize_path_stack [of p] normalize_path_abs_text by simp

text \<open>
  Normalising a path gives a canonical name: an absolute path becomes the list of names that is left
  when every double dot removes the name before it (and nothing at the root), its components are the root and
  these names, and normalising again changes nothing, so two spellings of a directory compare equal exactly
  when they leave the same names.
\<close>

theorem normalize_path_canonical:
  assumes "is_absolute p"
  shows "components (normalize_path p) = RootDir # map NormalPart (fold stack_component (tl (components p)) []) \<and>
    normalize_path (normalize_path p) = normalize_path p \<and>
    (is_absolute q \<longrightarrow> (normalize_path p = normalize_path q \<longleftrightarrow>
       fold stack_component (tl (components p)) [] = fold stack_component (tl (components q)) []))"
proof -
  define xs where "xs = fold stack_component (tl (components p)) []"
  have xs: "normalize_path p = abs_text xs" "list_all name_ok xs"
    using normalize_path_stack [OF assms] by (simp_all add: xs_def)
  have "normalize_path (abs_text xs) = abs_text xs" by (rule normalize_path_abs_text [OF xs(2)])
  moreover have "normalize_path p = normalize_path q \<longleftrightarrow> xs = fold stack_component (tl (components q)) []" if "is_absolute q"
    using xs normalize_path_stack [OF that] components_abs_text
    by (metis list.inject map_injective component.inject injI inj_map)
  ultimately show ?thesis
    using xs components_abs_text [OF xs(2)] by (simp add: xs_def [symmetric])
qed

theorem normalize_path_canonical_witness:
  "is_absolute ''/a/../b'' \<and> components (normalize_path ''/a/../b'') = [RootDir, NormalPart ''b''] \<and>
   normalize_path ''/a/../b'' = normalize_path ''/b''"
proof -
  have c: "components ''/a/../b'' = [RootDir, NormalPart ''a'', ParentDir, NormalPart ''b'']"
    "components ''/b'' = [RootDir, NormalPart ''b'']"
    by (simp_all add: components_def starts_with_def skipped_def)
  have a: "is_absolute ''/a/../b''" "is_absolute ''/b''" by (simp_all add: starts_with_def)
  note n = normalize_path_canonical [OF a(1), of "''/b''"]
  have "components (normalize_path ''/a/../b'') = [RootDir, NormalPart ''b'']" using n [THEN conjunct1] by (simp add: c)
  moreover have "normalize_path ''/a/../b'' = normalize_path ''/b''" using n [THEN conjunct2, THEN conjunct2] a(2) by (simp add: c)
  ultimately show ?thesis using a by blast
qed

lemma utf8_lossy_ascii: "is_ascii bs \<Longrightarrow> utf8_lossy bs = bs"
  by (induction bs) (auto simp: is_ascii_def utf8_lossy.simps(2) utf8_step_def)

end
