(* ===== verification/Log_Call.thy ===== *)
theory Log_Call
  imports Errors Ip
begin

text \<open>
  The calls the daemon makes to its logger: the levels, field values and event structures of
  \<^verbatim>\<open>src/logger.rs\<close>. The daemon's model records the sequence of these calls; what the logger does with
  a call (level filter, rate limit, line format) is in theory \<open>Logger\<close> and concerns the log file only.
\<close>

datatype Level = LError | LWarn | LInfo | LDebug

fun level_num :: "Level \<Rightarrow> nat" where
  "level_num LError = 1"
| "level_num LWarn = 2"
| "level_num LInfo = 3"
| "level_num LDebug = 4"

lemma level_num_inj: "level_num a = level_num b \<Longrightarrow> a = b"
  by (cases a; cases b) simp_all

instantiation Level :: linorder
begin

definition less_eq_Level :: "Level \<Rightarrow> Level \<Rightarrow> bool" where
  "less_eq_Level a b \<longleftrightarrow> level_num a \<le> level_num b"

definition less_Level :: "Level \<Rightarrow> Level \<Rightarrow> bool" where
  "less_Level a b \<longleftrightarrow> level_num a < level_num b"

instance
  by standard (auto simp: less_eq_Level_def less_Level_def intro: level_num_inj)

end

definition Level_parse :: "string \<Rightarrow> (string, Level) res" where
  "Level_parse raw =
     (if raw = ''error'' then Inr LError
      else if raw = ''warn'' then Inr LWarn
      else if raw = ''info'' then Inr LInfo
      else if raw = ''debug'' then Inr LDebug
      else Inl ''must be exactly one of error|warn|info|debug'')"

datatype FieldValue =
    VStr string
  | VBool bool
  | VUsize usize
  | VU64 u64
  | VU32 u32
  | VI32 int
  | VU128 nat
  | VDisplayIp IpAddr
  | VDisplayErr AppError
  | VDisplayText string

type_synonym Field = "string \<times> FieldValue"

datatype log_call =
    LogLine Level string "Field list"
  | LogEvery Level string nat string "Field list"

record RuleBatchEvent =
  rb_batch_id :: u64
  rb_count_input :: usize
  rb_count_add :: usize
  rb_count_del :: usize
  rb_count_noop :: usize
  rb_count_failed :: usize
  rb_duration_ms :: nat

record RuleAckFailedEvent =
  raf_batch_id :: u64
  raf_seq :: u32
  raf_errno :: int
  raf_op_action :: string
  raf_op_addr :: IpAddr
  raf_ext_msg :: "string option"
  raf_ext_offset :: "u32 option"

record NetlinkAddrEvent =
  nae_nlmsg_type :: u32
  nae_nlmsg_seq :: u32
  nae_family :: u32
  nae_ifindex :: int
  nae_addr :: IpAddr
  nae_flags :: u32
  nae_op_action :: string

definition emit_rule_batch :: "RuleBatchEvent \<Rightarrow> log_call" where
  "emit_rule_batch e =
     LogLine LInfo ''rule.batch''
       [(''batch_id'', VU64 (rb_batch_id e)), (''count_input'', VUsize (rb_count_input e)),
        (''count_add'', VUsize (rb_count_add e)), (''count_del'', VUsize (rb_count_del e)),
        (''count_noop'', VUsize (rb_count_noop e)), (''count_failed'', VUsize (rb_count_failed e)),
        (''duration_ms'', VU128 (rb_duration_ms e))]"

definition emit_rule_ack_failed :: "RuleAckFailedEvent \<Rightarrow> log_call" where
  "emit_rule_ack_failed e =
     LogLine LWarn ''rule.ack_failed''
       ([(''batch_id'', VU64 (raf_batch_id e)), (''seq'', VU32 (raf_seq e)), (''errno'', VI32 (raf_errno e)),
         (''op_action'', VStr (raf_op_action e)), (''op_addr'', VDisplayIp (raf_op_addr e))] @
        (case raf_ext_msg e of None \<Rightarrow> [] | Some m \<Rightarrow> [(''ext_msg'', VStr m)]) @
        (case raf_ext_offset e of None \<Rightarrow> [] | Some off \<Rightarrow> [(''ext_offset'', VU32 off)]))"

definition emit_netlink_addr_event :: "NetlinkAddrEvent \<Rightarrow> log_call" where
  "emit_netlink_addr_event e =
     LogLine LDebug ''netlink.addr_event''
       [(''nlmsg_type'', VU32 (nae_nlmsg_type e)), (''nlmsg_seq'', VU32 (nae_nlmsg_seq e)),
        (''family'', VU32 (nae_family e)), (''ifindex'', VI32 (nae_ifindex e)),
        (''addr'', VDisplayIp (nae_addr e)), (''flags'', VU32 (nae_flags e)),
        (''op_action'', VStr (nae_op_action e))]"

end
