(* ===== verification/Addr.thy ===== *)
theory Addr
  imports Rule
begin

text \<open>
  \<^verbatim>\<open>src/netlink/addr.rs\<close>: address events, the ignore filters and the snapshot of the addresses of
  the interfaces.

  The hash map of \<open>CidrMatcher::new\<close> is an association list. Its iteration order does not show: the
  keys are distinct and the buckets are sorted by them afterwards. The bucket matcher is proved
  equal to the prefix test it optimises.
\<close>

unbundle bit_operations_syntax

record AddrEvent =
  ev_op :: RuleOp
  ev_family :: u8
  ev_ifindex :: int
  ev_flags :: u32

record CidrMatcher =
  v4_buckets :: "(u8 \<times> u32 set) list"
  v6_buckets :: "(u8 \<times> u128 set) list"

record IgnoreFilters =
  ip_set :: "IpAddr set"
  cidr_matcher :: CidrMatcher
  flag_mask :: u32

subsection \<open>Filters\<close>

text \<open>Shifts take their amount modulo the width, as the release build does.\<close>

definition mask_v4 :: "u32 \<Rightarrow> u8 \<Rightarrow> u32" where
  "mask_v4 value prefix =
     (if prefix = 0 then 0
      else let mask = push_bit (unat (32 - prefix) mod 32) (- 1) in value AND mask)"

definition mask_v6 :: "u128 \<Rightarrow> u8 \<Rightarrow> u128" where
  "mask_v6 value prefix =
     (if prefix = 0 then 0
      else let mask = push_bit (unat (128 - prefix) mod 128) (- 1) in value AND mask)"

text \<open>\<open>map.entry(k).or_default().insert(v)\<close>.\<close>

fun entry_insert :: "'k \<Rightarrow> 'v \<Rightarrow> ('k \<times> 'v set) list \<Rightarrow> ('k \<times> 'v set) list" where
  "entry_insert k v [] = [(k, {v})]"
| "entry_insert k v ((k', vs) # m) = (if k = k' then (k', insert v vs) # m else (k', vs) # entry_insert k v m)"

fun cidr_maps ::
  "(IpAddr \<times> u8) list \<Rightarrow> (u8 \<times> u32 set) list \<times> (u8 \<times> u128 set) list \<Rightarrow>
     (u8 \<times> u32 set) list \<times> (u8 \<times> u128 set) list" where
  "cidr_maps [] ms = ms"
| "cidr_maps ((IpV4 v4, prefix) # cs) (m4, m6) = cidr_maps cs (entry_insert prefix (mask_v4 v4 prefix) m4, m6)"
| "cidr_maps ((IpV6 v6, prefix) # cs) (m4, m6) =
     cidr_maps cs (m4, entry_insert prefix (mask_v6 (of_be_bytes (ipv6_octets v6)) prefix) m6)"

definition CidrMatcher_new :: "(IpAddr \<times> u8) list \<Rightarrow> CidrMatcher" where
  "CidrMatcher_new cidrs =
     (if cidrs = [] then \<lparr>v4_buckets = [], v6_buckets = []\<rparr>
      else
        let (v4_map, v6_map) = cidr_maps cidrs ([], [])
        in \<lparr>v4_buckets = rev (sort_key fst v4_map), v6_buckets = rev (sort_key fst v6_map)\<rparr>)"

fun CidrMatcher_contains :: "CidrMatcher \<Rightarrow> IpAddr \<Rightarrow> bool" where
  "CidrMatcher_contains m (IpV4 v4) = list_ex (\<lambda>(prefix, bucket). mask_v4 v4 prefix \<in> bucket) (v4_buckets m)"
| "CidrMatcher_contains m (IpV6 v6) =
     (let value = of_be_bytes (ipv6_octets v6)
      in list_ex (\<lambda>(prefix, bucket). mask_v6 value prefix \<in> bucket) (v6_buckets m))"

fun unmap_addr :: "IpAddr \<Rightarrow> IpAddr" where
  "unmap_addr (IpV6 v6) = (case to_ipv4_mapped v6 of Some v4 \<Rightarrow> IpV4 v4 | None \<Rightarrow> IpV6 v6)"
| "unmap_addr (IpV4 v4) = IpV4 v4"

definition IgnoreFilters_new :: "IpAddr list \<Rightarrow> (IpAddr \<times> u8) list \<Rightarrow> u32 \<Rightarrow> IgnoreFilters" where
  "IgnoreFilters_new ignore_ips ignore_cidrs fmask =
     \<lparr>ip_set = fold (\<lambda>ip s. insert (unmap_addr ip) s) ignore_ips {},
      cidr_matcher = CidrMatcher_new ignore_cidrs, flag_mask = fmask\<rparr>"

definition should_ignore_addr :: "IgnoreFilters \<Rightarrow> IpAddr \<Rightarrow> bool" where
  "should_ignore_addr f addr =
     (let addr = unmap_addr addr in
      if addr \<in> ip_set f then True else CidrMatcher_contains (cidr_matcher f) addr)"

fun is_valid_addr :: "IpAddr \<Rightarrow> bool" where
  "is_valid_addr (IpV4 v4) =
     (\<not> ipv4_is_unspecified v4 \<and> \<not> ipv4_is_loopback v4 \<and> \<not> ipv4_is_link_local v4)"
| "is_valid_addr (IpV6 v6) =
     (if ipv6_is_unspecified v6 \<or> ipv6_is_loopback v6 then False
      else \<not> ipv6_is_unicast_link_local v6)"

subsection \<open>Parsing an address message\<close>

definition ifaddr_cb :: "u8 \<Rightarrow> (u32 \<times> RawAddrBuf option) nla_cb" where
  "ifaddr_cb family ty value s =
     (if ty = IFA_ATTR_FLAGS \<and> length value \<ge> 4
      then (Inr (), (of_le_bytes (slice 0 4 value), snd s))
      else if ty = IFA_LOCAL then
        (if uint family = AF_INET then
           (case RawAddrBuf_from_slice value ''ifaddr invalid IFA_ADDRESS length'' of
              Inl e \<Rightarrow> (Inl e, s) | Inr b \<Rightarrow> (Inr (), (fst s, Some b)))
         else (Inr (), s))
      else if ty = IFA_ADDRESS then
        (if uint family \<noteq> AF_INET \<or> snd s = None then
           (case RawAddrBuf_from_slice value ''ifaddr invalid IFA_ADDRESS length'' of
              Inl e \<Rightarrow> (Inl e, s) | Inr b \<Rightarrow> (Inr (), (fst s, Some b)))
         else (Inr (), s))
      else (Inr (), s))"

definition parse_ifaddr_attrs :: "bytes \<Rightarrow> u8 \<Rightarrow> (AppError, u32 \<times> RawAddrBuf) res" where
  "parse_ifaddr_attrs raw family =
     (case parse_nlas (ifaddr_cb family) raw (- 1, None) of
        (Inl e, _) \<Rightarrow> Inl e
      | (Inr _, (flags, addr)) \<Rightarrow>
          (case addr of
             None \<Rightarrow> Inl (Netlink ''ifaddr missing IFA_ADDRESS'')
           | Some addr \<Rightarrow> Inr (flags, addr)))"

definition parse_addr_from_ifaddr ::
  "IfAddrMsg \<Rightarrow> u32 \<Rightarrow> RawAddrBuf \<Rightarrow> bool \<Rightarrow> IgnoreFilters \<Rightarrow> (IpAddr \<times> u32) option" where
  "parse_addr_from_ifaddr ifa flags raw_addr ipv6_enabled filters =
     (if ifa_scope ifa \<noteq> 0 then None
      else if uint (ifa_family ifa) = AF_INET6 \<and> \<not> ipv6_enabled then None
      else
        let flags = (if flags = - 1 then ucast (ifa_flags ifa) else flags) in
        if flag_mask filters \<noteq> 0 \<and> flags AND flag_mask filters \<noteq> 0 then None
        else
          case addr_from_netlink (ifa_family ifa) (RawAddrBuf_as_slice raw_addr) of
            None \<Rightarrow> None
          | Some addr \<Rightarrow>
              let addr = unmap_addr addr in
              if \<not> is_valid_addr addr then None
              else if should_ignore_addr filters addr then None
              else Some (addr, flags))"

definition parse_addr_event ::
  "NetlinkMessageView \<Rightarrow> bool \<Rightarrow> IgnoreFilters \<Rightarrow> (AppError, AddrEvent option) res" where
  "parse_addr_event msg ipv6_enabled filters =
     (if length (nv_data msg) < IFADDRMSG_SIZE then Inr None
      else
        let ifa = read_IfAddrMsg (nv_data msg) in
        res_bind (parse_ifaddr_attrs (drop IFADDRMSG_SIZE (nv_data msg)) (ifa_family ifa))
          (\<lambda>(flags, raw_addr).
             case parse_addr_from_ifaddr ifa flags raw_addr ipv6_enabled filters of
               None \<Rightarrow> Inr None
             | Some (addr, flags) \<Rightarrow>
                 let action = (if nlmsg_type (nv_header msg) = RTM_DELADDR then Delete else Add);
                     ifindex = (if unat (ifa_index ifa) < 2 ^ 31 then uint (ifa_index ifa) else 2 ^ 31 - 1)
                 in Inr (Some \<lparr>ev_op = \<lparr>op_addr = addr, op_action = action\<rparr>, ev_family = ifa_family ifa,
                      ev_ifindex = ifindex, ev_flags = flags\<rparr>)))"

subsection \<open>Snapshot of the interfaces\<close>

definition build_addr_dump_message :: "u8 \<Rightarrow> u32 \<Rightarrow> bytes" where
  "build_addr_dump_message family seq =
     build_netlink_request RTM_GETADDR (NLM_F_REQUEST OR NLM_F_DUMP) seq
       (IfAddrMsg_bytes (zero_IfAddrMsg\<lparr>ifa_family := family\<rparr>))"

definition dump_key :: "bool \<Rightarrow> IgnoreFilters \<Rightarrow> NetlinkMessageView \<Rightarrow> IpKey option" where
  "dump_key ipv6_enabled filters msg =
     (if uint (nlmsg_type (nv_header msg)) \<noteq> uint RTM_NEWADDR then None
      else if length (nv_data msg) < IFADDRMSG_SIZE then None
      else
        let ifa = read_IfAddrMsg (nv_data msg) in
        case parse_ifaddr_attrs (drop IFADDRMSG_SIZE (nv_data msg)) (ifa_family ifa) of
          Inl e \<Rightarrow> None
        | Inr (flags, raw_addr) \<Rightarrow>
            map_option (\<lambda>(addr, _). from_ip addr)
              (parse_addr_from_ifaddr ifa flags raw_addr ipv6_enabled filters))"

definition dump_keys_cb :: "bool \<Rightarrow> IgnoreFilters \<Rightarrow> IpKey list dump_cb" where
  "dump_keys_cb ipv6_enabled filters msg out =
     (Inr (), case dump_key ipv6_enabled filters msg of None \<Rightarrow> out | Some k \<Rightarrow> out @ [k])"

definition dump_interface_keys_family ::
  "SockId \<Rightarrow> u8 \<Rightarrow> bool \<Rightarrow> IgnoreFilters \<Rightarrow> world \<times> IpKey list \<Rightarrow> (AppError + unit) \<times> (world \<times> IpKey list)" where
  "dump_interface_keys_family sid family ipv6_enabled filters st =
     (case st of (w, out) \<Rightarrow>
        let (seq, cell) = next_seq (seq_cell w);
            w = w\<lparr>seq_cell := cell\<rparr>;
            msg = build_addr_dump_message family seq
        in
        (case sock_send sid msg w of
           (Inl e, w') \<Rightarrow> (Inl (AppError_from_io e), (w', out))
         | (Inr _, w') \<Rightarrow> recv_until_done sid seq (dump_keys_cb ipv6_enabled filters) (w', out)))"

definition snapshot_interface_keys_sorted_with_socket_inplace ::
  "SockId \<Rightarrow> bool \<Rightarrow> IgnoreFilters \<Rightarrow> world \<times> IpKey list \<Rightarrow> (AppError + unit) \<times> (world \<times> IpKey list)" where
  "snapshot_interface_keys_sorted_with_socket_inplace sid ipv6_enabled filters st =
     (case dump_interface_keys_family sid (word_of_int AF_INET) ipv6_enabled filters (fst st, []) of
        (Inl e, st1) \<Rightarrow> (Inl e, st1)
      | (Inr _, st1) \<Rightarrow>
          (case (if ipv6_enabled
                 then dump_interface_keys_family sid (word_of_int AF_INET6) ipv6_enabled filters st1
                 else (Inr (), st1)) of
             (Inl e, st2) \<Rightarrow> (Inl e, st2)
           | (Inr _, st2) \<Rightarrow> (Inr (), (fst st2, sort_dedup (snd st2)))))"


lemma dump_interface_keys_family_other:
  assumes "dump_interface_keys_family sid fam v6 f st = (r, st')" "i \<noteq> sid"
  shows "socks (fst st') i = socks (fst st) i"
proof -
  obtain w out where st: "st = (w, out)" by fastforce
  obtain q cell where q: "next_seq (seq_cell w) = (q, cell)" by fastforce
  obtain p w1 where sd: "sock_send sid (build_addr_dump_message fam q) (w\<lparr>seq_cell := cell\<rparr>) = (p, w1)" by fastforce
  have "socks w1 i = socks w i"
    using sd assms(2) by (auto simp: sock_send_def upd_sock_def split: list.splits sum.splits)
  with assms st q sd show ?thesis
    by (cases p) (auto simp: dump_interface_keys_family_def dest: recv_until_done_other)
qed

lemma snapshot_other:
  assumes "snapshot_interface_keys_sorted_with_socket_inplace sid v6 f st = (r, st')" "i \<noteq> sid"
  shows "socks (fst st') i = socks (fst st) i"
  using assms dump_interface_keys_family_other [OF _ assms(2)]
  by (auto simp: snapshot_interface_keys_sorted_with_socket_inplace_def split: prod.splits sum.splits if_splits)

subsection \<open>The bucket matcher is the prefix test\<close>

text \<open>An address is covered by a network when their leading \<open>prefix\<close> bits agree.\<close>

fun cidr_covers :: "IpAddr \<times> u8 \<Rightarrow> IpAddr \<Rightarrow> bool" where
  "cidr_covers (IpV4 net, p) (IpV4 a) \<longleftrightarrow> drop_bit (32 - unat p) a = drop_bit (32 - unat p) net"
| "cidr_covers (IpV6 net, p) (IpV6 a) \<longleftrightarrow> drop_bit (128 - unat p) a = drop_bit (128 - unat p) net"
| "cidr_covers _ _ \<longleftrightarrow> False"

fun cidr_ok :: "IpAddr \<times> u8 \<Rightarrow> bool" where
  "cidr_ok (IpV4 _, p) \<longleftrightarrow> p \<le> 32"
| "cidr_ok (IpV6 _, p) \<longleftrightarrow> p \<le> 128"

lemma and_mask_eq_iff:
  "(v AND NOT (mask k)) = (n AND NOT (mask k)) \<longleftrightarrow> drop_bit k v = drop_bit k (n :: 'a::len word)"
proof -
  have m: "x AND NOT (mask k) = push_bit k (drop_bit k x)" for x :: "'a word"
    by (rule and_not_mask)
  have "drop_bit k (push_bit k (drop_bit k x)) = drop_bit k x" for x :: "'a word"
    by (rule bit_word_eqI) (auto simp: bit_simps dest: bit_imp_le_length)
  with m show ?thesis by metis
qed

lemma drop_bit_all: "LENGTH('a) \<le> k \<Longrightarrow> drop_bit k (v :: 'a::len word) = 0"
  by (rule bit_word_eqI) (auto simp: bit_simps dest: bit_imp_le_length)

lemma unat_sub_prefix:
  fixes p c :: u8
  assumes "p \<le> c"
  shows "unat (c - p) = unat c - unat p"
  using assms by (simp add: unat_sub_if' word_le_nat_alt)

lemma mask_v4_eq_iff:
  assumes "p \<le> 32"
  shows "mask_v4 v p = mask_v4 n p \<longleftrightarrow> drop_bit (32 - unat p) v = drop_bit (32 - unat p) n"
proof (cases "p = 0")
  case True
  then show ?thesis by (simp add: mask_v4_def drop_bit_all)
next
  case False
  then have "0 < unat p" by (simp add: unat_gt_0)
  then have "unat (32 - p) mod 32 = 32 - unat p" using unat_sub_prefix [OF assms] by simp
  with False show ?thesis by (simp add: mask_v4_def and_mask_eq_iff)
qed

lemma mask_v6_eq_iff:
  assumes "p \<le> 128"
  shows "mask_v6 v p = mask_v6 n p \<longleftrightarrow> drop_bit (128 - unat p) v = drop_bit (128 - unat p) n"
proof (cases "p = 0")
  case True
  then show ?thesis by (simp add: mask_v6_def drop_bit_all)
next
  case False
  then have "0 < unat p" by (simp add: unat_gt_0)
  then have "unat (128 - p) mod 128 = 128 - unat p" using unat_sub_prefix [OF assms] by simp
  with False show ?thesis by (simp add: mask_v6_def and_mask_eq_iff)
qed

lemma list_ex_entry_insert:
  "list_ex (\<lambda>(p, b). f p \<in> b) (entry_insert k v m) \<longleftrightarrow> f k = v \<or> list_ex (\<lambda>(p, b). f p \<in> b) m"
  by (induction k v m rule: entry_insert.induct) auto

lemma cidr_maps_ex:
  "list_ex (\<lambda>(p, b). f p \<in> b) (fst (cidr_maps cs ms)) \<longleftrightarrow>
     list_ex (\<lambda>(p, b). f p \<in> b) (fst ms) \<or> (\<exists>n p. (IpV4 n, p) \<in> set cs \<and> f p = mask_v4 n p)"
  "list_ex (\<lambda>(p, b). g p \<in> b) (snd (cidr_maps cs ms)) \<longleftrightarrow>
     list_ex (\<lambda>(p, b). g p \<in> b) (snd ms) \<or> (\<exists>n p. (IpV6 n, p) \<in> set cs \<and> g p = mask_v6 n p)"
  by (induction cs ms rule: cidr_maps.induct) (auto simp: list_ex_entry_insert ipv6_octets_def)

lemma list_ex_sorted [simp]: "list_ex P (sort_key f xs) = list_ex P xs"
  by (simp add: list_ex_iff)

lemma cidr_covers_mask:
  "cidr_ok c \<Longrightarrow> cidr_covers c (IpV4 v) \<longleftrightarrow> (\<exists>n p. c = (IpV4 n, p) \<and> mask_v4 v p = mask_v4 n p)"
  "cidr_ok c \<Longrightarrow> cidr_covers c (IpV6 w) \<longleftrightarrow> (\<exists>n p. c = (IpV6 n, p) \<and> mask_v6 w p = mask_v6 n p)"
  by (cases c rule: cidr_ok.cases; simp add: mask_v4_eq_iff mask_v6_eq_iff)+

lemma CidrMatcher_contains_iff:
  assumes "list_all cidr_ok cs"
  shows "CidrMatcher_contains (CidrMatcher_new cs) a \<longleftrightarrow> (\<exists>c \<in> set cs. cidr_covers c a)"
proof (cases a)
  case (IpV4 v)
  have "CidrMatcher_contains (CidrMatcher_new cs) a \<longleftrightarrow>
      (\<exists>n p. (IpV4 n, p) \<in> set cs \<and> mask_v4 v p = mask_v4 n p)"
    using cidr_maps_ex(1) [of "mask_v4 v" cs "([], [])"]
    by (cases "cidr_maps cs ([], [])") (simp add: IpV4 CidrMatcher_new_def)
  also have "\<dots> \<longleftrightarrow> (\<exists>c \<in> set cs. cidr_covers c a)"
    using assms cidr_covers_mask(1) unfolding IpV4 list_all_iff by blast
  finally show ?thesis .
next
  case (IpV6 v)
  have "CidrMatcher_contains (CidrMatcher_new cs) a \<longleftrightarrow>
      (\<exists>n p. (IpV6 n, p) \<in> set cs \<and> mask_v6 v p = mask_v6 n p)"
    using cidr_maps_ex(2) [of "mask_v6 v" cs "([], [])"]
    by (cases "cidr_maps cs ([], [])") (simp add: IpV6 CidrMatcher_new_def ipv6_octets_def)
  also have "\<dots> \<longleftrightarrow> (\<exists>c \<in> set cs. cidr_covers c a)"
    using assms cidr_covers_mask(2) unfolding IpV6 list_all_iff by blast
  finally show ?thesis .
qed

lemma fold_insert_set: "fold (\<lambda>x s. insert (f x) s) xs S = f ` set xs \<union> S"
  by (induction xs arbitrary: S) auto

lemma unmap_unmap [simp]: "unmap_addr (unmap_addr a) = unmap_addr a"
  by (cases a) (simp_all split: option.split)

lemma should_ignore_addr_iff:
  assumes "list_all cidr_ok cidrs"
  shows "should_ignore_addr (IgnoreFilters_new ips cidrs m) a \<longleftrightarrow>
    unmap_addr a \<in> unmap_addr ` set ips \<or> (\<exists>c \<in> set cidrs. cidr_covers c (unmap_addr a))"
  using CidrMatcher_contains_iff [OF assms]
  by (simp add: should_ignore_addr_def IgnoreFilters_new_def fold_insert_set Let_def)

text \<open>A network of IPv4-mapped addresses covers no address the filter ever asks about.\<close>

lemma mapped_cidr_never_covers:
  assumes "to_ipv4_mapped net \<noteq> None" "96 \<le> p" "p \<le> 128"
  shows "\<not> cidr_covers (IpV6 net, p) (unmap_addr a)"
proof (cases "unmap_addr a")
  case (IpV4 v)
  then show ?thesis by simp
next
  case (IpV6 v)
  have n: "drop_bit 32 net = 0xffff" using assms(1) by (simp add: to_ipv4_mapped_def split: if_splits)
  have v: "drop_bit 32 v \<noteq> 0xffff"
    using IpV6 by (cases a) (auto simp: to_ipv4_mapped_def split: if_splits option.splits)
  have "128 - unat p \<le> 32" using assms(2) by (simp add: word_le_nat_alt)
  then obtain j where j: "32 = j + (128 - unat p)" by (metis add.commute le_add_diff_inverse)
  show ?thesis
  proof
    assume "cidr_covers (IpV6 net, p) (unmap_addr a)"
    then have "drop_bit j (drop_bit (128 - unat p) v) = drop_bit j (drop_bit (128 - unat p) net)"
      using IpV6 by simp
    then have "drop_bit 32 v = drop_bit 32 net" by (simp add: j)
    with n v show False by simp
  qed
qed

subsection \<open>What an address message says\<close>

definition ifaddr_attrs_ok :: "(u16 \<times> bytes) list \<Rightarrow> bool" where
  "ifaddr_attrs_ok as \<longleftrightarrow>
     list_all (\<lambda>(t, v). t = IFA_LOCAL \<or> t = IFA_ADDRESS \<longrightarrow> 0 < length v \<and> length v \<le> 16) as"

definition ifaddr_pick :: "u8 \<Rightarrow> (u16 \<times> bytes) list \<Rightarrow> bytes option \<Rightarrow> bytes option" where
  "ifaddr_pick family as d =
     (if uint family = AF_INET
      then (case last_raw IFA_LOCAL as None of
              Some v \<Rightarrow> Some v
            | None \<Rightarrow> (case d of Some v \<Rightarrow> Some v | None \<Rightarrow> map_of as IFA_ADDRESS))
      else last_raw IFA_ADDRESS as d)"

lemma last_raw_cases: "last_raw ty as d = (case last_raw ty as None of None \<Rightarrow> d | Some v \<Rightarrow> Some v)"
proof (induction ty as d rule: last_raw.induct)
  case (2 ty t v as d)
  then show ?case by (cases "t = ty") (simp_all split: option.splits)
qed simp

lemma raw_of_slice:
  assumes "0 < length v" "length v \<le> 16"
  shows "\<exists>b. RawAddrBuf_from_slice v msg = Inr b \<and> RawAddrBuf_as_slice b = v"
proof -
  have "\<exists>b. RawAddrBuf_from_slice v msg = Inr b"
    using assms by (simp add: RawAddrBuf_from_slice_Inr)
  then show ?thesis using RawAddrBuf_roundtrip by blast
qed

lemma run_ifaddr:
  assumes "ifaddr_attrs_ok as"
  shows "\<exists>b. run_nlas (ifaddr_cb family) as (flags, buf) =
      (Inr (), (the (last_u32 IFA_ATTR_FLAGS as (Some flags)), b)) \<and>
    map_option RawAddrBuf_as_slice b = ifaddr_pick family as (map_option RawAddrBuf_as_slice buf)"
  using assms
proof (induction as arbitrary: flags buf)
  case Nil
  show ?case by (simp add: ifaddr_pick_def split: option.split)
next
  case (Cons a as)
  obtain t v where a: "a = (t, v)" by fastforce
  have ok: "ifaddr_attrs_ok as" using Cons.prems by (simp add: ifaddr_attrs_ok_def)
  show ?case
  proof (cases "t = IFA_LOCAL \<or> t = IFA_ADDRESS")
    case True
    then obtain b where b: "RawAddrBuf_from_slice v ''ifaddr invalid IFA_ADDRESS length'' = Inr b"
      "RawAddrBuf_as_slice b = v"
      using raw_of_slice Cons.prems a by (force simp: ifaddr_attrs_ok_def)
    show ?thesis
      using Cons.IH [OF ok, of flags "Some b"] Cons.IH [OF ok, of flags buf] True a b
        last_raw_cases [of IFA_LOCAL as "Some v"]
      by (cases buf) (auto simp: ifaddr_cb_def ifaddr_pick_def split: option.splits)
  next
    case False
    show ?thesis
    proof (cases "t = IFA_ATTR_FLAGS \<and> 4 \<le> length v")
      case True
      then have "ifaddr_cb family t v (flags, buf) = (Inr (), (of_le_bytes (take 4 v), buf))"
        by (simp add: ifaddr_cb_def slice_def)
      then show ?thesis
        using Cons.IH [OF ok, of "of_le_bytes (take 4 v)" buf] a False True
        by (auto simp: ifaddr_pick_def split: option.split)
    next
      case noflags: False
      then have "ifaddr_cb family t v (flags, buf) = (Inr (), (flags, buf))"
        using False by (auto simp: ifaddr_cb_def)
      then show ?thesis
        using Cons.IH [OF ok, of flags buf] a False noflags by (auto simp: ifaddr_pick_def split: option.split)
    qed
  qed
qed

lemma parse_ifaddr_attrs_enc:
  assumes "list_all nla_fits as" "ifaddr_attrs_ok as" "ifaddr_pick family as None = Some raw"
  shows "\<exists>b. parse_ifaddr_attrs (enc_nlas as) family =
      Inr (the (last_u32 IFA_ATTR_FLAGS as (Some (- 1))), b) \<and> RawAddrBuf_as_slice b = raw"
proof -
  obtain b where "run_nlas (ifaddr_cb family) as (- 1, None) =
      (Inr (), (the (last_u32 IFA_ATTR_FLAGS as (Some (- 1))), b))"
    "map_option RawAddrBuf_as_slice b = Some raw"
    using run_ifaddr [OF assms(2), of family "- 1" None] assms(3) by auto
  then show ?thesis
    by (auto simp: parse_ifaddr_attrs_def parse_nlas_enc_nlas [OF assms(1)])
qed

text \<open>The address an interface message announces, as the specification the parser implements.\<close>

definition announced ::
  "bool \<Rightarrow> IgnoreFilters \<Rightarrow> IfAddrMsg \<Rightarrow> (u16 \<times> bytes) list \<Rightarrow> (IpAddr \<times> u32) option" where
  "announced ipv6_enabled filters ifa as =
     (let flags = the (last_u32 IFA_ATTR_FLAGS as (Some (- 1)));
          flags = (if flags = - 1 then ucast (ifa_flags ifa) else flags)
      in case ifaddr_pick (ifa_family ifa) as None of
           None \<Rightarrow> None
         | Some raw \<Rightarrow>
             (case addr_from_netlink (ifa_family ifa) raw of
                None \<Rightarrow> None
              | Some a \<Rightarrow>
                  if ifa_scope ifa = 0 \<and> (uint (ifa_family ifa) = AF_INET6 \<longrightarrow> ipv6_enabled) \<and>
                     flags AND flag_mask filters = 0 \<and> is_valid_addr (unmap_addr a) \<and>
                     \<not> should_ignore_addr filters a
                  then Some (unmap_addr a, flags) else None))"

lemma should_ignore_unmap: "should_ignore_addr f (unmap_addr a) = should_ignore_addr f a"
  by (simp add: should_ignore_addr_def)

lemma parse_addr_from_ifaddr_announced:
  assumes "ifaddr_pick (ifa_family ifa) as None = Some (RawAddrBuf_as_slice b)"
  shows "parse_addr_from_ifaddr ifa (the (last_u32 IFA_ATTR_FLAGS as (Some (- 1)))) b v6 f =
    announced v6 f ifa as"
  unfolding parse_addr_from_ifaddr_def announced_def assms Let_def option.case should_ignore_unmap
  by (cases "addr_from_netlink (ifa_family ifa) (RawAddrBuf_as_slice b)") auto

lemma dump_key_announced:
  assumes "nv_data msg = IfAddrMsg_bytes ifa @ enc_nlas as" "list_all nla_fits as" "ifaddr_attrs_ok as"
    "ifaddr_pick (ifa_family ifa) as None \<noteq> None"
  shows "dump_key v6 f msg =
    (if nlmsg_type (nv_header msg) = RTM_NEWADDR
     then map_option (\<lambda>(a, _). from_ip a) (announced v6 f ifa as) else None)"
proof -
  obtain raw where raw: "ifaddr_pick (ifa_family ifa) as None = Some raw" using assms(4) by blast
  obtain b where b: "parse_ifaddr_attrs (enc_nlas as) (ifa_family ifa) =
      Inr (the (last_u32 IFA_ATTR_FLAGS as (Some (- 1))), b)" "RawAddrBuf_as_slice b = raw"
    using parse_ifaddr_attrs_enc [OF assms(2,3) raw] by blast
  have "uint (nlmsg_type (nv_header msg)) = uint (20 :: u16) \<longleftrightarrow> nlmsg_type (nv_header msg) = 20"
    by (rule word_uint_eq_iff [symmetric])
  then show ?thesis
    using parse_addr_from_ifaddr_announced [of ifa as b v6 f] raw b assms(1)
    by (simp add: dump_key_def)
qed

lemma parse_addr_event_announced:
  assumes "nv_data msg = IfAddrMsg_bytes ifa @ enc_nlas as" "list_all nla_fits as" "ifaddr_attrs_ok as"
    "ifaddr_pick (ifa_family ifa) as None \<noteq> None"
  shows "\<exists>idx. parse_addr_event msg v6 f = Inr (map_option
      (\<lambda>(a, flags). \<lparr>ev_op = \<lparr>op_addr = a,
            op_action = (if nlmsg_type (nv_header msg) = RTM_DELADDR then Delete else Add)\<rparr>,
         ev_family = ifa_family ifa, ev_ifindex = idx, ev_flags = flags\<rparr>) (announced v6 f ifa as))"
proof -
  obtain raw where raw: "ifaddr_pick (ifa_family ifa) as None = Some raw" using assms(4) by blast
  obtain b where b: "parse_ifaddr_attrs (enc_nlas as) (ifa_family ifa) =
      Inr (the (last_u32 IFA_ATTR_FLAGS as (Some (- 1))), b)" "RawAddrBuf_as_slice b = raw"
    using parse_ifaddr_attrs_enc [OF assms(2,3) raw] by blast
  show ?thesis
    using parse_addr_from_ifaddr_announced [of ifa as b v6 f] raw b assms(1)
    by (auto simp: parse_addr_event_def split: option.split)
qed

subsection \<open>The snapshot\<close>

definition keys_of :: "bool \<Rightarrow> IgnoreFilters \<Rightarrow> u32 \<Rightarrow> bytes list list \<Rightarrow> IpKey list" where
  "keys_of v6 f seq bs =
     List.map_filter (dump_key v6 f) (filter (dump_payload seq) (concat (map batch_views bs)))"

text \<open>The answer to one dump request: batches that fit the ring, the last of which ends the dump.\<close>

definition dump_answer :: "u32 \<Rightarrow> bytes list list \<Rightarrow> bool" where
  "dump_answer seq bs \<longleftrightarrow>
     bs \<noteq> [] \<and> list_all (good_batch seq) bs \<and>
     list_all (\<lambda>b. \<not> list_ex (dump_end seq) (batch_views b)) (butlast bs) \<and>
     list_ex (dump_end seq) (batch_views (last bs))"

lemma fold_dump_keys:
  "fold (\<lambda>m out. case g m of None \<Rightarrow> out | Some k \<Rightarrow> out @ [k]) ms out = out @ List.map_filter g ms"
  by (induction ms arbitrary: out) (simp_all add: map_filter_simps split: option.split)

lemma recv_until_done_answer:
  assumes cb: "\<And>m s. cb m s = (Inr (), f m s)" and ans: "dump_answer seq bs"
    and sc: "rx_script (socks w sid) = map RecvOk bs @ rest"
  shows "\<exists>w'. recv_until_done sid seq cb (w, s) =
      (Inr (), (w', fold f (filter (dump_payload seq) (concat (map batch_views bs))) s)) \<and>
    rx_script (socks w' sid) = rest \<and> seq_cell w' = seq_cell w \<and> tx_script (socks w' sid) = tx_script (socks w sid) \<and>
    tx_log (socks w' sid) = tx_log (socks w sid)"
proof -
  let ?w = "snd (instant_now w)"
  have bs: "butlast bs @ [last bs] = bs" using ans by (simp add: dump_answer_def)
  have g: "list_all (good_batch seq) (butlast bs @ [last bs])"
    using ans unfolding bs by (simp add: dump_answer_def)
  have "recv_loop (fst (instant_now w) + DUMP_WAIT_TIMEOUT) sid seq cb (?w, s) =
      (Inr (), (upd_sock sid (\<lambda>s. s\<lparr>rx_script := rest\<rparr>) ?w,
        fold f (filter (dump_payload seq) (concat (map batch_views (butlast bs @ [last bs])))) s))"
    using sc ans by (intro recv_loop_dump [OF cb _ g]) (simp_all add: bs dump_answer_def)
  then show ?thesis
    unfolding bs by (simp add: recv_until_done_def case_prod_beta upd_sock_def)
qed

lemma sock_send_ok:
  assumes "tx_script (socks w sid) = []"
  shows "sock_send sid d w = (Inr (), upd_sock sid (\<lambda>s. s\<lparr>tx_log := tx_log s @ [d]\<rparr>) w)"
  using assms by (simp add: sock_send_def)

text \<open>The bytes of a request for all addresses of a family.\<close>

definition addr_request :: "u8 \<Rightarrow> u32 \<Rightarrow> bytes" where
  "addr_request family seq =
     nlmsghdr_bytes \<lparr>nlmsg_len = 24, nlmsg_type = RTM_GETADDR, nlmsg_flags = 0x301, nlmsg_seq = seq, nlmsg_pid = 0\<rparr> @
     family # replicate 7 0"

lemma build_addr_dump_message_bytes: "build_addr_dump_message family seq = addr_request family seq"
  by (simp add: build_addr_dump_message_def addr_request_def build_netlink_request_eq)
    (simp add: IfAddrMsg_bytes_def zero_IfAddrMsg_def le_bytes_def numeral_eq_Suc)

lemma dump_interface_keys_family_answer:
  assumes "tx_script (socks w sid) = []" "rx_script (socks w sid) = map RecvOk bs @ rest"
    "dump_answer (normalize_seq (seq_cell w)) bs"
  shows "\<exists>w'. dump_interface_keys_family sid fam v6 f (w, out) =
      (Inr (), (w', out @ keys_of v6 f (normalize_seq (seq_cell w)) bs)) \<and>
    rx_script (socks w' sid) = rest \<and> seq_cell w' = seq_advance (seq_cell w) 1 \<and>
    tx_script (socks w' sid) = [] \<and>
    tx_log (socks w' sid) = tx_log (socks w sid) @ [addr_request fam (normalize_seq (seq_cell w))]"
proof -
  let ?seq = "normalize_seq (seq_cell w)"
  let ?w = "upd_sock sid (\<lambda>s. s\<lparr>tx_log := tx_log s @ [build_addr_dump_message fam ?seq]\<rparr>)
    (w\<lparr>seq_cell := seq_advance ?seq 1\<rparr>)"
  have adv: "seq_advance ?seq 1 = seq_advance (seq_cell w) 1" by (simp add: seq_advance_def)
  have sc: "rx_script (socks ?w sid) = map RecvOk bs @ rest" using assms(2) by (simp add: upd_sock_def)
  obtain w' where w': "recv_until_done sid ?seq (dump_keys_cb v6 f) (?w, out) =
      (Inr (), (w', out @ keys_of v6 f ?seq bs))"
    "rx_script (socks w' sid) = rest" "seq_cell w' = seq_cell ?w" "tx_script (socks w' sid) = tx_script (socks ?w sid)"
    "tx_log (socks w' sid) = tx_log (socks ?w sid)"
    using recv_until_done_answer [of "dump_keys_cb v6 f", OF dump_keys_cb_def assms(3) sc, where s = out]
    unfolding fold_dump_keys keys_of_def by blast
  show ?thesis
    using w' assms(1) adv
    by (intro exI [of _ w'])
      (simp add: dump_interface_keys_family_def next_seq_def reserve_seq_block_def sock_send_ok upd_sock_def
        build_addr_dump_message_bytes)
qed

lemma snapshot_answer:
  assumes tx: "tx_script (socks w sid) = []"
    and rx: "rx_script (socks w sid) = map RecvOk (bs4 @ (if v6 then bs6 else [])) @ rest"
    and a4: "dump_answer (normalize_seq (seq_cell w)) bs4"
    and a6: "v6 \<Longrightarrow> dump_answer (seq_advance (seq_cell w) 1) bs6"
  shows "\<exists>w'. snapshot_interface_keys_sorted_with_socket_inplace sid v6 f (w, out) =
    (Inr (), (w', sorted_list_of_set
       (set (keys_of v6 f (normalize_seq (seq_cell w)) bs4) \<union>
        (if v6 then set (keys_of v6 f (seq_advance (seq_cell w) 1) bs6) else {})))) \<and>
    tx_log (socks w' sid) = tx_log (socks w sid) @ addr_request 2 (normalize_seq (seq_cell w)) #
      (if v6 then [addr_request 10 (seq_advance (seq_cell w) 1)] else []) \<and>
    rx_script (socks w' sid) = rest"
proof -
  let ?k4 = "keys_of v6 f (normalize_seq (seq_cell w)) bs4"
  have "rx_script (socks w sid) = map RecvOk bs4 @ (map RecvOk (if v6 then bs6 else []) @ rest)"
    using rx by simp
  from dump_interface_keys_family_answer [OF tx this a4, of "word_of_int AF_INET" v6 f "[]"]
  obtain w1 where
    w1: "dump_interface_keys_family sid (word_of_int AF_INET) v6 f (w, []) = (Inr (), (w1, ?k4))"
      "rx_script (socks w1 sid) = map RecvOk (if v6 then bs6 else []) @ rest"
      "seq_cell w1 = seq_advance (seq_cell w) 1" "tx_script (socks w1 sid) = []"
      "tx_log (socks w1 sid) = tx_log (socks w sid) @ [addr_request 2 (normalize_seq (seq_cell w))]"
    by auto
  show ?thesis
  proof (cases v6)
    case False
    with w1 show ?thesis
      by (simp add: snapshot_interface_keys_sorted_with_socket_inplace_def sort_dedup_set)
  next
    case True
    have n: "normalize_seq (seq_cell w1) = seq_advance (seq_cell w) 1" using w1(3) by simp
    have "dump_answer (normalize_seq (seq_cell w1)) bs6" using a6 True n by simp
    moreover have "rx_script (socks w1 sid) = map RecvOk bs6 @ rest" using w1(2) True by simp
    ultimately obtain w2 where
      "dump_interface_keys_family sid (word_of_int AF_INET6) v6 f (w1, ?k4) =
        (Inr (), (w2, ?k4 @ keys_of v6 f (seq_advance (seq_cell w) 1) bs6))" "rx_script (socks w2 sid) = rest"
      "tx_log (socks w2 sid) = tx_log (socks w1 sid) @ [addr_request (word_of_int AF_INET6) (seq_advance (seq_cell w) 1)]"
      using dump_interface_keys_family_answer [OF w1(4), of bs6 rest] unfolding n by blast
    with w1(1,5) True show ?thesis
      by (simp add: snapshot_interface_keys_sorted_with_socket_inplace_def sort_dedup_set)
  qed
qed

subsection \<open>Properties of filters, events and the snapshot\<close>

text \<open>
  C20. The ignore filter is the prefix test it optimises: with every prefix length in range, an address
  is ignored if and only if its unmapped form is in the (unmapped) list of addresses or agrees with one
  of the networks on its leading bits, whatever the order and number of the networks.
\<close>

theorem ignore_filter_exact:
  assumes "list_all cidr_ok cidrs"
  shows "should_ignore_addr (IgnoreFilters_new ips cidrs m) a \<longleftrightarrow>
    unmap_addr a \<in> unmap_addr ` set ips \<or> (\<exists>c \<in> set cidrs. cidr_covers c (unmap_addr a))"
  using assms by (rule should_ignore_addr_iff)

theorem ignore_filter_exact_witness:
  "should_ignore_addr (IgnoreFilters_new [] [(IpV4 0x0A000000, 8), (IpV6 0, 0)] 0) (IpV4 0x0A010203)"
  using ignore_filter_exact [of "[(IpV4 0x0A000000, 8), (IpV6 0, 0)]" "[]" 0 "IpV4 0x0A010203"]
  by (simp add: drop_bit_eq_div)

text \<open>
  A network of IPv4-mapped IPv6 addresses never takes effect: configured on its own it ignores no
  address at all, because addresses are unmapped before they are matched and networks are not.
\<close>

theorem mapped_cidr_ignores_nothing:
  assumes "to_ipv4_mapped net \<noteq> None" "96 \<le> p" "p \<le> 128"
  shows "\<not> should_ignore_addr (IgnoreFilters_new [] [(IpV6 net, p)] m) a"
  using should_ignore_addr_iff [of "[(IpV6 net, p)]" "[]" m a] mapped_cidr_never_covers [OF assms] assms(3)
  by simp

theorem mapped_cidr_ignores_nothing_witness:
  "\<not> should_ignore_addr (IgnoreFilters_new [] [(IpV6 0xFFFF0A000000, 104)] 0) (IpV4 0x0A000001)"
  using mapped_cidr_ignores_nothing [of "0xFFFF0A000000" 104 0 "IpV4 0x0A000001"]
  by (simp add: to_ipv4_mapped_def drop_bit_eq_div)

text \<open>
  C19. An address message is read as specified: for every message with attributes in the kernel's
  layout that carries an address, the event is an addition (a deletion for \<open>RTM_DELADDR\<close>) of the
  announced address, and there is no event exactly when the address is out of scope, of a disabled
  family, flagged, invalid or ignored. The dump reads the same message to the same address.
\<close>

theorem addr_event_exact:
  assumes "nv_data msg = IfAddrMsg_bytes ifa @ enc_nlas as" "list_all nla_fits as" "ifaddr_attrs_ok as"
    "ifaddr_pick (ifa_family ifa) as None \<noteq> None"
  shows "(\<exists>idx. parse_addr_event msg v6 f = Inr (map_option
      (\<lambda>(a, flags). \<lparr>ev_op = \<lparr>op_addr = a,
            op_action = (if nlmsg_type (nv_header msg) = RTM_DELADDR then Delete else Add)\<rparr>,
         ev_family = ifa_family ifa, ev_ifindex = idx, ev_flags = flags\<rparr>) (announced v6 f ifa as))) \<and>
    dump_key v6 f msg =
      (if nlmsg_type (nv_header msg) = RTM_NEWADDR
       then map_option (\<lambda>(a, _). from_ip a) (announced v6 f ifa as) else None)"
  using parse_addr_event_announced [OF assms] dump_key_announced [OF assms] by blast

definition sample_ifa :: IfAddrMsg where
  "sample_ifa = \<lparr>ifa_family = 2, ifa_prefixlen = 24, ifa_flags = 0x80, ifa_scope = 0, ifa_index = 3\<rparr>"

definition sample_attrs :: "(u16 \<times> bytes) list" where
  "sample_attrs = [(IFA_ADDRESS, [10, 0, 0, 9]), (IFA_LOCAL, [10, 0, 0, 1])]"

definition sample_newaddr :: "u32 \<Rightarrow> bytes" where
  "sample_newaddr seq = build_netlink_request RTM_NEWADDR 2 seq (IfAddrMsg_bytes sample_ifa @ enc_nlas sample_attrs)"

lemma sample_announced:
  "announced v6 (IgnoreFilters_new [] [] 0) sample_ifa sample_attrs = Some (IpV4 0x0A000001, 0x80)"
  by (simp add: announced_def sample_ifa_def sample_attrs_def ifaddr_pick_def addr_from_netlink_def ipv4_new_def
      of_be_bytes_def ipv4_is_unspecified_def ipv4_is_loopback_def ipv4_is_link_local_def drop_bit_eq_div
      should_ignore_addr_def IgnoreFilters_new_def CidrMatcher_new_def)

lemma sample_ok: "list_all nla_fits sample_attrs" "ifaddr_attrs_ok sample_attrs"
  "ifaddr_pick (ifa_family sample_ifa) sample_attrs None \<noteq> None"
  by (simp_all add: sample_attrs_def sample_ifa_def nla_fits_def ifaddr_attrs_ok_def ifaddr_pick_def)

theorem addr_event_exact_witness:
  "dump_key False (IgnoreFilters_new [] [] 0)
     \<lparr>nv_header = \<lparr>nlmsg_len = 40, nlmsg_type = RTM_NEWADDR, nlmsg_flags = 2, nlmsg_seq = 1, nlmsg_pid = 0\<rparr>,
      nv_data = IfAddrMsg_bytes sample_ifa @ enc_nlas sample_attrs\<rparr> = Some (V4 0x0A000001)"
  using addr_event_exact [where msg = "\<lparr>nv_header = \<lparr>nlmsg_len = 40, nlmsg_type = RTM_NEWADDR, nlmsg_flags = 2,
      nlmsg_seq = 1, nlmsg_pid = 0\<rparr>, nv_data = IfAddrMsg_bytes sample_ifa @ enc_nlas sample_attrs\<rparr>",
      OF _ sample_ok, of False "IgnoreFilters_new [] [] 0"]
  by (simp add: sample_announced from_ip_eq)

text \<open>
  C18. A snapshot is the sorted, duplicate-free list of the addresses the kernel reported. It asks for the IPv4
  addresses and then, only when IPv6 is enabled, for the IPv6 addresses, with one dump request each under the
  next two sequence numbers; when the requests are answered completely, the result is exactly the set of
  keys of the messages of the answers, in increasing order, and nothing but the answers is taken from the socket.
\<close>

theorem snapshot_exact:
  assumes "tx_script (socks w sid) = []"
    "rx_script (socks w sid) = map RecvOk (bs4 @ (if v6 then bs6 else [])) @ rest"
    "dump_answer (normalize_seq (seq_cell w)) bs4"
    "v6 \<Longrightarrow> dump_answer (seq_advance (seq_cell w) 1) bs6"
  shows "\<exists>w' keys. snapshot_interface_keys_sorted_with_socket_inplace sid v6 f (w, out) = (Inr (), (w', keys)) \<and>
    sorted_wrt (<) keys \<and>
    set keys = set (keys_of v6 f (normalize_seq (seq_cell w)) bs4) \<union>
      (if v6 then set (keys_of v6 f (seq_advance (seq_cell w) 1) bs6) else {}) \<and>
    tx_log (socks w' sid) = tx_log (socks w sid) @ addr_request 2 (normalize_seq (seq_cell w)) #
      (if v6 then [addr_request 10 (seq_advance (seq_cell w) 1)] else []) \<and>
    rx_script (socks w' sid) = rest"
  using snapshot_answer [OF assms] strict_sorted_list_of_set by fastforce

theorem snapshot_exact_witness:
  "\<exists>w'. snapshot_interface_keys_sorted_with_socket_inplace RouteSock False (IgnoreFilters_new [] [] 0)
     (upd_sock RouteSock (\<lambda>s. s\<lparr>rx_script := [RecvOk [sample_newaddr 1], RecvOk [kernel_done 1]]\<rparr>) quiet_world, []) =
   (Inr (), (w', [V4 0x0A000001])) \<and> tx_log (socks w' RouteSock) = [addr_request 2 1]"
proof -
  let ?f = "IgnoreFilters_new [] [] 0"
  let ?w = "upd_sock RouteSock (\<lambda>s. s\<lparr>rx_script := [RecvOk [sample_newaddr 1], RecvOk [kernel_done 1]]\<rparr>) quiet_world"
  let ?bs = "[[sample_newaddr 1], [kernel_done 1]]"
  let ?body = "IfAddrMsg_bytes sample_ifa @ enc_nlas sample_attrs"
  have len: "length ?body = 24" by (simp add: sample_attrs_def nla_align_eq)
  have fr: "nl_frame (sample_newaddr 1)"
    and view: "nv_data (frame_view (sample_newaddr 1)) = ?body"
      "nlmsg_seq (nv_header (frame_view (sample_newaddr 1))) = 1"
      "nlmsg_type (nv_header (frame_view (sample_newaddr 1))) = RTM_NEWADDR"
    using build_netlink_request_frame [of ?body RTM_NEWADDR 2 1] len by (simp_all add: sample_newaddr_def)
  have "length (sample_newaddr 1) = 40"
    using build_netlink_request_eq [of ?body RTM_NEWADDR 2 1] len by (simp add: sample_newaddr_def)
  with frame_batch [OF fr] have b: "recv_batch [sample_newaddr 1]"
      "batch_views [sample_newaddr 1] = [frame_view (sample_newaddr 1)]" by simp_all
  have key: "dump_key False ?f (frame_view (sample_newaddr 1)) = Some (V4 0x0A000001)"
    using dump_key_announced [OF view(1) sample_ok] view(3) by (simp add: sample_announced from_ip_eq)
  have seq: "seq_cell ?w = 1" by (simp add: upd_sock_def quiet_world_def)
  have ans: "dump_answer (normalize_seq (seq_cell ?w)) ?bs"
    unfolding seq
    by (simp add: dump_answer_def good_batch_def b done_batch dump_error_def dump_end_def view normalize_seq_def
        kernel_done_frame)
  have keys: "keys_of False ?f (normalize_seq (seq_cell ?w)) ?bs = [V4 0x0A000001]"
    unfolding seq
    by (simp add: keys_of_def b done_batch dump_payload_def view normalize_seq_def kernel_done_frame key
        map_filter_simps)
  have "tx_script (socks ?w RouteSock) = []"
    "rx_script (socks ?w RouteSock) = map RecvOk (?bs @ (if False then [] else [])) @ []"
    by (simp_all add: upd_sock_def quiet_world_def)
  from snapshot_exact [OF this ans, of ?f "[]"] keys obtain w' ks where
    "snapshot_interface_keys_sorted_with_socket_inplace RouteSock False ?f (?w, []) = (Inr (), (w', ks))"
    "sorted_wrt (<) ks" "set ks = {V4 0x0A000001}"
    "tx_log (socks w' RouteSock) = tx_log (socks ?w RouteSock) @ [addr_request 2 (normalize_seq (seq_cell ?w))]" by auto
  moreover have "ks = [V4 0x0A000001]" using calculation(2,3)
    by (metis sorted_list_of_set_insert_remove strict_sorted_equal finite.emptyI list.set(1) set_simps strict_sorted_iff
        distinct.simps(1) distinct_singleton set_empty sorted_wrt1)
  moreover have "tx_log (socks ?w RouteSock) = []" "normalize_seq (seq_cell ?w) = 1"
    by (simp_all add: upd_sock_def quiet_world_def normalize_seq_def)
  ultimately show ?thesis by auto
qed

end
