(* ===== verification/Config.thy ===== *)
theory Config
  imports Toml Path Log_Call Addr "HOL-Library.Multiset"
begin

text \<open>
  \<^verbatim>\<open>src/config.rs\<close>: the options of the daemon and how they are loaded and validated.

  \<open>Options_load\<close> is split where the code has its comments: one definition per section of the file and one
  for the validation. The file system is an argument (\<open>read_file\<close>, the result of \<open>fs::read_to_string\<close>),
  and so is the order in which the hash maps enumerate their keys (\<open>ks\<close>), which decides only which
  unknown key or section an error names. Paths are texts; durations are nanoseconds.
\<close>

text \<open>The order in which a hash map enumerates its entries: any permutation of them.\<close>

definition hash_order :: "('a list \<Rightarrow> 'a list) \<Rightarrow> bool" where
  "hash_order ho \<longleftrightarrow> (\<forall>xs. mset (ho xs) = mset xs)"

record Options =
  opt_work_dir :: string
  opt_config_path :: string
  opt_log_level :: Level
  opt_ipv6 :: bool
  opt_debounce :: nat
  opt_debounce_max :: nat
  opt_batch_max :: usize
  opt_log_file :: string
  opt_pref :: u32
  opt_table_id :: u32
  opt_ignore_addr_flag_mask :: u32
  opt_ignore_ips :: "IpAddr list"
  opt_ignore_cidrs :: "(IpAddr \<times> u8) list"

definition KNOWN_SECTIONS :: "string list" where
  "KNOWN_SECTIONS = [''daemon'', ''log'', ''rule'', ''filters'']"

subsection \<open>Typed access to a section\<close>

text \<open>Each function removes the key and gives the section without it.\<close>

definition missing_key :: "string \<Rightarrow> string \<Rightarrow> AppError" where
  "missing_key section_name key = Config (''missing required key '' @ section_name @ ''.'' @ key)"

definition take_str :: "toml_section \<Rightarrow> string \<Rightarrow> string \<Rightarrow> (AppError, string \<times> toml_section) res" where
  "take_str sec key section_name =
     (case map_of sec key of
        Some (TStr s) \<Rightarrow> Inr (s, AList.delete key sec)
      | Some _ \<Rightarrow> Inl (Config (section_name @ ''.'' @ key @ '' must be a string''))
      | None \<Rightarrow> Inl (missing_key section_name key))"

definition take_u64 :: "toml_section \<Rightarrow> string \<Rightarrow> string \<Rightarrow> (AppError, nat \<times> toml_section) res" where
  "take_u64 sec key section_name =
     (case map_of sec key of
        Some (TInt n) \<Rightarrow>
          if n \<ge> 0 then Inr (nat n, AList.delete key sec)
          else Inl (Config (section_name @ ''.'' @ key @ '' must be non-negative''))
      | Some _ \<Rightarrow> Inl (Config (section_name @ ''.'' @ key @ '' must be an integer''))
      | None \<Rightarrow> Inl (missing_key section_name key))"

definition take_bool :: "toml_section \<Rightarrow> string \<Rightarrow> string \<Rightarrow> (AppError, bool \<times> toml_section) res" where
  "take_bool sec key section_name =
     (case map_of sec key of
        Some (TBool b) \<Rightarrow> Inr (b, AList.delete key sec)
      | Some _ \<Rightarrow> Inl (Config (section_name @ ''.'' @ key @ '' must be a boolean''))
      | None \<Rightarrow> Inl (missing_key section_name key))"

definition take_array_or_default ::
  "toml_section \<Rightarrow> string \<Rightarrow> string \<Rightarrow> (AppError, string list \<times> toml_section) res" where
  "take_array_or_default sec key section_name =
     (case map_of sec key of
        Some (TArray arr) \<Rightarrow> Inr (arr, AList.delete key sec)
      | Some _ \<Rightarrow> Inl (Config (section_name @ ''.'' @ key @ '' must be an array''))
      | None \<Rightarrow> Inr ([], sec))"

type_synonym key_order = "string list \<Rightarrow> string list"

definition unknown_field :: "string \<Rightarrow> string \<Rightarrow> AppError" where
  "unknown_field key section_name = Config (''unknown field `'' @ key @ ''` in ['' @ section_name @ '']'')"

definition reject_unknown_keys :: "key_order \<Rightarrow> toml_section \<Rightarrow> string \<Rightarrow> (AppError, unit) res" where
  "reject_unknown_keys ks sec section_name =
     (case ks (map fst sec) of [] \<Rightarrow> Inr () | key # _ \<Rightarrow> Inl (unknown_field key section_name))"

definition reject_unknown_keys_with_allowlist ::
  "key_order \<Rightarrow> toml_section \<Rightarrow> string \<Rightarrow> string list \<Rightarrow> (AppError, unit) res" where
  "reject_unknown_keys_with_allowlist ks sec section_name allowlist =
     (case find (\<lambda>key. key \<notin> set allowlist) (ks (map fst sec)) of
        Some key \<Rightarrow> Inl (unknown_field key section_name)
      | None \<Rightarrow> Inr ())"

subsection \<open>Paths\<close>

definition sanitize_work_dir :: "string \<Rightarrow> (AppError, string) res" where
  "sanitize_work_dir path =
     (if path = [] then Inl (Config ''work_dir must not be empty'') else Inr path)"

definition resolve_relative_path :: "string \<Rightarrow> string \<Rightarrow> string \<Rightarrow> (AppError, string) res" where
  "resolve_relative_path path base ctx =
     (if path = [] then Inl (Config (ctx @ '' must not be empty''))
      else if is_absolute path then Inr path
      else Inr (path_join base path))"

definition validate_positive :: "nat \<Rightarrow> string \<Rightarrow> (AppError, unit) res" where
  "validate_positive v key = (if v = 0 then Inl (Config (key @ '' must be positive'')) else Inr ())"

subsection \<open>Filter lists\<close>

definition flag_bit :: "string \<Rightarrow> u32 option" where
  "flag_bit raw =
     (if raw = ''temporary'' then Some IFA_F_TEMPORARY
      else if raw = ''optimistic'' then Some IFA_F_OPTIMISTIC
      else if raw = ''deprecated'' then Some IFA_F_DEPRECATED
      else if raw = ''tentative'' then Some IFA_F_TENTATIVE
      else if raw = ''dadfailed'' then Some IFA_F_DADFAILED
      else if raw = ''stable_privacy'' then Some IFA_F_STABLE_PRIVACY
      else if raw = ''managetempaddr'' then Some IFA_F_MANAGETEMPADDR
      else None)"

fun flag_mask_loop :: "string list \<Rightarrow> u32 \<Rightarrow> string set \<Rightarrow> (AppError, u32) res" where
  "flag_mask_loop [] m seen = Inr m"
| "flag_mask_loop (raw # rest) m seen =
     (if raw = [] then Inl (Config ''filters.ignore_addr_flags must not contain empty value'')
      else
        case flag_bit raw of
          None \<Rightarrow>
            Inl (Config (''filters.ignore_addr_flags invalid value: '' @ raw @
              ''; must be one of temporary|optimistic|deprecated|tentative|dadfailed|stable_privacy|managetempaddr''))
        | Some b \<Rightarrow>
            if raw \<in> seen then Inl (Config (''filters.ignore_addr_flags duplicate value: '' @ raw))
            else flag_mask_loop rest (m OR b) (insert raw seen))"

definition parse_ignore_flag_mask :: "string list \<Rightarrow> (AppError, u32) res" where
  "parse_ignore_flag_mask values = flag_mask_loop values 0 {}"

fun ip_list_loop :: "string list \<Rightarrow> IpAddr list \<Rightarrow> IpAddr set \<Rightarrow> (AppError, IpAddr list) res" where
  "ip_list_loop [] out seen = Inr out"
| "ip_list_loop (raw # rest) out seen =
     (if raw = [] then Inl (Config ''filters.ignore_ips must not contain empty value'')
      else
        case parse_ip raw of
          None \<Rightarrow> Inl (Config (''filters.ignore_ips invalid ip: '' @ raw))
        | Some parsed \<Rightarrow>
            if parsed \<in> seen then Inl (Config (''filters.ignore_ips duplicate ip: '' @ raw))
            else ip_list_loop rest (out @ [parsed]) (insert parsed seen))"

definition parse_ip_list :: "string list \<Rightarrow> (AppError, IpAddr list) res" where
  "parse_ip_list values = ip_list_loop values [] {}"

definition invalid_cidr :: "string \<Rightarrow> AppError" where
  "invalid_cidr raw = Config (''filters.ignore_cidrs invalid cidr: '' @ raw)"

definition parse_cidr :: "string \<Rightarrow> (AppError, IpAddr \<times> u8) res" where
  "parse_cidr raw =
     (case split_once CHR ''/'' raw of
        None \<Rightarrow> Inl (invalid_cidr raw)
      | Some (addr_str, prefix_str) \<Rightarrow>
          (case parse_ip addr_str of
             None \<Rightarrow> Inl (invalid_cidr raw)
           | Some addr \<Rightarrow>
               (case parse_unsigned 256 prefix_str of
                  None \<Rightarrow> Inl (invalid_cidr raw)
                | Some p \<Rightarrow>
                    let prefix = of_nat p :: u8;
                        max_prefix = (case addr of IpV4 _ \<Rightarrow> 32 | IpV6 _ \<Rightarrow> 128)
                    in if prefix > max_prefix then Inl (invalid_cidr raw) else Inr (addr, prefix))))"

fun cidr_list_loop ::
  "string list \<Rightarrow> (IpAddr \<times> u8) list \<Rightarrow> (IpAddr \<times> u8) set \<Rightarrow> (AppError, (IpAddr \<times> u8) list) res" where
  "cidr_list_loop [] out seen = Inr out"
| "cidr_list_loop (raw # rest) out seen =
     (if raw = [] then Inl (Config ''filters.ignore_cidrs must not contain empty value'')
      else
        res_bind (parse_cidr raw) (\<lambda>net.
          if net \<in> seen then Inl (Config (''filters.ignore_cidrs duplicate cidr: '' @ raw))
          else cidr_list_loop rest (out @ [net]) (insert net seen)))"

definition parse_cidr_list :: "string list \<Rightarrow> (AppError, (IpAddr \<times> u8) list) res" where
  "parse_cidr_list values = cidr_list_loop values [] {}"

subsection \<open>Loading\<close>

definition take_section :: "string \<Rightarrow> string \<Rightarrow> TomlTable \<Rightarrow> (AppError, toml_section) res" where
  "take_section cfg name table =
     (case map_of table name of
        Some sec \<Rightarrow> Inr sec
      | None \<Rightarrow> Inl (Config (''parse config failed ('' @ cfg @ ''): missing ['' @ name @ ''] section'')))"

record raw_options =
  raw_ipv6 :: bool
  raw_debounce_ms :: nat
  raw_debounce_max_ms :: nat
  raw_batch_max :: usize
  raw_log_level :: string
  raw_log_file :: string
  raw_pref :: u32
  raw_table_id :: u32
  raw_ignore_addr_flags :: "string list"
  raw_ignore_ips :: "string list"
  raw_ignore_cidrs :: "string list"

definition load_daemon :: "key_order \<Rightarrow> toml_section \<Rightarrow> raw_options \<Rightarrow> (AppError, raw_options) res" where
  "load_daemon ks sec raw =
     res_bind (reject_unknown_keys_with_allowlist ks sec ''daemon''
                 [''ipv6'', ''debounce_ms'', ''debounce_max_ms'', ''batch_max'']) (\<lambda>_.
     res_bind (take_bool sec ''ipv6'' ''daemon'') (\<lambda>(ipv6, sec).
     res_bind (take_u64 sec ''debounce_ms'' ''daemon'') (\<lambda>(debounce_ms, sec).
     res_bind (take_u64 sec ''debounce_max_ms'' ''daemon'') (\<lambda>(debounce_max_ms, sec).
     res_bind (take_u64 sec ''batch_max'' ''daemon'') (\<lambda>(batch_max, sec).
     res_bind (reject_unknown_keys ks sec ''daemon'') (\<lambda>_.
       Inr (raw\<lparr>raw_ipv6 := ipv6, raw_debounce_ms := debounce_ms, raw_debounce_max_ms := debounce_max_ms,
              raw_batch_max := batch_max\<rparr>)))))))"

definition load_log :: "key_order \<Rightarrow> toml_section \<Rightarrow> raw_options \<Rightarrow> (AppError, raw_options) res" where
  "load_log ks sec raw =
     res_bind (reject_unknown_keys_with_allowlist ks sec ''log'' [''level'', ''file'']) (\<lambda>_.
     res_bind (take_str sec ''level'' ''log'') (\<lambda>(level, sec).
     res_bind (take_str sec ''file'' ''log'') (\<lambda>(file, sec).
     res_bind (reject_unknown_keys ks sec ''log'') (\<lambda>_.
       Inr (raw\<lparr>raw_log_level := level, raw_log_file := file\<rparr>)))))"

definition load_rule :: "key_order \<Rightarrow> toml_section \<Rightarrow> raw_options \<Rightarrow> (AppError, raw_options) res" where
  "load_rule ks sec raw =
     res_bind (reject_unknown_keys_with_allowlist ks sec ''rule'' [''pref'', ''table_id'']) (\<lambda>_.
     res_bind (take_u64 sec ''pref'' ''rule'') (\<lambda>(pref, sec).
     res_bind (take_u64 sec ''table_id'' ''rule'') (\<lambda>(table_id, sec).
     res_bind (reject_unknown_keys ks sec ''rule'') (\<lambda>_.
       Inr (raw\<lparr>raw_pref := of_nat pref, raw_table_id := of_nat table_id\<rparr>)))))"

definition load_filters :: "key_order \<Rightarrow> toml_section \<Rightarrow> raw_options \<Rightarrow> (AppError, raw_options) res" where
  "load_filters ks sec raw =
     res_bind (reject_unknown_keys_with_allowlist ks sec ''filters''
                 [''ignore_addr_flags'', ''ignore_ips'', ''ignore_cidrs'']) (\<lambda>_.
     res_bind (take_array_or_default sec ''ignore_addr_flags'' ''filters'') (\<lambda>(flags, sec).
     res_bind (take_array_or_default sec ''ignore_ips'' ''filters'') (\<lambda>(ips, sec).
     res_bind (take_array_or_default sec ''ignore_cidrs'' ''filters'') (\<lambda>(cidrs, sec).
     res_bind (reject_unknown_keys ks sec ''filters'') (\<lambda>_.
       Inr (raw\<lparr>raw_ignore_addr_flags := flags, raw_ignore_ips := ips, raw_ignore_cidrs := cidrs\<rparr>))))))"

definition validate_options :: "string \<Rightarrow> string \<Rightarrow> raw_options \<Rightarrow> (AppError, Options) res" where
  "validate_options work_dir cfg raw =
     res_bind (validate_positive (raw_debounce_ms raw) ''daemon.debounce_ms'') (\<lambda>_.
     res_bind (validate_positive (raw_debounce_max_ms raw) ''daemon.debounce_max_ms'') (\<lambda>_.
     if raw_batch_max raw = 0 then Inl (Config ''daemon.batch_max must be positive'')
     else if raw_pref raw = 0 then Inl (Config ''rule.pref must be positive'')
     else if raw_table_id raw = 0 then Inl (Config ''rule.table_id must be positive'')
     else
     res_bind (case Level_parse (raw_log_level raw) of
                 Inl err \<Rightarrow> Inl (Config (''log.level '' @ err)) | Inr l \<Rightarrow> Inr l) (\<lambda>level.
     res_bind (resolve_relative_path (raw_log_file raw) work_dir ''log.file'') (\<lambda>log_file.
     res_bind (parse_ignore_flag_mask (raw_ignore_addr_flags raw)) (\<lambda>flag_mask.
     res_bind (parse_ip_list (raw_ignore_ips raw)) (\<lambda>ignore_ips.
     res_bind (parse_cidr_list (raw_ignore_cidrs raw)) (\<lambda>ignore_cidrs.
       Inr \<lparr>opt_work_dir = work_dir, opt_config_path = cfg, opt_log_level = level, opt_ipv6 = raw_ipv6 raw,
            opt_debounce = millis (raw_debounce_ms raw),
            opt_debounce_max = millis (max (raw_debounce_max_ms raw) (raw_debounce_ms raw)),
            opt_batch_max = raw_batch_max raw, opt_log_file = log_file, opt_pref = raw_pref raw,
            opt_table_id = raw_table_id raw, opt_ignore_addr_flag_mask = flag_mask, opt_ignore_ips = ignore_ips,
            opt_ignore_cidrs = ignore_cidrs\<rparr>)))))))"

definition raw_zero :: raw_options where
  "raw_zero = \<lparr>raw_ipv6 = False, raw_debounce_ms = 0, raw_debounce_max_ms = 0, raw_batch_max = 0, raw_log_level = [],
     raw_log_file = [], raw_pref = 0, raw_table_id = 0, raw_ignore_addr_flags = [], raw_ignore_ips = [], raw_ignore_cidrs = []\<rparr>"

text \<open>The part of \<open>load\<close> after the file has been parsed.\<close>

definition load_table :: "key_order \<Rightarrow> string \<Rightarrow> string \<Rightarrow> TomlTable \<Rightarrow> (AppError, Options) res" where
  "load_table ks work_dir cfg table =
     (case find (\<lambda>name. name \<notin> set KNOWN_SECTIONS) (ks (map fst table)) of
        Some name \<Rightarrow> Inl (Config (''parse config failed ('' @ cfg @ ''): unknown section ['' @ name @ '']''))
      | None \<Rightarrow>
          res_bind (take_section cfg ''daemon'' table) (\<lambda>sec.
          res_bind (load_daemon ks sec raw_zero) (\<lambda>raw.
          res_bind (take_section cfg ''log'' table) (\<lambda>sec.
          res_bind (load_log ks sec raw) (\<lambda>raw.
          res_bind (take_section cfg ''rule'' table) (\<lambda>sec.
          res_bind (load_rule ks sec raw) (\<lambda>raw.
          res_bind (take_section cfg ''filters'' table) (\<lambda>sec.
          res_bind (load_filters ks sec raw) (\<lambda>raw.
            validate_options work_dir cfg raw)))))))))"

definition Options_load ::
  "key_order \<Rightarrow> (string \<Rightarrow> (io_error, string) res) \<Rightarrow> string \<Rightarrow> string \<Rightarrow> Options outcome" where
  "Options_load ks read_file config_path work_dir =
     out_bind (out_of_res (sanitize_work_dir work_dir)) (\<lambda>work_dir.
     out_bind (out_of_res (resolve_relative_path config_path work_dir ''config path'')) (\<lambda>cfg.
     case read_file cfg of
       Inl err \<Rightarrow> Fails (Config (''read config failed ('' @ cfg @ ''): '' @ io_text err))
     | Inr txt \<Rightarrow>
         (case parse_toml txt of
            Panics \<Rightarrow> Panics
          | Fails err \<Rightarrow> Fails (Config (''parse config failed ('' @ cfg @ ''): '' @ AppError_display err))
          | Returns table \<Rightarrow> out_of_res (load_table ks work_dir cfg table))))"

subsection \<open>What the filter lists guarantee\<close>

lemma flag_mask_loop_bits:
  "flag_mask_loop vs m seen = Inr r \<Longrightarrow>
     (\<forall>v \<in> set vs. flag_bit v \<noteq> None) \<and>
     (\<forall>k. bit r k \<longleftrightarrow> bit m k \<or> (\<exists>v \<in> set vs. \<exists>b. flag_bit v = Some b \<and> bit b k))"
  by (induction vs m seen rule: flag_mask_loop.induct) (auto simp: bit_or_iff split: if_splits option.splits)

lemma ip_list_loop_out:
  "ip_list_loop vs out seen = Inr r \<Longrightarrow> set out = seen \<Longrightarrow> distinct out \<Longrightarrow>
     distinct r \<and> (\<exists>as. r = out @ as \<and> list_all2 (\<lambda>v a. parse_ip v = Some a) vs as)"
proof (induction vs out seen rule: ip_list_loop.induct)
  case (2 raw rest out seen)
  then obtain a where a: "raw \<noteq> []" "parse_ip raw = Some a" "a \<notin> seen" "ip_list_loop rest (out @ [a]) (insert a seen) = Inr r"
    by (auto split: if_splits option.splits)
  from "2.IH" [OF a(1,2,3,4)] "2.prems" a show ?case by fastforce
qed simp

lemma parse_cidr_ok: "parse_cidr raw = Inr net \<Longrightarrow> cidr_ok net"
  by (auto simp: parse_cidr_def Let_def not_less split: option.splits if_splits IpAddr.splits)

lemma cidr_list_loop_out:
  "cidr_list_loop vs out seen = Inr r \<Longrightarrow> set out = seen \<Longrightarrow> distinct out \<Longrightarrow> list_all cidr_ok out \<Longrightarrow>
     distinct r \<and> list_all cidr_ok r \<and> (\<exists>ns. r = out @ ns \<and> list_all2 (\<lambda>v n. parse_cidr v = Inr n) vs ns)"
proof (induction vs out seen rule: cidr_list_loop.induct)
  case (2 raw rest out seen)
  then obtain n where n: "raw \<noteq> []" "parse_cidr raw = Inr n" "n \<notin> seen" "cidr_list_loop rest (out @ [n]) (insert n seen) = Inr r"
    by (auto simp: res_bind_Inr_iff split: if_splits)
  from "2.IH" [OF n(1,3,4)] "2.prems" n parse_cidr_ok [OF n(2)] show ?case by fastforce
qed simp

text \<open>The flags a configuration can name.\<close>

definition all_flags :: u32 where
  "all_flags = IFA_F_TEMPORARY OR IFA_F_OPTIMISTIC OR IFA_F_DEPRECATED OR IFA_F_TENTATIVE OR IFA_F_DADFAILED OR
     IFA_F_STABLE_PRIVACY OR IFA_F_MANAGETEMPADDR"

lemma flag_bit_all: "flag_bit v = Some b \<Longrightarrow> bit b k \<Longrightarrow> bit all_flags k"
  by (auto simp: flag_bit_def all_flags_def bit_or_iff split: if_splits)

lemma parse_ignore_flag_mask_within: "parse_ignore_flag_mask vs = Inr m \<Longrightarrow> m AND NOT all_flags = 0"
proof (rule bit_eqI)
  fix k assume "parse_ignore_flag_mask vs = Inr m"
  then have "bit m k \<Longrightarrow> bit all_flags k"
    using flag_mask_loop_bits [of vs 0 "{}" m] flag_bit_all by (auto simp: parse_ignore_flag_mask_def)
  then show "bit (m AND NOT all_flags) k = bit (0 :: u32) k"
    by (auto simp: bit_and_iff bit_not_iff)
qed

lemma validate_options_ok:
  assumes "validate_options work_dir cfg raw = Inr p"
  shows "0 < opt_debounce p \<and> opt_debounce p \<le> opt_debounce_max p \<and> 0 < opt_batch_max p \<and> opt_pref p \<noteq> 0 \<and> opt_table_id p \<noteq> 0"
    and "distinct (opt_ignore_ips p) \<and> distinct (opt_ignore_cidrs p) \<and> list_all cidr_ok (opt_ignore_cidrs p) \<and>
      opt_ignore_addr_flag_mask p AND NOT all_flags = 0"
    and "opt_log_file p \<noteq> [] \<and> opt_work_dir p = work_dir \<and> opt_config_path p = cfg"
    and "opt_ipv6 p = raw_ipv6 raw \<and> opt_batch_max p = raw_batch_max raw \<and> opt_pref p = raw_pref raw \<and>
      opt_table_id p = raw_table_id raw \<and> opt_debounce p = millis (raw_debounce_ms raw) \<and>
      opt_debounce_max p = millis (max (raw_debounce_max_ms raw) (raw_debounce_ms raw))"
  using assms ip_list_loop_out [of "raw_ignore_ips raw" "[]" "{}" "opt_ignore_ips p"]
    cidr_list_loop_out [of "raw_ignore_cidrs raw" "[]" "{}" "opt_ignore_cidrs p"]
    parse_ignore_flag_mask_within [of "raw_ignore_addr_flags raw" "opt_ignore_addr_flag_mask p"]
  by (auto simp: validate_options_def res_bind_Inr_iff validate_positive_def parse_ip_list_def parse_cidr_list_def
      resolve_relative_path_def path_join_def split: if_splits)

subsection \<open>What is accepted\<close>

lemma hash_order_set: "hash_order ho \<Longrightarrow> set (ho xs) = set xs"
  by (metis hash_order_def set_mset_mset)

lemma reject_allowlist_ok:
  "hash_order ks \<Longrightarrow> reject_unknown_keys_with_allowlist ks sec name allow = Inr u \<Longrightarrow> set (map fst sec) \<subseteq> set allow"
  by (auto simp: reject_unknown_keys_with_allowlist_def find_None_iff hash_order_set split: option.splits)

lemma take_simps:
  "take_bool sec k n = Inr (b, sec') \<longleftrightarrow> map_of sec k = Some (TBool b) \<and> sec' = AList.delete k sec"
  "take_str sec k n = Inr (s, sec') \<longleftrightarrow> map_of sec k = Some (TStr s) \<and> sec' = AList.delete k sec"
  "take_u64 sec k n = Inr (v, sec') \<longleftrightarrow> map_of sec k = Some (TInt (int v)) \<and> sec' = AList.delete k sec"
  by (auto simp: take_bool_def take_str_def take_u64_def split: option.splits TomlValue.splits if_splits)

lemma load_daemon_ok:
  assumes "load_daemon ks sec raw = Inr raw'"
  shows "map_of sec ''ipv6'' = Some (TBool (raw_ipv6 raw')) \<and> map_of sec ''debounce_ms'' = Some (TInt (int (raw_debounce_ms raw'))) \<and>
    map_of sec ''debounce_max_ms'' = Some (TInt (int (raw_debounce_max_ms raw'))) \<and>
    map_of sec ''batch_max'' = Some (TInt (int (raw_batch_max raw')))"
  using assms by (auto simp: load_daemon_def res_bind_Inr_iff take_simps delete_conv')

lemma load_log_ok:
  assumes "load_log ks sec raw = Inr raw'"
  shows "map_of sec ''level'' = Some (TStr (raw_log_level raw')) \<and> map_of sec ''file'' = Some (TStr (raw_log_file raw')) \<and>
    raw_ipv6 raw' = raw_ipv6 raw \<and> raw_batch_max raw' = raw_batch_max raw \<and> raw_debounce_ms raw' = raw_debounce_ms raw \<and>
    raw_debounce_max_ms raw' = raw_debounce_max_ms raw"
  using assms by (auto simp: load_log_def res_bind_Inr_iff take_simps delete_conv')

lemma load_rule_ok:
  assumes "load_rule ks sec raw = Inr raw'"
  shows "\<exists>pref table_id. map_of sec ''pref'' = Some (TInt (int pref)) \<and> map_of sec ''table_id'' = Some (TInt (int table_id)) \<and>
    raw' = raw\<lparr>raw_pref := of_nat pref, raw_table_id := of_nat table_id\<rparr>"
  using assms by (auto simp: load_rule_def res_bind_Inr_iff take_simps delete_conv')

lemma load_filters_ok:
  assumes "load_filters ks sec raw = Inr raw'"
  shows "\<exists>fs is cs. raw' = raw\<lparr>raw_ignore_addr_flags := fs, raw_ignore_ips := is, raw_ignore_cidrs := cs\<rparr>"
  using assms by (auto simp: load_filters_def res_bind_Inr_iff)

lemma load_keys:
  assumes "hash_order ks"
  shows "load_daemon ks sec raw = Inr raw' \<Longrightarrow> set (map fst sec) \<subseteq> {''ipv6'', ''debounce_ms'', ''debounce_max_ms'', ''batch_max''}"
    "load_log ks sec raw = Inr raw' \<Longrightarrow> set (map fst sec) \<subseteq> {''level'', ''file''}"
    "load_rule ks sec raw = Inr raw' \<Longrightarrow> set (map fst sec) \<subseteq> {''pref'', ''table_id''}"
  by (simp_all only: load_daemon_def load_log_def load_rule_def res_bind_Inr_iff list.set [symmetric])
    (blast dest: reject_allowlist_ok [OF assms])+

lemma load_table_validated: "load_table ks work_dir cfg table = Inr p \<Longrightarrow> \<exists>raw. validate_options work_dir cfg raw = Inr p"
  by (auto simp: load_table_def res_bind_Inr_iff split: option.splits)

lemma Options_load_inv:
  assumes "Options_load ks read_file config_path work_dir = Returns p"
  shows "\<exists>body table. read_file (opt_config_path p) = Inr body \<and> parse_toml body = Returns table \<and>
    load_table ks work_dir (opt_config_path p) table = Inr p \<and> work_dir \<noteq> [] \<and> config_path \<noteq> [] \<and>
    opt_config_path p = path_join work_dir config_path"
proof -
  obtain cfg where c: "work_dir \<noteq> []" "resolve_relative_path config_path work_dir ''config path'' = Inr cfg"
    "(case read_file cfg of
       Inl err \<Rightarrow> Fails (Config (''read config failed ('' @ cfg @ ''): '' @ io_text err))
     | Inr body \<Rightarrow> (case parse_toml body of
         Panics \<Rightarrow> Panics | Fails err \<Rightarrow> Fails (Config (''parse config failed ('' @ cfg @ ''): '' @ AppError_display err))
       | Returns table \<Rightarrow> out_of_res (load_table ks work_dir cfg table))) = Returns p"
    using assms by (auto simp: Options_load_def out_bind_Returns_iff sanitize_work_dir_def simp del: append.simps append_Cons split: if_splits)
  obtain body where b: "read_file cfg = Inr body" using c(3) by (cases "read_file cfg") simp_all
  obtain table where t: "parse_toml body = Returns table" "load_table ks work_dir cfg table = Inr p"
    using c(3) b by (cases "parse_toml body") simp_all
  note l = c(1,2) b t
  have "opt_config_path p = cfg" using t(2) load_table_validated validate_options_ok(3) by blast
  moreover have "cfg = path_join work_dir config_path" "config_path \<noteq> []"
    using l(2) by (auto simp: resolve_relative_path_def path_join_def split: if_splits)
  ultimately show ?thesis using l by blast
qed

subsection \<open>A configuration file\<close>

lemmas toml_eval = parse_toml_def toml_line_def insert_key_def strip_comment_def Let_def starts_with_def ends_with_def
  inner_slice_def parse_value_def is_quoted_def parse_i64_def parse_signed_def parse_radix_def to_digit_def parse_array_def
  str_trim_def trim_start_def trim_end_def plain_def str_lines_def

lemmas load_eval = load_table_def load_daemon_def load_log_def load_rule_def load_filters_def validate_options_def
  take_section_def take_u64_def take_bool_def take_str_def take_array_or_default_def reject_unknown_keys_def
  reject_unknown_keys_with_allowlist_def KNOWN_SECTIONS_def validate_positive_def Level_parse_def
  parse_ignore_flag_mask_def parse_ip_list_def parse_cidr_list_def resolve_relative_path_def path_join_def

definition sample_text :: string where
  "sample_text = concat (map (\<lambda>l. l @ [CHR 0x0A])
     [''[daemon]'', ''ipv6 = true'', ''debounce_ms = 500'', ''debounce_max_ms = 100'', ''batch_max = 128'',
      ''[log]'', ''level = '' @ [DQ] @ ''info'' @ [DQ], ''file = '' @ [DQ] @ ''d.log'' @ [DQ],
      ''[rule]'', ''pref = 4294969196'', ''table_id = 254'',
      ''[filters]'', ''ignore_cidrs = ['' @ [DQ] @ ''10.0.0.0/8'' @ [DQ] @ '']''])"

definition sample_table :: TomlTable where
  "sample_table =
     [(''daemon'', [(''ipv6'', TBool True), (''debounce_ms'', TInt 500), (''debounce_max_ms'', TInt 100), (''batch_max'', TInt 128)]),
      (''log'', [(''level'', TStr ''info''), (''file'', TStr ''d.log'')]),
      (''rule'', [(''pref'', TInt 4294969196), (''table_id'', TInt 254)]),
      (''filters'', [(''ignore_cidrs'', TArray [''10.0.0.0/8''])])]"

lemma sample_text_parsed: "parse_toml sample_text = Returns sample_table"
  by (simp add: sample_text_def sample_table_def toml_eval)

lemma sample_cidr: "parse_cidr ''10.0.0.0/8'' = Inr (IpV4 0x0A000000, 8)"
proof -
  have "read_octets 0 (Suc (Suc (Suc (Suc 0)))) ''10.0.0.0'' = Some ([10, 0, 0, 0], [])"
    by (simp add: read_separator_def read_number_def to_digit_def Let_def)
  moreover have "(4 :: nat) = Suc (Suc (Suc (Suc 0)))" by simp
  ultimately have "read_octets 0 4 ''10.0.0.0'' = Some ([10, 0, 0, 0], [])" by (simp only:)
  then have "parse_ip ''10.0.0.0'' = Some (IpV4 0x0A000000)"
    by (simp add: parse_ip_def read_ipv4_addr_def of_be_bytes_def)
  then show ?thesis
    by (simp add: parse_cidr_def parse_radix_def starts_with_def to_digit_def Let_def)
qed

definition sample_options :: Options where
  "sample_options = \<lparr>opt_work_dir = ''/e'', opt_config_path = ''/e/a.toml'', opt_log_level = LInfo, opt_ipv6 = True,
     opt_debounce = millis 500, opt_debounce_max = millis 500, opt_batch_max = 128, opt_log_file = ''/e/d.log'',
     opt_pref = 1900, opt_table_id = 254, opt_ignore_addr_flag_mask = 0, opt_ignore_ips = [],
     opt_ignore_cidrs = [(IpV4 0x0A000000, 8)]\<rparr>"

lemma sample_table_loaded: "load_table id ''/e'' ''/e/a.toml'' sample_table = Inr sample_options"
  by (simp add: load_eval sample_table_def sample_options_def sample_cidr starts_with_def ends_with_def)

lemma sample_loaded: "Options_load id (\<lambda>_. Inr sample_text) ''a.toml'' ''/e'' = Returns sample_options"
  by (simp add: Options_load_def sanitize_work_dir_def resolve_relative_path_def path_join_def starts_with_def
      ends_with_def sample_text_parsed sample_table_loaded)

subsection \<open>Properties\<close>

text \<open>
  C28. Options that load are usable: the debounce time is positive and not above its maximum, batches are
  not empty, priority and table are not zero, ignored addresses and networks are listed once, every
  network has a prefix length its family allows, the flag mask contains only known flags, and the log
  file has a path. What the daemon and its filters assume of the options holds for everything that loads.
\<close>

theorem loaded_options_valid:
  assumes "Options_load ks read_file config_path work_dir = Returns p"
  shows "0 < opt_debounce p \<and> opt_debounce p \<le> opt_debounce_max p \<and> 0 < opt_batch_max p \<and> opt_pref p \<noteq> 0 \<and>
    opt_table_id p \<noteq> 0 \<and> distinct (opt_ignore_ips p) \<and> distinct (opt_ignore_cidrs p) \<and>
    list_all cidr_ok (opt_ignore_cidrs p) \<and> opt_ignore_addr_flag_mask p AND NOT all_flags = 0 \<and>
    opt_log_file p \<noteq> [] \<and> opt_work_dir p = work_dir \<and> opt_config_path p = path_join work_dir config_path"
proof -
  obtain body table where l: "load_table ks work_dir (opt_config_path p) table = Inr p"
    "opt_config_path p = path_join work_dir config_path"
    using Options_load_inv [OF assms] by blast
  then obtain raw where "validate_options work_dir (opt_config_path p) raw = Inr p" using load_table_validated by blast
  from validate_options_ok(1-3) [OF this] l(2) show ?thesis by simp
qed

theorem loaded_options_valid_witness:
  "Options_load id (\<lambda>_. Inr sample_text) ''a.toml'' ''/e'' = Returns sample_options \<and>
   list_all cidr_ok (opt_ignore_cidrs sample_options) \<and> opt_debounce sample_options \<le> opt_debounce_max sample_options"
  using loaded_options_valid [OF sample_loaded] sample_loaded by simp

text \<open>
  C30. The options are what the file says: a configuration that loads has the four known sections and no
  other, no key but the known ones in [daemon], [log] and [rule], and the loaded numbers and switches are those
  of the file, a maximal debounce below the debounce time being raised to it. Priority and table are the
  file's numbers modulo \<open>2 ^ 32\<close>.
\<close>

theorem options_follow_file:
  assumes "Options_load ks read_file config_path work_dir = Returns p" "hash_order ks"
  shows "\<exists>body table d l r f deb deb_max pref table_id. read_file (opt_config_path p) = Inr body \<and> parse_toml body = Returns table \<and>
    set (map fst table) \<subseteq> {''daemon'', ''log'', ''rule'', ''filters''} \<and>
    map_of table ''daemon'' = Some d \<and> map_of table ''log'' = Some l \<and> map_of table ''rule'' = Some r \<and> map_of table ''filters'' = Some f \<and>
    set (map fst d) \<subseteq> {''ipv6'', ''debounce_ms'', ''debounce_max_ms'', ''batch_max''} \<and> set (map fst l) \<subseteq> {''level'', ''file''} \<and>
    set (map fst r) \<subseteq> {''pref'', ''table_id''} \<and>
    map_of d ''ipv6'' = Some (TBool (opt_ipv6 p)) \<and> map_of d ''batch_max'' = Some (TInt (int (opt_batch_max p))) \<and>
    map_of d ''debounce_ms'' = Some (TInt (int deb)) \<and> opt_debounce p = millis deb \<and>
    map_of d ''debounce_max_ms'' = Some (TInt (int deb_max)) \<and> opt_debounce_max p = millis (max deb_max deb) \<and>
    map_of r ''pref'' = Some (TInt (int pref)) \<and> opt_pref p = of_nat pref \<and>
    map_of r ''table_id'' = Some (TInt (int table_id)) \<and> opt_table_id p = of_nat table_id"
proof -
  obtain body table where l: "read_file (opt_config_path p) = Inr body" "parse_toml body = Returns table"
    "load_table ks work_dir (opt_config_path p) table = Inr p"
    using Options_load_inv [OF assms(1)] by blast
  obtain d lg r f raw1 raw2 raw3 raw4 where
    known: "set (map fst table) \<subseteq> {''daemon'', ''log'', ''rule'', ''filters''}" and
    secs: "map_of table ''daemon'' = Some d" "map_of table ''log'' = Some lg" "map_of table ''rule'' = Some r" "map_of table ''filters'' = Some f" and
    loads: "load_daemon ks d raw_zero = Inr raw1" "load_log ks lg raw1 = Inr raw2" "load_rule ks r raw2 = Inr raw3"
      "load_filters ks f raw3 = Inr raw4" "validate_options work_dir (opt_config_path p) raw4 = Inr p"
  proof -
    have "set (map fst table) \<subseteq> {''daemon'', ''log'', ''rule'', ''filters''}"
      using l(3) hash_order_set [OF assms(2)]
      by (auto simp: load_table_def KNOWN_SECTIONS_def find_None_iff split: option.splits)
    then show thesis
      using l(3) that by (auto simp: load_table_def res_bind_Inr_iff take_section_def split: option.splits)
  qed
  obtain pref table_id where pr: "map_of r ''pref'' = Some (TInt (int pref))" "map_of r ''table_id'' = Some (TInt (int table_id))"
    "raw3 = raw2\<lparr>raw_pref := of_nat pref, raw_table_id := of_nat table_id\<rparr>"
    using load_rule_ok [OF loads(3)] by blast
  have keys: "set (map fst d) \<subseteq> {''ipv6'', ''debounce_ms'', ''debounce_max_ms'', ''batch_max''}" "set (map fst lg) \<subseteq> {''level'', ''file''}"
    "set (map fst r) \<subseteq> {''pref'', ''table_id''}"
    using load_keys [OF assms(2)] loads(1-3) by blast+
  have same: "raw_ipv6 raw4 = raw_ipv6 raw1" "raw_batch_max raw4 = raw_batch_max raw1" "raw_debounce_ms raw4 = raw_debounce_ms raw1"
    "raw_debounce_max_ms raw4 = raw_debounce_max_ms raw1" "raw_pref raw4 = of_nat pref" "raw_table_id raw4 = of_nat table_id"
    using load_log_ok [OF loads(2)] pr(3) load_filters_ok [OF loads(4)] by auto
  have vals: "map_of d ''ipv6'' = Some (TBool (opt_ipv6 p))" "map_of d ''batch_max'' = Some (TInt (int (opt_batch_max p)))"
    "map_of d ''debounce_ms'' = Some (TInt (int (raw_debounce_ms raw1)))" "opt_debounce p = millis (raw_debounce_ms raw1)"
    "map_of d ''debounce_max_ms'' = Some (TInt (int (raw_debounce_max_ms raw1)))"
    "opt_debounce_max p = millis (max (raw_debounce_max_ms raw1) (raw_debounce_ms raw1))"
    "opt_pref p = of_nat pref" "opt_table_id p = of_nat table_id"
    using load_daemon_ok [OF loads(1)] validate_options_ok(4) [OF loads(5)] by (simp_all only: same)
  show ?thesis by (intro exI conjI) (fact l(1,2) known secs keys vals pr(1,2))+
qed

theorem options_follow_file_witness:
  "Options_load id (\<lambda>_. Inr sample_text) ''a.toml'' ''/e'' = Returns sample_options \<and>
   (\<exists>table r. parse_toml sample_text = Returns table \<and> map_of table ''rule'' = Some r \<and>
      map_of r ''pref'' = Some (TInt 4294969196)) \<and> opt_pref sample_options = 1900"
proof -
  have ho: "hash_order (id :: key_order)" by (simp add: hash_order_def)
  obtain table r pref where "parse_toml sample_text = Returns table" "map_of table ''rule'' = Some r"
    "map_of r ''pref'' = Some (TInt (int pref))" "opt_pref sample_options = of_nat pref"
    using options_follow_file [OF sample_loaded ho] by auto
  moreover from this have "int pref = 4294969196"
    by (auto simp: sample_text_parsed sample_table_def)
  ultimately show ?thesis using sample_loaded by (auto simp: sample_options_def)
qed

end
