(* ===== verification/Service.thy ===== *)
theory Service
  imports Cleanup Resync_Plan Config "HOL-Library.Multiset"
begin

text \<open>
  \<^verbatim>\<open>src/daemon/service.rs\<close>: the daemon's state.

  \<open>Daemon\<close>, \<open>EventLoopState\<close> and the buffers that every handler receives by reference are one record
  \<open>sys\<close>, built by extension, together with the world; a handler is a function from \<open>sys\<close> to a result
  and \<open>sys\<close>, so the changes made before an early return persist. A hash map is an association list
  with distinct keys and a hash set a set; where the code iterates over a map in hash order, the
  order is an argument \<open>ho\<close>, of which \<open>hash_order\<close> assumes only that it permutes the entries.
  Instants and durations are nanoseconds.
\<close>

abbreviation (input) BATCH_NOOP_LOG_INTERVAL :: nat where "BATCH_NOOP_LOG_INTERVAL \<equiv> secs 5"
abbreviation (input) EVENT_DROP_LOG_INTERVAL :: nat where "EVENT_DROP_LOG_INTERVAL \<equiv> secs 5"
abbreviation (input) MAINTENANCE_OP_BUDGET :: usize where "MAINTENANCE_OP_BUDGET \<equiv> 256"
abbreviation (input) MAINTENANCE_TIME_BUDGET :: nat where "MAINTENANCE_TIME_BUDGET \<equiv> millis 8"
abbreviation (input) STARTUP_CLEANUP_RETRY_LIMIT :: u8 where "STARTUP_CLEANUP_RETRY_LIMIT \<equiv> 3"
abbreviation (input) STARTUP_CLEANUP_RETRY_DELAY :: nat where "STARTUP_CLEANUP_RETRY_DELAY \<equiv> millis 500"
abbreviation (input) ROUTE_DRAIN_MIN_BUDGET :: usize where "ROUTE_DRAIN_MIN_BUDGET \<equiv> 64"
abbreviation (input) ROUTE_DRAIN_DEFAULT_BUDGET :: usize where "ROUTE_DRAIN_DEFAULT_BUDGET \<equiv> 256"
abbreviation (input) ROUTE_DRAIN_MAX_BUDGET :: usize where "ROUTE_DRAIN_MAX_BUDGET \<equiv> 1024"
abbreviation (input) ROUTE_RING_MIN_SLOTS :: usize where "ROUTE_RING_MIN_SLOTS \<equiv> 8"
abbreviation (input) ROUTE_RING_MAX_SLOTS :: usize where "ROUTE_RING_MAX_SLOTS \<equiv> 32"

text \<open>\<open>saturating_add(1)\<close> on \<open>u8\<close> and \<open>saturating_add\<close> on \<open>u64\<close>.\<close>

definition u8_sat_inc :: "u8 \<Rightarrow> u8" where
  "u8_sat_inc x = (if x = - 1 then x else x + 1)"

definition u64_sat_add :: "u64 \<Rightarrow> u64 \<Rightarrow> u64" where
  "u64_sat_add a b = (if unat a + unat b < 2 ^ 64 then a + b else - 1)"

subsection \<open>Data\<close>

datatype CleanupSource = Tracked | Dump

record ApplyResult =
  ar_input :: usize
  ar_noop :: usize
  ar_added :: usize
  ar_deleted :: usize
  ar_failed :: usize
  ar_duration :: nat

record ResyncResult =
  rr_target :: usize
  rr_current :: usize
  rr_add :: usize
  rr_del :: usize
  rr_failed :: usize

datatype InflightOwner = OwnerPending | OwnerMaintenance

record InflightBatch =
  if_batch_id :: u64
  if_started_at :: nat
  if_ack_deadline :: nat
  if_input_count :: usize
  if_noop_prefilter :: usize
  if_first_seq :: u32
  if_tracker :: AckTracker
  if_owner :: InflightOwner
  if_ops :: "RuleOp list"

record CompletedBatch =
  cb_batch_id :: u64
  cb_result :: ApplyResult
  cb_owner :: InflightOwner

record CleanupSummary =
  cs_removed :: usize
  cs_noop :: usize
  cs_failed :: usize

definition CleanupSummary_default :: CleanupSummary where
  "CleanupSummary_default = \<lparr>cs_removed = 0, cs_noop = 0, cs_failed = 0\<rparr>"

datatype MaintenanceJob =
    Idle
  | StartupCleanupDumpCollect (job_family_idx: usize) (job_seq: "u32 option") (job_batch_id: u64)
      (job_summary: CleanupSummary)
  | StartupCleanupDumpApply (job_offset: usize) (job_batch_id: u64) (job_summary: CleanupSummary)
      (job_waiting: "u64 option") (job_next_family_idx: usize)
  | ResyncBuild (job_batch_id: u64)
  | ResyncApply (job_target_idx: usize) (job_current_idx: usize) (job_batch_id: u64)
      (job_metrics: ResyncResult) (job_waiting: "u64 option")
  | CleanupTracked (job_offset: usize) (job_batch_id: u64) (job_summary: CleanupSummary)
      (job_waiting: "u64 option")

subsection \<open>The route budget\<close>

record RouteBudgetState =
  budget_current :: usize
  full_streak :: u8
  low_streak :: u8

definition RouteBudgetState_default :: RouteBudgetState where
  "RouteBudgetState_default = \<lparr>budget_current = ROUTE_DRAIN_DEFAULT_BUDGET, full_streak = 0, low_streak = 0\<rparr>"

definition RouteBudgetState_update :: "usize \<Rightarrow> bool \<Rightarrow> RouteBudgetState \<Rightarrow> RouteBudgetState" where
  "RouteBudgetState_update processed budget_hit b =
     (if budget_hit then
        let b = b\<lparr>full_streak := u8_sat_inc (full_streak b), low_streak := 0\<rparr> in
        if full_streak b \<ge> 2
        then b\<lparr>budget_current := min (min (budget_current b * 2) (2 ^ 64 - 1)) ROUTE_DRAIN_MAX_BUDGET,
               full_streak := 0\<rparr>
        else b
      else
        let low_threshold = max (budget_current b div 4) 1 in
        if processed \<le> low_threshold then
          let b = b\<lparr>low_streak := u8_sat_inc (low_streak b), full_streak := 0\<rparr> in
          if low_streak b \<ge> 8
          then b\<lparr>budget_current := max (budget_current b div 2) ROUTE_DRAIN_MIN_BUDGET, low_streak := 0\<rparr>
          else b
        else b\<lparr>low_streak := 0, full_streak := 0\<rparr>)"

definition route_budget_ok :: "RouteBudgetState \<Rightarrow> bool" where
  "route_budget_ok b \<longleftrightarrow>
     ROUTE_DRAIN_MIN_BUDGET \<le> budget_current b \<and> budget_current b \<le> ROUTE_DRAIN_MAX_BUDGET \<and>
     full_streak b < 2 \<and> low_streak b < 8"

lemma route_budget_default_ok [inv_intros]: "route_budget_ok RouteBudgetState_default"
  by (simp add: route_budget_ok_def RouteBudgetState_default_def)

lemma u8_sat_inc_less: "x < n \<Longrightarrow> u8_sat_inc x \<le> n"
proof -
  assume "x < n"
  then have "unat x + 1 < 2 ^ 8" using unat_less_2p [of n] by (simp add: word_less_nat_alt)
  then have "unat (x + 1) = unat x + 1" by (simp add: unat_word_ariths)
  with \<open>x < n\<close> show ?thesis by (auto simp: u8_sat_inc_def word_less_nat_alt word_le_nat_alt)
qed

lemma RouteBudgetState_update_ok [inv_intros]:
  assumes "route_budget_ok b"
  shows "route_budget_ok (RouteBudgetState_update p h b)"
proof -
  have "u8_sat_inc (full_streak b) \<le> 2" "u8_sat_inc (low_streak b) \<le> 8"
    using assms by (simp_all add: route_budget_ok_def u8_sat_inc_less)
  then show ?thesis
    using assms
    by (auto simp: RouteBudgetState_update_def route_budget_ok_def Let_def min_def max_def not_le)
qed

subsection \<open>The state\<close>

record Daemon =
  opts :: Options
  logged :: "log_call list"
  owned_ips :: "IpKey set"
  rule_ctx :: RuleContext
  filters :: IgnoreFilters
  target_keys :: "IpKey list"
  current_keys :: "IpKey list"
  tracked_keys :: "IpKey list"
  startup_cleanup_keys :: "IpKey list"

record EventLoopState = Daemon +
  pending :: "(IpKey \<times> RuleAction) list"
  quiet_deadline :: "nat option"
  max_deadline :: "nat option"
  inflight :: "InflightBatch option"
  ack_tracker_reuse :: AckTracker
  dropped_count :: u64
  batch_id :: u64
  shutdown_requested :: bool
  resync_requested :: bool
  resync_compensate_pending :: bool
  maintenance :: MaintenanceJob
  shutdown_cleanup_done :: bool
  shutdown_cleanup :: CleanupSummary
  route_budget :: RouteBudgetState
  route_ring_calm_streak :: u8
  completed_batch :: "CompletedBatch option"
  startup_cleanup_pending :: bool
  startup_cleanup_retry_deadline :: "nat option"
  startup_cleanup_retry_count :: u8
  startup_cleanup_started_at :: "nat option"

record sys = EventLoopState +
  wd :: world
  apply_scratch :: ApplyScratch
  cleanup_seen :: "IpAddr set"
  batch_pool :: "RuleOp list list"
  route_slots :: usize

type_synonym 'a handler = "sys \<Rightarrow> (AppError + 'a) \<times> sys"

definition now :: "sys \<Rightarrow> nat \<times> sys" where
  "now s = (case instant_now (wd s) of (t, w) \<Rightarrow> (t, s\<lparr>wd := w\<rparr>))"

definition log :: "log_call \<Rightarrow> sys \<Rightarrow> sys" where
  "log c s = s\<lparr>logged := logged s @ [c]\<rparr>"

text \<open>\<open>batch_pool.pop()\<close> followed by \<open>clear\<close>; a pooled vector is only its capacity.\<close>

definition pool_pop :: "sys \<Rightarrow> RuleOp list \<times> sys" where
  "pool_pop s = ([], s\<lparr>batch_pool := butlast (batch_pool s)\<rparr>)"

definition pool_push :: "RuleOp list \<Rightarrow> sys \<Rightarrow> sys" where
  "pool_push ops s = s\<lparr>batch_pool := batch_pool s @ [ops]\<rparr>"

fun cleanup_source_name :: "CleanupSource \<Rightarrow> string" where
  "cleanup_source_name Tracked = ''tracked''"
| "cleanup_source_name Dump = ''dump''"

fun rule_action_name :: "RuleAction \<Rightarrow> string" where
  "rule_action_name Delete = ''delete''"
| "rule_action_name Add = ''add''"

subsection \<open>Start of the daemon\<close>

definition Daemon_new :: "Options \<Rightarrow> Daemon" where
  "Daemon_new options =
     \<lparr>opts = options, logged = [], owned_ips = {}, rule_ctx = new_rule_context (opt_pref options) (opt_table_id options),
      filters = IgnoreFilters_new (opt_ignore_ips options) (opt_ignore_cidrs options) (opt_ignore_addr_flag_mask options),
      target_keys = [], current_keys = [], tracked_keys = [], startup_cleanup_keys = []\<rparr>"

text \<open>The state the event loop starts in: \<open>EventLoopState\<close> by default with the startup cleanup pending,
  and the buffers \<open>run\<close> allocates.\<close>

definition initial_state :: "Daemon \<Rightarrow> world \<Rightarrow> sys" where
  "initial_state d w =
     \<lparr>opts = opts d, logged = logged d, owned_ips = owned_ips d, rule_ctx = rule_ctx d, filters = filters d,
      target_keys = target_keys d, current_keys = current_keys d, tracked_keys = tracked_keys d,
      startup_cleanup_keys = startup_cleanup_keys d,
      pending = [], quiet_deadline = None, max_deadline = None, inflight = None,
      ack_tracker_reuse = AckTracker_default, dropped_count = 0, batch_id = 0, shutdown_requested = False,
      resync_requested = False, resync_compensate_pending = False, maintenance = Idle,
      shutdown_cleanup_done = False, shutdown_cleanup = CleanupSummary_default,
      route_budget = RouteBudgetState_default, route_ring_calm_streak = 0, completed_batch = None,
      startup_cleanup_pending = True, startup_cleanup_retry_deadline = None, startup_cleanup_retry_count = 0,
      startup_cleanup_started_at = None,
      wd = w, apply_scratch = ApplyScratch_default, cleanup_seen = {}, batch_pool = replicate 8 [],
      route_slots = ROUTE_RING_MIN_SLOTS\<rparr>"

text \<open>
  The drain budget adapts within its bounds: after any sequence of updates starting from the
  default, the budget is between 64 and 1024 packets and the streak counters have not overflowed;
  two full rounds in a row double it.
\<close>

theorem route_budget_bounded:
  "route_budget_ok (fold (\<lambda>(processed, hit). RouteBudgetState_update processed hit) rounds RouteBudgetState_default) \<and>
   budget_current (RouteBudgetState_update q True (RouteBudgetState_update p True
     (b\<lparr>full_streak := 0\<rparr>))) = min (min (budget_current b * 2) (2 ^ 64 - 1)) ROUTE_DRAIN_MAX_BUDGET"
proof -
  have "route_budget_ok b \<Longrightarrow> route_budget_ok (fold (\<lambda>(processed, hit). RouteBudgetState_update processed hit) rounds b)" for b
    by (induction rounds arbitrary: b) (auto simp: RouteBudgetState_update_ok)
  then show ?thesis
    by (simp add: route_budget_default_ok) (simp add: RouteBudgetState_update_def u8_sat_inc_def Let_def word_le_nat_alt)
qed

definition sample_opts :: Options where
  "sample_opts = \<lparr>opt_work_dir = ''/etc/addrsyncd'', opt_config_path = ''/etc/addrsyncd/addrsyncd.toml'',
     opt_log_level = LInfo, opt_ipv6 = True, opt_debounce = millis 100, opt_debounce_max = millis 1000, opt_batch_max = 64,
     opt_log_file = ''/etc/addrsyncd/addrsyncd.log'', opt_pref = 100, opt_table_id = 200, opt_ignore_addr_flag_mask = 0, opt_ignore_ips = [], opt_ignore_cidrs = []\<rparr>"

text \<open>A freshly started daemon in a quiet world, for the evaluation of handlers.\<close>

definition sample_sys :: sys where
  "sample_sys = initial_state (Daemon_new sample_opts) quiet_world"

lemma sample_sys_simps [simp]:
  "opts sample_sys = sample_opts" "owned_ips sample_sys = {}" "pending sample_sys = []" "inflight sample_sys = None"
  "maintenance sample_sys = Idle" "wd sample_sys = quiet_world" "route_slots sample_sys = 8"
  "quiet_deadline sample_sys = None" "max_deadline sample_sys = None" "completed_batch sample_sys = None"
  "route_budget sample_sys = RouteBudgetState_default" "startup_cleanup_retry_count sample_sys = 0"
  "rule_ctx sample_sys = \<lparr>ctx_pref = 100, ctx_table_id = 200\<rparr>" "length (batch_pool sample_sys) = 8"
  "startup_cleanup_pending sample_sys" "shutdown_requested sample_sys = False" "resync_requested sample_sys = False"
  "shutdown_cleanup_done sample_sys = False" "startup_cleanup_retry_deadline sample_sys = None"
  by (simp_all add: sample_sys_def initial_state_def Daemon_new_def sample_opts_def new_rule_context_def)

end
