(* ===== verification/Batch_Apply.thy ===== *)
theory Batch_Apply
  imports Service
begin

text \<open>
  \<^verbatim>\<open>src/daemon/service/batch_apply.rs\<close>: turning pending events into a batch of rule requests,
  collecting the acknowledgements and committing their outcome to the set of owned addresses.
\<close>

record AckCommitCtx =
  cc_batch_id :: u64
  cc_first_seq :: u32
  cc_started_at :: nat
  cc_input_count :: usize
  cc_noop_prefilter :: usize

subsection \<open>Starting a batch\<close>

definition should_skip :: "IpKey set \<Rightarrow> RuleOp \<Rightarrow> bool" where
  "should_skip owned op =
     (let key = from_ip (op_addr op) in
      case op_action op of Add \<Rightarrow> key \<in> owned | Delete \<Rightarrow> key \<notin> owned)"

text \<open>One round of the compaction loop, on the operations, \<open>write_idx\<close> and \<open>noop_prefilter\<close>.\<close>

definition prefilter_step ::
  "IpKey set \<Rightarrow> usize \<Rightarrow> RuleOp list \<times> usize \<times> usize \<Rightarrow> RuleOp list \<times> usize \<times> usize" where
  "prefilter_step owned idx st =
     (case st of (ops, write_idx, noop) \<Rightarrow>
        let op = ops ! idx in
        if should_skip owned op then (ops, write_idx, noop + 1)
        else ((if write_idx \<noteq> idx then ops[write_idx := op] else ops), write_idx + 1, noop))"

definition prefilter :: "IpKey set \<Rightarrow> usize \<Rightarrow> RuleOp list \<Rightarrow> RuleOp list \<times> usize" where
  "prefilter owned noop ops =
     (case fold (prefilter_step owned) [0..<length ops] (ops, 0, noop) of
        (ops', write_idx, noop') \<Rightarrow> (take write_idx ops', noop'))"

definition start_batch ::
  "InflightOwner \<Rightarrow> u64 \<Rightarrow> usize \<Rightarrow> usize \<Rightarrow> RuleOp list \<Rightarrow> bool handler" where
  "start_batch owner bid input_count noop_prefilter ops s =
     (let tracker = ack_tracker_reuse s; s = s\<lparr>ack_tracker_reuse := AckTracker_default\<rparr> in
      case start_apply_rules_batch RuleSock (rule_ctx s) ops (apply_scratch s) tracker (wd s) of
        (Inl err, scratch, tracker, w) \<Rightarrow>
          (Inl err, s\<lparr>apply_scratch := scratch, wd := w, ack_tracker_reuse := tracker\<rparr>)
      | (Inr first_seq, scratch, tracker, w) \<Rightarrow>
          let s = s\<lparr>apply_scratch := scratch, wd := w\<rparr>; (started_at, s) = now s
          in (Inr True, s\<lparr>inflight := Some
               \<lparr>if_batch_id = bid, if_started_at = started_at, if_ack_deadline = started_at + ACK_WAIT_TIMEOUT,
                if_input_count = input_count, if_noop_prefilter = noop_prefilter,
                if_first_seq = first_seq, if_tracker = tracker, if_owner = owner, if_ops = ops\<rparr>\<rparr>))"

definition start_pending_batch ::
  "((IpKey \<times> RuleAction) list \<Rightarrow> (IpKey \<times> RuleAction) list) \<Rightarrow> bool handler" where
  "start_pending_batch ho s =
     (if inflight s \<noteq> None \<or> pending s = [] then (Inr False, s)
      else
        let (ops, s) = pool_pop s;
            take_n = min (opt_batch_max (opts s)) (length (pending s));
            entries = ho (pending s);
            ops = ops @ map (\<lambda>(key, action). \<lparr>op_addr = into_ip key, op_action = action\<rparr>) (take take_n entries);
            s = s\<lparr>pending := drop take_n entries\<rparr>;
            input_count = length ops;
            s = (if pending s \<noteq> []
                 then let (t, s) = now s
                      in s\<lparr>quiet_deadline := Some (t + opt_debounce (opts s)),
                           max_deadline := Some (t + opt_debounce_max (opts s))\<rparr>
                 else s\<lparr>quiet_deadline := None, max_deadline := None\<rparr>)
        in
        if ops = [] then (Inr False, pool_push ops s)
        else
          let noop_prefilter = input_count - length ops;
              (ops, noop_prefilter) = prefilter (owned_ips s) noop_prefilter ops
          in
          if ops = [] then
            (Inr False, pool_push ops
              (log (LogEvery LDebug ''rule_batch_noop_prefilter'' BATCH_NOOP_LOG_INTERVAL
                 ''rule.batch.noop_prefilter''
                 [(''count_input'', VUsize input_count), (''count_noop'', VUsize noop_prefilter)]) s))
          else
            let s = s\<lparr>batch_id := batch_id s + 1\<rparr>
            in start_batch OwnerPending (batch_id s) input_count noop_prefilter ops s)"

definition start_maintenance_batch :: "u64 \<Rightarrow> RuleOp list \<Rightarrow> bool handler" where
  "start_maintenance_batch bid ops s =
     (if inflight s \<noteq> None then (Inr False, s)
      else if ops = [] then (Inr False, s)
      else start_batch OwnerMaintenance bid (length ops) 0 ops s)"

subsection \<open>Committing acknowledgements\<close>

definition ack_failed_timeout :: "u64 \<Rightarrow> u32 \<Rightarrow> RuleOp \<Rightarrow> log_call" where
  "ack_failed_timeout bid seq op =
     emit_rule_ack_failed \<lparr>raf_batch_id = bid, raf_seq = seq, raf_errno = ETIMEDOUT,
       raf_op_action = rule_action_name (op_action op), raf_op_addr = op_addr op,
       raf_ext_msg = None, raf_ext_offset = None\<rparr>"

definition rule_op_debug :: "u64 \<Rightarrow> u32 \<Rightarrow> RuleOp \<Rightarrow> string \<Rightarrow> Field list \<Rightarrow> log_call" where
  "rule_op_debug bid seq op result extra =
     LogLine LDebug ''rule.op''
       ([(''batch_id'', VU64 bid), (''seq'', VU32 seq),
         (''op_action'', VStr (rule_action_name (op_action op))), (''op_addr'', VDisplayIp (op_addr op)),
         (''result'', VStr result)] @ extra)"

record commit_counts =
  cn_add :: usize
  cn_del :: usize
  cn_noop :: usize
  cn_failed :: usize

definition commit_step ::
  "u64 \<Rightarrow> u32 \<Rightarrow> AckTracker \<Rightarrow> usize \<times> RuleOp \<Rightarrow> commit_counts \<times> sys \<Rightarrow> commit_counts \<times> sys" where
  "commit_step bid first_seq tracker iop cs =
     (case (iop, cs) of ((idx, op), (c, s)) \<Rightarrow>
        let seq = seq_with_offset first_seq idx in
        if \<not> seen_at tracker idx then
          (c\<lparr>cn_failed := cn_failed c + 1\<rparr>,
           log (rule_op_debug bid seq op ''timeout'' []) (log (ack_failed_timeout bid seq op) s))
        else
          let status = status_at tracker idx in
          case classify_ack_for_op op status of
            AckOk \<Rightarrow>
              let key = from_ip (op_addr op);
                  (c, s) = (case op_action op of
                              Add \<Rightarrow> (c\<lparr>cn_add := cn_add c + 1\<rparr>, s\<lparr>owned_ips := insert key (owned_ips s)\<rparr>)
                            | Delete \<Rightarrow> (c\<lparr>cn_del := cn_del c + 1\<rparr>, s\<lparr>owned_ips := owned_ips s - {key}\<rparr>))
              in (c, log (rule_op_debug bid seq op ''applied'' []) s)
          | EexistNoop \<Rightarrow> (c\<lparr>cn_noop := cn_noop c + 1\<rparr>, log (rule_op_debug bid seq op ''noop_eexist'' []) s)
          | EnoentNoop \<Rightarrow> (c\<lparr>cn_noop := cn_noop c + 1\<rparr>, log (rule_op_debug bid seq op ''noop_enoent'' []) s)
          | KernelErr \<Rightarrow>
              let c = c\<lparr>cn_failed := cn_failed c + 1\<rparr> in
              (case status of
                 Some st \<Rightarrow>
                   (c, log (rule_op_debug bid seq op ''failed_errno'' [(''errno'', VI32 (st_errno st))])
                        (log (emit_rule_ack_failed \<lparr>raf_batch_id = bid, raf_seq = seq,
                                raf_errno = st_errno st, raf_op_action = rule_action_name (op_action op),
                                raf_op_addr = op_addr op,
                                raf_ext_msg = map_option ExtAckText_as_str (st_ext_msg st),
                                raf_ext_offset = st_ext_offset st\<rparr>) s))
               | None \<Rightarrow>
                   (c, log (LogLine LWarn ''rule.ack_invariant''
                          [(''batch_id'', VU64 bid), (''seq'', VU32 seq),
                           (''op_action'', VStr (rule_action_name (op_action op))),
                           (''op_addr'', VDisplayIp (op_addr op)),
                           (''reason'', VStr ''kernel_err_without_status'')]) s)))"

definition commit_ack_outcomes :: "AckCommitCtx \<Rightarrow> RuleOp list \<Rightarrow> AckTracker \<Rightarrow> ApplyResult handler" where
  "commit_ack_outcomes ctx ops tracker s =
     (let c0 = \<lparr>cn_add = 0, cn_del = 0, cn_noop = cc_noop_prefilter ctx, cn_failed = 0\<rparr>;
          (c, s) = fold (commit_step (cc_batch_id ctx) (cc_first_seq ctx) tracker)
                     (zip [0..<length ops] ops) (c0, s);
          s = (if cn_failed c > 0
               then log (LogLine LWarn ''rule.batch.failed''
                      [(''batch_id'', VU64 (cc_batch_id ctx)), (''count_failed'', VUsize (cn_failed c))]) s
               else s);
          (t, s) = now s
      in (Inr \<lparr>ar_input = cc_input_count ctx, ar_noop = cn_noop c, ar_added = cn_add c,
               ar_deleted = cn_del c, ar_failed = cn_failed c, ar_duration = t - cc_started_at ctx\<rparr>, s))"

definition log_batch_result :: "u64 \<Rightarrow> ApplyResult \<Rightarrow> sys \<Rightarrow> sys" where
  "log_batch_result bid r s =
     log (emit_rule_batch \<lparr>rb_batch_id = bid, rb_count_input = ar_input r, rb_count_add = ar_added r,
            rb_count_del = ar_deleted r, rb_count_noop = ar_noop r, rb_count_failed = ar_failed r,
            rb_duration_ms = ar_duration r div 1000000\<rparr>) s"

definition recycle_ops :: "sys \<Rightarrow> sys" where
  "recycle_ops s = (if length (batch_pool s) < 8 then pool_push [] s else s)"

definition finish_inflight_batch :: "unit handler" where
  "finish_inflight_batch s =
     (case inflight s of
        None \<Rightarrow> (Inr (), s)
      | Some b \<Rightarrow>
          let s = s\<lparr>inflight := None\<rparr> in
          (case commit_ack_outcomes
                  \<lparr>cc_batch_id = if_batch_id b, cc_first_seq = if_first_seq b, cc_started_at = if_started_at b,
                   cc_input_count = if_input_count b, cc_noop_prefilter = if_noop_prefilter b\<rparr>
                  (if_ops b) (if_tracker b) s of
             (Inl e, s) \<Rightarrow> (Inl e, s)
           | (Inr result, s) \<Rightarrow>
               let s = log_batch_result (if_batch_id b) result s;
                   s = (if if_owner b = OwnerMaintenance
                        then s\<lparr>completed_batch := Some \<lparr>cb_batch_id = if_batch_id b, cb_result = result,
                                                      cb_owner = if_owner b\<rparr>\<rparr>
                        else s);
                   s = s\<lparr>ack_tracker_reuse := if_tracker b\<rparr>
               in (Inr (), recycle_ops s)))"

definition drain_rule_acks_once :: "unit handler" where
  "drain_rule_acks_once s =
     (case inflight s of
        None \<Rightarrow> (Inr (), s)
      | Some b \<Rightarrow>
          (case drain_apply_ack_messages RuleSock (if_first_seq b) (if_ops b) (if_tracker b) (wd s) of
             (r, tracker, w) \<Rightarrow>
               let s = s\<lparr>wd := w, inflight := Some (b\<lparr>if_tracker := tracker\<rparr>)\<rparr> in
               (case r of
                  Inl e \<Rightarrow> (Inl e, s)
                | Inr _ \<Rightarrow> if tr_pending tracker = 0 then finish_inflight_batch s else (Inr (), s))))"

subsection \<open>Timeouts\<close>

definition queue_compensate_resync :: "string \<Rightarrow> sys \<Rightarrow> sys" where
  "queue_compensate_resync reason s =
     (let s = s\<lparr>resync_requested := True\<rparr> in
      if resync_compensate_pending s then s
      else log (LogLine LWarn ''sync.compensate_resync''
             [(''reason'', VStr reason), (''count_event_drop'', VU64 (dropped_count s))])
           (s\<lparr>resync_compensate_pending := True\<rparr>))"

definition handle_ack_timeout :: "sys \<Rightarrow> sys" where
  "handle_ack_timeout s =
     (case inflight s of
        None \<Rightarrow> s
      | Some b \<Rightarrow>
          let s = s\<lparr>inflight := None\<rparr>;
              s = log (LogLine LWarn ''rule.ack_timeout''
                    [(''batch_id'', VU64 (if_batch_id b)), (''count_input'', VUsize (if_input_count b)),
                     (''count_pending'', VUsize (tr_pending (if_tracker b)))]) s;
              s = fold (\<lambda>(idx, op) s.
                      if seen_at (if_tracker b) idx then s
                      else log (ack_failed_timeout (if_batch_id b) (seq_with_offset (if_first_seq b) idx) op) s)
                    (zip [0..<length (if_ops b)] (if_ops b)) s;
              s = (if if_owner b = OwnerPending then queue_compensate_resync ''ack_timeout'' s else s);
              s = (if if_owner b = OwnerMaintenance
                   then let (t, s) = now s
                        in s\<lparr>completed_batch := Some \<lparr>cb_batch_id = if_batch_id b,
                             cb_result = \<lparr>ar_input = if_input_count b, ar_noop = if_noop_prefilter b,
                               ar_added = 0, ar_deleted = 0,
                               ar_failed = if_input_count b - if_noop_prefilter b,
                               ar_duration = t - if_started_at b\<rparr>,
                             cb_owner = if_owner b\<rparr>\<rparr>
                   else s);
              s = s\<lparr>ack_tracker_reuse := if_tracker b\<rparr>
          in recycle_ops s)"

definition note_event_drop :: "u64 \<Rightarrow> sys \<Rightarrow> sys" where
  "note_event_drop dropped s =
     log (LogEvery LInfo ''netlink_event_drop'' EVENT_DROP_LOG_INTERVAL ''netlink.event_drop''
            [(''count_dropped'', VU64 dropped)]) s"

subsection \<open>Deadlines\<close>

definition should_flush_pending :: "sys \<Rightarrow> nat \<Rightarrow> bool \<Rightarrow> bool" where
  "should_flush_pending s t force =
     (if pending s = [] then False
      else if force then True
      else if (case quiet_deadline s of Some d \<Rightarrow> t \<ge> d | None \<Rightarrow> False) then True
      else if (case max_deadline s of Some d \<Rightarrow> t \<ge> d | None \<Rightarrow> False) then True
      else False)"

definition min_deadline :: "nat option \<Rightarrow> nat \<Rightarrow> nat option" where
  "min_deadline deadline value =
     (case deadline of Some current \<Rightarrow> Some (if value < current then value else current) | None \<Rightarrow> Some value)"

definition next_deadline :: "sys \<Rightarrow> nat option \<times> sys" where
  "next_deadline s =
     (let d = None;
          d = (case quiet_deadline s of Some v \<Rightarrow> min_deadline d v | None \<Rightarrow> d);
          d = (case max_deadline s of Some v \<Rightarrow> min_deadline d v | None \<Rightarrow> d);
          d = (case inflight s of Some b \<Rightarrow> min_deadline d (if_ack_deadline b) | None \<Rightarrow> d);
          (t, s) = now s;
          soon = t + millis 1;
          d = (if maintenance s \<noteq> Idle then min_deadline d soon else d);
          d = (if resync_requested s \<and> inflight s = None then min_deadline d soon else d);
          d = (if shutdown_requested s \<and> \<not> shutdown_cleanup_done s \<and> inflight s = None
               then min_deadline d soon else d);
          d = (if startup_cleanup_pending s \<and> inflight s = None
               then min_deadline d (case startup_cleanup_retry_deadline s of Some v \<Rightarrow> v | None \<Rightarrow> soon)
               else d)
      in (d, s))"


subsection \<open>The blocking variant\<close>

text \<open>The wait loop: \<open>Inr True\<close> when every operation is acknowledged, \<open>Inr False\<close> at the deadline.\<close>

function ack_wait_loop ::
  "nat \<Rightarrow> u32 \<Rightarrow> RuleOp list \<Rightarrow> AckTracker \<Rightarrow> world \<Rightarrow> (AppError + bool) \<times> AckTracker \<times> world" where
  "ack_wait_loop deadline first_seq ops tracker w =
     (if tr_pending tracker > 0 then
        case drain_apply_ack_messages RuleSock first_seq ops tracker w of
          (Inl e, tracker, w) \<Rightarrow> (Inl e, tracker, w)
        | (Inr _, tracker, w) \<Rightarrow>
            if tr_pending tracker = 0 then (Inr True, tracker, w)
            else
              (case wait_readable deadline w of
                 (Inl e, w) \<Rightarrow> (Inl e, tracker, w)
               | (Inr readable, w) \<Rightarrow>
                   if \<not> readable then (Inr False, tracker, w)
                   else ack_wait_loop deadline first_seq ops tracker w)
      else (Inr True, tracker, w))"
  by pat_completeness auto
termination
proof (relation "measure (\<lambda>(d, f, ops, t, w). length (polls w))", goal_cases)
  case 1
  show ?case by simp
next
  case (2 d f ops t w r y u t' w1 z w2 rd)
  have dr: "drain_apply_ack_messages RuleSock f ops t w = (r, t', w1)" using 2 by simp
  have "wait_readable d w1 = (Inr True, w2)" using 2 by simp
  from wait_readable_frame [OF this] drain_apply_frame [OF dr] show ?case by simp
qed

declare ack_wait_loop.simps [simp del]

definition apply_batch_blocking :: "RuleOp list \<Rightarrow> u64 \<Rightarrow> ApplyResult handler" where
  "apply_batch_blocking ops bid s =
     (if ops = [] then (Inr \<lparr>ar_input = 0, ar_noop = 0, ar_added = 0, ar_deleted = 0, ar_failed = 0,
                             ar_duration = 0\<rparr>, s)
      else
        let (started, s) = now s;
            tracker = blocking_tracker (apply_scratch s);
            scratch = (apply_scratch s)\<lparr>blocking_tracker := AckTracker_default\<rparr>
        in
        case start_apply_rules_batch RuleSock (rule_ctx s) ops scratch tracker (wd s) of
          (Inl err, scratch, tracker, w) \<Rightarrow>
            (Inl err, s\<lparr>apply_scratch := scratch\<lparr>blocking_tracker := tracker\<rparr>, wd := w\<rparr>)
        | (Inr first_seq, scratch, tracker, w) \<Rightarrow>
            (case ack_wait_loop (started + ACK_WAIT_TIMEOUT) first_seq ops tracker w of
               (Inl e, tracker, w) \<Rightarrow> (Inl e, s\<lparr>apply_scratch := scratch, wd := w\<rparr>)
             | (Inr acked, tracker, w) \<Rightarrow>
                 let s = s\<lparr>apply_scratch := scratch, wd := w\<rparr> in
                 if \<not> acked
                 then (Inl (to_app_error (classify_wait_error tracker)),
                       s\<lparr>apply_scratch := (apply_scratch s)\<lparr>blocking_tracker := tracker\<rparr>\<rparr>)
                 else
                   (case commit_ack_outcomes
                           \<lparr>cc_batch_id = bid, cc_first_seq = first_seq, cc_started_at = started,
                            cc_input_count = length ops, cc_noop_prefilter = 0\<rparr> ops tracker s of
                      (Inl e, s) \<Rightarrow> (Inl e, s)
                    | (Inr result, s) \<Rightarrow>
                        let s = s\<lparr>apply_scratch := (apply_scratch s)\<lparr>blocking_tracker := tracker\<rparr>\<rparr>
                        in (Inr result, log_batch_result bid result s))))"

subsection \<open>The prefilter is a filter\<close>

lemma prefilter_fold:
  assumes "k \<le> length ops"
  shows "\<exists>ops' wi. fold (prefilter_step owned) [0..<k] (ops, 0, n) =
      (ops', wi, n + length (filter (should_skip owned) (take k ops))) \<and>
    wi \<le> k \<and> length ops' = length ops \<and> drop k ops' = drop k ops \<and>
    take wi ops' = filter (\<lambda>op. \<not> should_skip owned op) (take k ops)"
  using assms
proof (induction k)
  case 0
  show ?case by simp
next
  case (Suc k)
  then obtain ops' wi where IH: "fold (prefilter_step owned) [0..<k] (ops, 0, n) =
      (ops', wi, n + length (filter (should_skip owned) (take k ops)))"
    "wi \<le> k" "length ops' = length ops" "drop k ops' = drop k ops"
    "take wi ops' = filter (\<lambda>op. \<not> should_skip owned op) (take k ops)" by auto
  have k: "k < length ops" using Suc.prems by simp
  then have "hd (drop k ops') = hd (drop k ops)" using IH(4) by simp
  then have nth: "ops' ! k = ops ! k" using k IH(3) by (simp add: hd_drop_conv_nth)
  have d: "drop (Suc k) ops' = drop (Suc k) ops"
    using IH(4) by (metis drop_drop plus_1_eq_Suc)
  have tk: "take (Suc k) ops = take k ops @ [ops ! k]" using k by (simp add: take_Suc_conv_app_nth)
  let ?m = "n + length (filter (should_skip owned) (take k ops))"
  have fold: "fold (prefilter_step owned) [0..<Suc k] (ops, 0, n) = prefilter_step owned k (ops', wi, ?m)"
    using IH(1) by simp
  show ?case
  proof (cases "should_skip owned (ops ! k)")
    case True
    have "prefilter_step owned k (ops', wi, ?m) = (ops', wi, ?m + 1)"
      using True nth by (simp add: prefilter_step_def)
    then show ?thesis using IH True d tk unfolding fold by simp
  next
    case False
    define o2 where "o2 = (if wi \<noteq> k then ops'[wi := ops ! k] else ops')"
    have "prefilter_step owned k (ops', wi, ?m) = (o2, Suc wi, ?m)"
      using False nth by (simp add: prefilter_step_def o2_def)
    moreover have "take (Suc wi) o2 = take wi ops' @ [ops ! k]"
      using k IH(2,3) nth by (auto simp: o2_def take_Suc_conv_app_nth)
    moreover have "drop (Suc k) o2 = drop (Suc k) ops" "length o2 = length ops"
      using d IH(2,3) by (simp_all add: o2_def)
    ultimately show ?thesis
      using False IH(2,5) tk unfolding fold by simp
  qed
qed

lemma prefilter_eq:
  "prefilter owned n ops =
     (filter (\<lambda>op. \<not> should_skip owned op) ops, n + length (filter (should_skip owned) ops))"
  using prefilter_fold [of "length ops" ops owned n] by (auto simp: prefilter_def)

subsection \<open>What a commit does\<close>

text \<open>The class of an operation's acknowledgement, \<open>None\<close> when none arrived.\<close>

definition ack_class :: "AckTracker \<Rightarrow> usize \<Rightarrow> RuleOp \<Rightarrow> RuleAckClass option" where
  "ack_class t i op = (if seen_at t i then Some (classify_ack_for_op op (status_at t i)) else None)"

definition own_effect :: "AckTracker \<Rightarrow> usize \<times> RuleOp \<Rightarrow> IpKey set \<Rightarrow> IpKey set" where
  "own_effect t iop owned =
     (if ack_class t (fst iop) (snd iop) = Some AckOk
      then (case op_action (snd iop) of
              Add \<Rightarrow> insert (op_key (snd iop)) owned | Delete \<Rightarrow> owned - {op_key (snd iop)})
      else owned)"

lemma now_frame [simp]:
  "owned_ips (snd (now s)) = owned_ips s" "pending (snd (now s)) = pending s"
  "inflight (snd (now s)) = inflight s" "opts (snd (now s)) = opts s"
  by (simp_all add: now_def split: prod.splits)

lemma log_frame [simp]:
  "owned_ips (log c s) = owned_ips s" "pending (log c s) = pending s" "inflight (log c s) = inflight s"
  "opts (log c s) = opts s" "wd (log c s) = wd s"
  by (simp_all add: log_def)

lemma commit_step_eq:
  "\<exists>lg. commit_step bid f t iop (c, s) =
     ((case ack_class t (fst iop) (snd iop) of
         None \<Rightarrow> c\<lparr>cn_failed := cn_failed c + 1\<rparr>
       | Some AckOk \<Rightarrow> (case op_action (snd iop) of Add \<Rightarrow> c\<lparr>cn_add := cn_add c + 1\<rparr>
                          | Delete \<Rightarrow> c\<lparr>cn_del := cn_del c + 1\<rparr>)
       | Some KernelErr \<Rightarrow> c\<lparr>cn_failed := cn_failed c + 1\<rparr>
       | Some _ \<Rightarrow> c\<lparr>cn_noop := cn_noop c + 1\<rparr>),
      s\<lparr>owned_ips := own_effect t iop (owned_ips s), logged := lg\<rparr>)"
proof (cases iop)
  case (Pair i op)
  show ?thesis
    by (cases "seen_at t i"; cases "classify_ack_for_op op (status_at t i)"; cases "status_at t i";
        cases "op_action op")
      (simp_all add: Pair commit_step_def ack_class_def own_effect_def log_def op_key_def Let_def, blast+)
qed


definition is_applied :: "AckTracker \<Rightarrow> RuleAction \<Rightarrow> usize \<times> RuleOp \<Rightarrow> bool" where
  "is_applied t a iop \<longleftrightarrow> ack_class t (fst iop) (snd iop) = Some AckOk \<and> op_action (snd iop) = a"

definition is_noop :: "AckTracker \<Rightarrow> usize \<times> RuleOp \<Rightarrow> bool" where
  "is_noop t iop \<longleftrightarrow> ack_class t (fst iop) (snd iop) \<in> {Some EexistNoop, Some EnoentNoop}"

definition is_failed :: "AckTracker \<Rightarrow> usize \<times> RuleOp \<Rightarrow> bool" where
  "is_failed t iop \<longleftrightarrow> ack_class t (fst iop) (snd iop) \<in> {None, Some KernelErr}"

definition count_if :: "('a \<Rightarrow> bool) \<Rightarrow> 'a list \<Rightarrow> nat" where
  "count_if P xs = length (filter P xs)"

lemma count_if_simps [simp]:
  "count_if P [] = 0" "count_if P (x # xs) = (if P x then 1 else 0) + count_if P xs"
  by (simp_all add: count_if_def)

lemma commit_step_counts:
  "\<exists>lg. commit_step bid f t iop (c, s) =
     (c\<lparr>cn_add := cn_add c + (if is_applied t Add iop then 1 else 0),
        cn_del := cn_del c + (if is_applied t Delete iop then 1 else 0),
        cn_noop := cn_noop c + (if is_noop t iop then 1 else 0),
        cn_failed := cn_failed c + (if is_failed t iop then 1 else 0)\<rparr>,
      s\<lparr>owned_ips := own_effect t iop (owned_ips s), logged := lg\<rparr>)"
proof -
  obtain lg where eq: "commit_step bid f t iop (c, s) =
     ((case ack_class t (fst iop) (snd iop) of
         None \<Rightarrow> c\<lparr>cn_failed := cn_failed c + 1\<rparr>
       | Some AckOk \<Rightarrow> (case op_action (snd iop) of Add \<Rightarrow> c\<lparr>cn_add := cn_add c + 1\<rparr>
                          | Delete \<Rightarrow> c\<lparr>cn_del := cn_del c + 1\<rparr>)
       | Some KernelErr \<Rightarrow> c\<lparr>cn_failed := cn_failed c + 1\<rparr>
       | Some _ \<Rightarrow> c\<lparr>cn_noop := cn_noop c + 1\<rparr>),
      s\<lparr>owned_ips := own_effect t iop (owned_ips s), logged := lg\<rparr>)"
    using commit_step_eq by blast
  show ?thesis
    unfolding eq is_applied_def is_noop_def is_failed_def
    by (intro exI [of _ lg])
      (cases "ack_class t (fst iop) (snd iop)"; cases "op_action (snd iop)"; simp split: RuleAckClass.split)
qed

lemma commit_fold:
  "\<exists>lg. fold (commit_step bid f t) iops (c, s) =
     (c\<lparr>cn_add := cn_add c + count_if (is_applied t Add) iops,
        cn_del := cn_del c + count_if (is_applied t Delete) iops,
        cn_noop := cn_noop c + count_if (is_noop t) iops,
        cn_failed := cn_failed c + count_if (is_failed t) iops\<rparr>,
      s\<lparr>owned_ips := fold (own_effect t) iops (owned_ips s), logged := lg\<rparr>)"
proof (induction iops arbitrary: c s)
  case Nil
  show ?case by (intro exI [of _ "logged s"]) simp
next
  case (Cons iop iops)
  obtain lg where st: "commit_step bid f t iop (c, s) =
     (c\<lparr>cn_add := cn_add c + (if is_applied t Add iop then 1 else 0),
        cn_del := cn_del c + (if is_applied t Delete iop then 1 else 0),
        cn_noop := cn_noop c + (if is_noop t iop then 1 else 0),
        cn_failed := cn_failed c + (if is_failed t iop then 1 else 0)\<rparr>,
      s\<lparr>owned_ips := own_effect t iop (owned_ips s), logged := lg\<rparr>)" (is "_ = (?c, ?s)")
    using commit_step_counts by blast
  from Cons.IH [of ?c ?s] show ?case by (simp add: st add.assoc)
qed

lemma class_count_total:
  "count_if (is_applied t Add) iops + count_if (is_applied t Delete) iops + count_if (is_noop t) iops +
     count_if (is_failed t) iops = length iops"
proof (induction iops)
  case (Cons iop iops)
  have "(if is_applied t Add iop then 1 else 0) + (if is_applied t Delete iop then 1 else 0) +
      (if is_noop t iop then 1 else 0) + (if is_failed t iop then 1 else 0) = (1 :: nat)"
    by (cases "ack_class t (fst iop) (snd iop)" rule: option.exhaust;
        cases "the (ack_class t (fst iop) (snd iop))"; cases "op_action (snd iop)")
      (simp_all add: is_applied_def is_noop_def is_failed_def)
  with Cons show ?case by simp
qed simp

abbreviation (input) indexed :: "'a list \<Rightarrow> (nat \<times> 'a) list" where
  "indexed xs \<equiv> zip [0..<length xs] xs"

lemma commit_ack_outcomes_spec:
  "\<exists>lg w d. commit_ack_outcomes ctx ops t s =
     (Inr \<lparr>ar_input = cc_input_count ctx, ar_noop = cc_noop_prefilter ctx + count_if (is_noop t) (indexed ops),
           ar_added = count_if (is_applied t Add) (indexed ops),
           ar_deleted = count_if (is_applied t Delete) (indexed ops),
           ar_failed = count_if (is_failed t) (indexed ops), ar_duration = d\<rparr>,
      s\<lparr>owned_ips := fold (own_effect t) (indexed ops) (owned_ips s), logged := lg, wd := w\<rparr>)"
proof -
  obtain lg where f: "fold (commit_step (cc_batch_id ctx) (cc_first_seq ctx) t) (indexed ops)
      (\<lparr>cn_add = 0, cn_del = 0, cn_noop = cc_noop_prefilter ctx, cn_failed = 0\<rparr>, s) =
     (\<lparr>cn_add = count_if (is_applied t Add) (indexed ops), cn_del = count_if (is_applied t Delete) (indexed ops),
       cn_noop = cc_noop_prefilter ctx + count_if (is_noop t) (indexed ops),
       cn_failed = count_if (is_failed t) (indexed ops)\<rparr>,
      s\<lparr>owned_ips := fold (own_effect t) (indexed ops) (owned_ips s), logged := lg\<rparr>)"
    using commit_fold [of "cc_batch_id ctx" "cc_first_seq ctx" t "indexed ops"
        "\<lparr>cn_add = 0, cn_del = 0, cn_noop = cc_noop_prefilter ctx, cn_failed = 0\<rparr>" s] by auto
  show ?thesis
    unfolding commit_ack_outcomes_def Let_def f prod.case
    by (auto simp: now_def log_def split: prod.split)
qed

text \<open>With distinct addresses in the batch the order of the operations does not matter.\<close>

lemma own_effect_notin:
  "k \<noteq> op_key (snd iop) \<Longrightarrow> k \<in> own_effect t iop owned \<longleftrightarrow> k \<in> owned"
  by (simp add: own_effect_def split: RuleAction.split)

lemma own_effect_other: "k \<notin> (op_key \<circ> snd) ` set iops \<Longrightarrow> k \<in> fold (own_effect t) iops owned \<longleftrightarrow> k \<in> owned"
  by (induction iops arbitrary: owned) (simp_all add: own_effect_notin)

lemma fold_own_effect:
  assumes "distinct (map (op_key \<circ> snd) iops)"
  shows "fold (own_effect t) iops owned =
    (owned \<union> (op_key \<circ> snd) ` {iop \<in> set iops. is_applied t Add iop}) -
      (op_key \<circ> snd) ` {iop \<in> set iops. is_applied t Delete iop}"
  using assms
proof (induction iops arbitrary: owned)
  case (Cons iop iops)
  let ?k = "op_key (snd iop)"
  have k: "?k \<notin> (op_key \<circ> snd) ` set iops" using Cons.prems by (simp add: comp_def)
  then have nk: "?k \<notin> (op_key \<circ> snd) ` {x \<in> set iops. P x}" for P by auto
  have "fold (own_effect t) (iop # iops) owned =
    (own_effect t iop owned \<union> (op_key \<circ> snd) ` {iop \<in> set iops. is_applied t Add iop}) -
      (op_key \<circ> snd) ` {iop \<in> set iops. is_applied t Delete iop}"
    using Cons by simp
  also have "\<dots> = (owned \<union> (op_key \<circ> snd) ` {x \<in> set (iop # iops). is_applied t Add x}) -
      (op_key \<circ> snd) ` {x \<in> set (iop # iops). is_applied t Delete x}"
    using nk [of "is_applied t Add"] nk [of "is_applied t Delete"]
    by (cases "ack_class t (fst iop) (snd iop) = Some AckOk"; cases "op_action (snd iop)")
      (auto simp: own_effect_def is_applied_def)
  finally show ?case .
qed simp


subsection \<open>Frame of a batch start\<close>

lemma now_eq: "now s = (fst (instant_now (wd s)), s\<lparr>wd := snd (instant_now (wd s))\<rparr>)"
  by (simp add: now_def split: prod.split)

lemma start_apply_tracker:
  assumes "start_apply_rules_batch sid ctx ops sc t w = (Inr f, sc', t', w')"
  shows "tracker_ok (length ops) t'"
proof (cases "ops = []")
  case True
  with assms show ?thesis by (auto simp: start_apply_rules_batch_def tracker_ok_prepare)
next
  case False
  obtain q w1 where "send_loop sid (batch_messages ctx (normalize_seq (seq_cell w)) ops)
      (w\<lparr>seq_cell := seq_advance (normalize_seq (seq_cell w)) (length ops)\<rparr>) = (q, w1)" by fastforce
  with assms start_apply_rules_batch_eq [OF False, of sid ctx sc t w] show ?thesis
    by (cases q) (auto simp: tracker_ok_prepare)
qed

definition inflight_ok :: "InflightBatch \<Rightarrow> bool" where
  "inflight_ok b \<longleftrightarrow>
     tracker_ok (length (if_ops b)) (if_tracker b) \<and> if_ops b \<noteq> [] \<and>
     if_input_count b = if_noop_prefilter b + length (if_ops b) \<and>
     if_ack_deadline b = if_started_at b + ACK_WAIT_TIMEOUT"

lemma start_batch_cases:
  assumes "start_batch owner bid ic np ops s = (r, s')" "ops \<noteq> []" "ic = np + length ops"
  obtains (err) e sc w tr where "r = Inl e"
      "s' = s\<lparr>apply_scratch := sc, wd := w, ack_tracker_reuse := tr\<rparr>"
  | (started) sc w tr b where "r = Inr True" "inflight_ok b" "if_owner b = owner" "if_batch_id b = bid"
      "if_ops b = ops" "if_noop_prefilter b = np"
      "s' = s\<lparr>ack_tracker_reuse := tr, apply_scratch := sc, wd := w, inflight := Some b\<rparr>"
proof -
  let ?t = "ack_tracker_reuse s"
  obtain q sc t w where
    q: "start_apply_rules_batch RuleSock (rule_ctx s) ops (apply_scratch s) ?t (wd s) = (q, sc, t, w)"
    by (metis prod_cases4)
  show ?thesis
  proof (cases q)
    case (Inl e)
    then have "r = Inl e" "s' = s\<lparr>apply_scratch := sc, wd := w, ack_tracker_reuse := t\<rparr>"
      using assms(1) q by (simp_all add: start_batch_def)
    then show ?thesis by (rule err)
  next
    case (Inr f)
    let ?b = "\<lparr>if_batch_id = bid, if_started_at = fst (instant_now w),
      if_ack_deadline = fst (instant_now w) + ACK_WAIT_TIMEOUT, if_input_count = ic,
      if_noop_prefilter = np, if_first_seq = f, if_tracker = t, if_owner = owner, if_ops = ops\<rparr>"
    have "s' = s\<lparr>ack_tracker_reuse := AckTracker_default, apply_scratch := sc, wd := snd (instant_now w),
        inflight := Some ?b\<rparr>" "r = Inr True"
      using assms(1) q Inr by (simp_all add: start_batch_def now_eq Let_def)
    moreover have "inflight_ok ?b"
      using start_apply_tracker q Inr assms(2,3) by (auto simp: inflight_ok_def)
    ultimately show ?thesis by (intro started [of ?b]) simp_all
  qed
qed

lemma start_maintenance_batch_cases:
  assumes "start_maintenance_batch bid ops s = (r, s')" "ops \<noteq> []" "inflight s = None"
  obtains (err) e sc w tr where "r = Inl e"
      "s' = s\<lparr>apply_scratch := sc, wd := w, ack_tracker_reuse := tr\<rparr>"
  | (started) sc w tr b where "r = Inr True" "inflight_ok b" "if_owner b = OwnerMaintenance"
      "if_batch_id b = bid" "if_ops b = ops"
      "s' = s\<lparr>ack_tracker_reuse := tr, apply_scratch := sc, wd := w, inflight := Some b\<rparr>"
proof -
  have "start_batch OwnerMaintenance bid (length ops) 0 ops s = (r, s')"
    using assms by (simp add: start_maintenance_batch_def)
  then show ?thesis
  proof (rule start_batch_cases)
    show "ops \<noteq> []" "length ops = 0 + length ops" using assms(2) by simp_all
  qed (fact err, rule started)
qed

subsection \<open>Properties of the batch\<close>

text \<open>
  C21. The prefilter drops exactly the no-ops: compacting the operations in place keeps, in order, the
  additions of addresses that are not owned and the deletions of addresses that are, and counts the rest.
\<close>

theorem prefilter_keeps_effective:
  "prefilter owned noop ops =
     (filter (\<lambda>op. is_add op \<longleftrightarrow> op_key op \<notin> owned) ops,
      noop + length (filter (\<lambda>op. is_add op \<longleftrightarrow> op_key op \<in> owned) ops))"
proof -
  have "should_skip owned op \<longleftrightarrow> (is_add op \<longleftrightarrow> op_key op \<in> owned)" for op
    by (cases "op_action op") (simp_all add: should_skip_def op_key_def is_add_def)
  then show ?thesis by (simp add: prefilter_eq) (metis (lifting))
qed

text \<open>
  A commit accounts for every operation once: with distinct addresses in the batch, the owned set
  gains the acknowledged additions and loses the acknowledged deletions and nothing else, and the
  reported counts of additions, deletions, no-ops and failures add up to the size of the batch plus
  the prefiltered no-ops.
\<close>

theorem commit_accounts_for_all:
  assumes "distinct (map op_key ops)"
  shows "\<exists>result s'. commit_ack_outcomes ctx ops t s = (Inr result, s') \<and>
    owned_ips s' = (owned_ips s \<union> op_key ` {ops ! i | i. i < length ops \<and> is_applied t Add (i, ops ! i)}) -
      op_key ` {ops ! i | i. i < length ops \<and> is_applied t Delete (i, ops ! i)} \<and>
    ar_added result + ar_deleted result + ar_noop result + ar_failed result = length ops + cc_noop_prefilter ctx"
proof -
  have dist: "distinct (map (op_key \<circ> snd) (indexed ops))"
    using assms by (simp flip: map_map)
  have im: "(op_key \<circ> snd) ` {iop \<in> set (indexed ops). P iop} = op_key ` {ops ! i | i. i < length ops \<and> P (i, ops ! i)}" for P
    by (force simp: set_zip image_iff)
  obtain lg w d where c: "commit_ack_outcomes ctx ops t s =
     (Inr \<lparr>ar_input = cc_input_count ctx, ar_noop = cc_noop_prefilter ctx + count_if (is_noop t) (indexed ops),
           ar_added = count_if (is_applied t Add) (indexed ops),
           ar_deleted = count_if (is_applied t Delete) (indexed ops),
           ar_failed = count_if (is_failed t) (indexed ops), ar_duration = d\<rparr>,
      s\<lparr>owned_ips := fold (own_effect t) (indexed ops) (owned_ips s), logged := lg, wd := w\<rparr>)"
    using commit_ack_outcomes_spec by blast
  have own: "fold (own_effect t) (indexed ops) (owned_ips s) =
      (owned_ips s \<union> op_key ` {ops ! i | i. i < length ops \<and> is_applied t Add (i, ops ! i)}) -
        op_key ` {ops ! i | i. i < length ops \<and> is_applied t Delete (i, ops ! i)}"
    using fold_own_effect [OF dist, of t "owned_ips s"] unfolding im .
  show ?thesis
    unfolding c own [symmetric] using class_count_total [of t "indexed ops"] by simp
qed

theorem commit_accounts_for_all_witness:
  "\<exists>result s'. commit_ack_outcomes \<lparr>cc_batch_id = 1, cc_first_seq = 1, cc_started_at = 0, cc_input_count = 2, cc_noop_prefilter = 1\<rparr>
     [\<lparr>op_addr = IpV4 1, op_action = Add\<rparr>] (mark_status 0 None (tracker_prepare 1 AckTracker_default)) sample_sys =
     (Inr result, s') \<and> owned_ips s' = {V4 1} \<and>
     ar_added result + ar_deleted result + ar_noop result + ar_failed result = 2"
proof -
  let ?t = "mark_status 0 None (tracker_prepare 1 AckTracker_default)"
  let ?ops = "[\<lparr>op_addr = IpV4 1, op_action = Add\<rparr>]"
  have "is_applied ?t Add (0, \<lparr>op_addr = IpV4 1, op_action = Add\<rparr>)"
    by (simp add: is_applied_def ack_class_def seen_at_def status_at_def mark_status_def tracker_prepare_def
        vec_resize_def classify_ack_for_op_def)
  then have "{?ops ! i | i. i < length ?ops \<and> is_applied ?t Add (i, ?ops ! i)} = {\<lparr>op_addr = IpV4 1, op_action = Add\<rparr>}"
    "{?ops ! i | i. i < length ?ops \<and> is_applied ?t Delete (i, ?ops ! i)} = {}"
    by (auto simp: is_applied_def)
  with commit_accounts_for_all [of ?ops
      "\<lparr>cc_batch_id = 1, cc_first_seq = 1, cc_started_at = 0, cc_input_count = 2, cc_noop_prefilter = 1\<rparr>" ?t sample_sys]
  show ?thesis by (simp add: op_key_def from_ip_eq numeral_2_eq_2)
qed

end
