(* ===== verification/Maintenance.thy ===== *)
theory Maintenance
  imports Batch_Apply
begin

text \<open>
  \<^verbatim>\<open>src/daemon/service/resync_cleanup.rs\<close>: the maintenance state machine (startup cleanup, resync,
  shutdown cleanup) and the one-shot cleanup.

  \<open>drive_maintenance_slice\<close> is a loop over \<open>match job\<close>; each branch is a definition of its own that
  returns how it leaves the loop body (\<open>continue\<close>, \<open>break\<close> or an early return) with the remaining
  operation budget. The loop is total: every round spends budget or moves the job strictly down an
  order in which \<open>Idle\<close> can only be left towards a job that spends budget or waits.
\<close>

datatype ctl = CContinue | CBreak | CReturn AppError

type_synonym branch = "ctl \<times> usize \<times> sys"

subsection \<open>Helpers\<close>

definition startup_cleanup_log :: "CleanupSummary \<Rightarrow> nat \<Rightarrow> log_call" where
  "startup_cleanup_log summary duration_ms =
     LogLine LInfo ''daemon.startup_cleanup''
       [(''source'', VStr (cleanup_source_name Dump)), (''count_removed'', VUsize (cs_removed summary)),
        (''count_noop'', VUsize (cs_noop summary)), (''count_failed'', VUsize (cs_failed summary)),
        (''duration_ms'', VU128 duration_ms)]"

text \<open>The code at the end of a startup cleanup (the same block in two branches).\<close>

definition finish_startup_cleanup :: "u64 \<Rightarrow> CleanupSummary \<Rightarrow> sys \<Rightarrow> sys" where
  "finish_startup_cleanup bid summary s =
     (let s = s\<lparr>startup_cleanup_retry_count := 0\<rparr>;
          (duration_ms, s) =
            (case startup_cleanup_started_at s of
               None \<Rightarrow> (0, s)
             | Some started \<Rightarrow>
                 let (t, s) = now (s\<lparr>startup_cleanup_started_at := None\<rparr>)
                 in ((t - started) div 1000000, s));
          s = log (startup_cleanup_log summary duration_ms) s
      in s\<lparr>resync_requested := True, batch_id := bid, maintenance := Idle\<rparr>)"

definition schedule_startup_cleanup_retry :: "AppError \<Rightarrow> string \<Rightarrow> sys \<Rightarrow> sys" where
  "schedule_startup_cleanup_retry err phase s =
     (let s = s\<lparr>startup_cleanup_retry_count := u8_sat_inc (startup_cleanup_retry_count s)\<rparr>;
          retry = (startup_cleanup_retry_count s \<le> STARTUP_CLEANUP_RETRY_LIMIT);
          s = log (LogLine LWarn ''daemon.startup_cleanup_failed''
                [(''phase'', VStr phase), (''error'', VDisplayErr err), (''retry'', VBool retry),
                 (''attempt'', VU32 (ucast (startup_cleanup_retry_count s)))]) s;
          s = s\<lparr>startup_cleanup_keys := [], startup_cleanup_started_at := None, maintenance := Idle,
                resync_requested := True\<rparr>
      in if retry then
           let s = s\<lparr>startup_cleanup_pending := True\<rparr>; (t, s) = now s
           in s\<lparr>startup_cleanup_retry_deadline := Some (t + STARTUP_CLEANUP_RETRY_DELAY)\<rparr>
         else s\<lparr>startup_cleanup_pending := False, startup_cleanup_retry_deadline := None\<rparr>)"

definition prepare_shutdown_cleanup_job :: "sys \<Rightarrow> sys" where
  "prepare_shutdown_cleanup_job s =
     (let s = s\<lparr>tracked_keys := sorted_list_of_set (owned_ips s), owned_ips := {}\<rparr> in
      if tracked_keys s = []
      then s\<lparr>shutdown_cleanup_done := True, shutdown_cleanup := CleanupSummary_default, maintenance := Idle\<rparr>
      else s\<lparr>maintenance := CleanupTracked 0 (batch_id s) CleanupSummary_default None\<rparr>)"

definition build_resync_plan :: "ResyncResult handler" where
  "build_resync_plan s =
     (case snapshot_interface_keys_sorted_with_socket_inplace RouteSock (opt_ipv6 (opts s)) (filters s)
             (wd s, target_keys s) of
        (Inl e, (w, out)) \<Rightarrow> (Inl e, s\<lparr>wd := w, target_keys := out\<rparr>)
      | (Inr _, (w, out)) \<Rightarrow>
          let s = s\<lparr>wd := w, target_keys := out\<rparr>;
              s = s\<lparr>current_keys := sorted_list_of_set (owned_ips s)\<rparr>
          in (Inr \<lparr>rr_target = length (target_keys s), rr_current = length (current_keys s),
                   rr_add = 0, rr_del = 0, rr_failed = 0\<rparr>, s))"

definition log_resync_summary :: "ResyncResult \<Rightarrow> sys \<Rightarrow> sys" where
  "log_resync_summary r s =
     log (LogLine LInfo ''daemon.resync''
            [(''count_target'', VUsize (rr_target r)), (''count_current'', VUsize (rr_current r)),
             (''count_add'', VUsize (rr_add r)), (''count_del'', VUsize (rr_del r)),
             (''count_failed'', VUsize (rr_failed r))]) s"

text \<open>
  Taking the completed batch a job waits for: \<open>Inl\<close> when it is not there (the job keeps waiting),
  otherwise its result, \<open>None\<close> for a job that waits for nothing.
\<close>

definition await_batch :: "u64 option \<Rightarrow> sys \<Rightarrow> (unit + ApplyResult option) \<times> sys" where
  "await_batch waiting s =
     (case waiting of
        None \<Rightarrow> (Inr None, s)
      | Some waiting_id \<Rightarrow>
          (case completed_batch s of
             None \<Rightarrow> (Inl (), s)
           | Some done \<Rightarrow>
               if cb_owner done \<noteq> OwnerMaintenance \<or> cb_batch_id done \<noteq> waiting_id then (Inl (), s)
               else (Inr (Some (cb_result done)), s\<lparr>completed_batch := None\<rparr>)))"

definition add_summary :: "ApplyResult \<Rightarrow> CleanupSummary \<Rightarrow> CleanupSummary" where
  "add_summary r c =
     \<lparr>cs_removed = cs_removed c + ar_deleted r, cs_noop = cs_noop c + ar_noop r,
      cs_failed = cs_failed c + ar_failed r\<rparr>"

definition add_metrics :: "ApplyResult \<Rightarrow> ResyncResult \<Rightarrow> ResyncResult" where
  "add_metrics r m =
     m\<lparr>rr_add := rr_add m + ar_added r, rr_del := rr_del m + ar_deleted r, rr_failed := rr_failed m + ar_failed r\<rparr>"

definition spend :: "ApplyResult option \<Rightarrow> usize \<Rightarrow> usize" where
  "spend done budget = (case done of None \<Rightarrow> budget | Some r \<Rightarrow> budget - max (ar_input r) 1)"

definition chunk_size :: "usize \<Rightarrow> sys \<Rightarrow> usize" where
  "chunk_size budget s = min (max (opt_batch_max (opts s)) 1) (max budget 1)"

subsection \<open>The branches\<close>

definition idle_branch :: "usize \<Rightarrow> sys \<Rightarrow> branch" where
  "idle_branch budget s =
     (if shutdown_requested s \<and> pending s = [] \<and> \<not> shutdown_cleanup_done s
      then (CContinue, budget, prepare_shutdown_cleanup_job s)
      else if startup_cleanup_pending s then
        let (wait, s) =
              (case startup_cleanup_retry_deadline s of
                 None \<Rightarrow> (False, s)
               | Some deadline \<Rightarrow> let (t, s) = now s in (t < deadline, s))
        in
        if wait then (CBreak, budget, s\<lparr>maintenance := Idle\<rparr>)
        else
          let s = s\<lparr>startup_cleanup_pending := False, startup_cleanup_retry_deadline := None\<rparr>;
              (t, s) = now s;
              s = s\<lparr>startup_cleanup_started_at := Some t, startup_cleanup_keys := []\<rparr>
          in (CContinue, budget,
              s\<lparr>maintenance := StartupCleanupDumpCollect 0 None (batch_id s) CleanupSummary_default\<rparr>)
      else if resync_requested s then
        let s = s\<lparr>resync_requested := False\<rparr>
        in (CContinue, budget, s\<lparr>maintenance := ResyncBuild (batch_id s)\<rparr>)
      else (CBreak, budget, s\<lparr>maintenance := Idle\<rparr>))"

definition collect_branch ::
  "usize \<Rightarrow> u32 option \<Rightarrow> u64 \<Rightarrow> CleanupSummary \<Rightarrow> usize \<Rightarrow> sys \<Rightarrow> branch" where
  "collect_branch family_idx seq bid summary budget s =
     (let budget = budget - 1 in
      case next_startup_cleanup_family family_idx (opt_ipv6 (opts s)) of
        None \<Rightarrow>
          if startup_cleanup_keys s = [] then (CContinue, budget, finish_startup_cleanup bid summary s)
          else (CContinue, budget,
                s\<lparr>maintenance := StartupCleanupDumpApply 0 bid summary None (family_idx + 1)\<rparr>)
      | Some (family_idx, family) \<Rightarrow>
          (case (case seq of
                   Some dump_seq \<Rightarrow> (Inr dump_seq, s)
                 | None \<Rightarrow>
                     let (dump_seq, cell) = next_seq (seq_cell (wd s));
                         s = s\<lparr>wd := (wd s)\<lparr>seq_cell := cell\<rparr>\<rparr>
                     in (case start_cleanup_dump_family RuleSock family dump_seq (cleanup_seen s) (wd s) of
                           (Inl e, seen, w) \<Rightarrow> (Inl e, s\<lparr>cleanup_seen := seen, wd := w\<rparr>)
                         | (Inr _, seen, w) \<Rightarrow> (Inr dump_seq, s\<lparr>cleanup_seen := seen, wd := w\<rparr>))) of
             (Inl err, s) \<Rightarrow> (CContinue, budget, schedule_startup_cleanup_retry err ''dump_start'' s)
           | (Inr dump_seq, s) \<Rightarrow>
               (case poll_cleanup_targets_stream_with_scratch RuleSock (rule_ctx s) family dump_seq
                       (\<lambda>target keys. (Inr (), keys @ [from_ip (op_addr target)]))
                       (wd s, cleanup_seen s, startup_cleanup_keys s) of
                  (r, (w, seen, keys)) \<Rightarrow>
                    let s = s\<lparr>wd := w, cleanup_seen := seen, startup_cleanup_keys := keys\<rparr> in
                    (case r of
                       Inr CleanupPending \<Rightarrow>
                         (CBreak, budget,
                          s\<lparr>maintenance := StartupCleanupDumpCollect family_idx (Some dump_seq) bid summary\<rparr>)
                     | Inr CleanupDone \<Rightarrow>
                         if startup_cleanup_keys s = []
                         then (CContinue, budget,
                               s\<lparr>maintenance := StartupCleanupDumpCollect (family_idx + 1) None bid summary\<rparr>)
                         else (CContinue, budget,
                               s\<lparr>maintenance := StartupCleanupDumpApply 0 bid summary None (family_idx + 1)\<rparr>)
                     | Inl err \<Rightarrow>
                         (CContinue, budget, schedule_startup_cleanup_retry err ''dump_collect'' s)))))"

definition dump_apply_branch ::
  "usize \<Rightarrow> u64 \<Rightarrow> CleanupSummary \<Rightarrow> u64 option \<Rightarrow> usize \<Rightarrow> usize \<Rightarrow> sys \<Rightarrow> branch" where
  "dump_apply_branch offset bid summary waiting next_family_idx budget s =
     (case await_batch waiting s of
        (Inl _, s) \<Rightarrow>
          (CBreak, budget, s\<lparr>maintenance := StartupCleanupDumpApply offset bid summary waiting next_family_idx\<rparr>)
      | (Inr done, s) \<Rightarrow>
          let summary = (case done of None \<Rightarrow> summary | Some r \<Rightarrow> add_summary r summary);
              budget = spend done budget;
              (chunk, s) = pool_pop s;
              (offset, chunk) = fill_tracked_cleanup_chunk (startup_cleanup_keys s) (chunk_size budget s) (offset, chunk)
          in
          if chunk = [] then
            let s = s\<lparr>startup_cleanup_keys := []\<rparr>;
                s = (if next_startup_cleanup_family next_family_idx (opt_ipv6 (opts s)) \<noteq> None
                     then s\<lparr>batch_id := bid,
                            maintenance := StartupCleanupDumpCollect next_family_idx None bid summary\<rparr>
                     else finish_startup_cleanup bid summary s)
            in (CContinue, budget, pool_push chunk s)
          else
            let bid = bid + 1 in
            (case start_maintenance_batch bid chunk s of
               (Inl err, s) \<Rightarrow> (CContinue, budget, schedule_startup_cleanup_retry err ''dump_apply'' s)
             | (Inr started, s) \<Rightarrow>
                 (CBreak, budget, s\<lparr>maintenance := StartupCleanupDumpApply offset bid summary
                    (if started then Some bid else None) next_family_idx\<rparr>)))"

definition resync_build_branch :: "u64 \<Rightarrow> usize \<Rightarrow> sys \<Rightarrow> branch" where
  "resync_build_branch bid budget s =
     (let budget = budget - 1 in
      case build_resync_plan s of
        (Inr metrics, s) \<Rightarrow> (CContinue, budget, s\<lparr>maintenance := ResyncApply 0 0 bid metrics None\<rparr>)
      | (Inl err, s) \<Rightarrow>
          let s = s\<lparr>resync_requested := True\<rparr>;
              s = log (LogLine LWarn ''daemon.resync_failed''
                    [(''error'', VDisplayErr err), (''retry'', VBool True)]) s
          in (CContinue, 0, s\<lparr>maintenance := Idle\<rparr>))"

definition resync_apply_branch ::
  "usize \<Rightarrow> usize \<Rightarrow> u64 \<Rightarrow> ResyncResult \<Rightarrow> u64 option \<Rightarrow> usize \<Rightarrow> sys \<Rightarrow> branch" where
  "resync_apply_branch ti ci bid metrics waiting budget s =
     (case await_batch waiting s of
        (Inl _, s) \<Rightarrow> (CBreak, budget, s\<lparr>maintenance := ResyncApply ti ci bid metrics waiting\<rparr>)
      | (Inr done, s) \<Rightarrow>
          let metrics = (case done of None \<Rightarrow> metrics | Some r \<Rightarrow> add_metrics r metrics);
              budget = spend done budget;
              (chunk, s) = pool_pop s;
              (ti, ci, chunk) = fill_resync_chunk (target_keys s) (current_keys s) (chunk_size budget s) (ti, ci, chunk)
          in
          if chunk = [] then
            let s = s\<lparr>resync_compensate_pending := False\<rparr>;
                s = log_resync_summary metrics s
            in (CContinue, budget, pool_push chunk (s\<lparr>batch_id := bid, maintenance := Idle\<rparr>))
          else
            let bid = bid + 1 in
            (case start_maintenance_batch bid chunk s of
               (Inl err, s) \<Rightarrow> (CReturn err, budget, s)
             | (Inr started, s) \<Rightarrow>
                 (CBreak, budget, s\<lparr>maintenance := ResyncApply ti ci bid metrics
                    (if started then Some bid else None)\<rparr>)))"

definition cleanup_tracked_branch ::
  "usize \<Rightarrow> u64 \<Rightarrow> CleanupSummary \<Rightarrow> u64 option \<Rightarrow> usize \<Rightarrow> sys \<Rightarrow> branch" where
  "cleanup_tracked_branch offset bid summary waiting budget s =
     (case await_batch waiting s of
        (Inl _, s) \<Rightarrow> (CBreak, budget, s\<lparr>maintenance := CleanupTracked offset bid summary waiting\<rparr>)
      | (Inr done, s) \<Rightarrow>
          let summary = (case done of None \<Rightarrow> summary | Some r \<Rightarrow> add_summary r summary);
              budget = spend done budget;
              (chunk, s) = pool_pop s;
              (offset, chunk) = fill_tracked_cleanup_chunk (tracked_keys s) (chunk_size budget s) (offset, chunk)
          in
          if chunk = [] then
            let s = s\<lparr>shutdown_cleanup_done := True, shutdown_cleanup := summary, batch_id := bid\<rparr>;
                s = log (LogLine LInfo ''cleanup.result''
                      [(''source'', VStr (cleanup_source_name Tracked)),
                       (''count_removed'', VUsize (cs_removed summary)), (''count_noop'', VUsize (cs_noop summary)),
                       (''count_failed'', VUsize (cs_failed summary)), (''duration_ms'', VU128 0)]) s
            in (CContinue, budget, pool_push chunk (s\<lparr>maintenance := Idle\<rparr>))
          else
            let bid = bid + 1 in
            (case start_maintenance_batch bid chunk s of
               (Inl err, s) \<Rightarrow> (CReturn err, budget, s)
             | (Inr started, s) \<Rightarrow>
                 (CBreak, budget, s\<lparr>maintenance := CleanupTracked offset bid summary
                    (if started then Some bid else None)\<rparr>)))"

definition slice_step :: "usize \<Rightarrow> sys \<Rightarrow> branch" where
  "slice_step budget s =
     (let job = maintenance s; s = s\<lparr>maintenance := Idle\<rparr> in
      case job of
        Idle \<Rightarrow> idle_branch budget s
      | StartupCleanupDumpCollect family_idx seq bid summary \<Rightarrow> collect_branch family_idx seq bid summary budget s
      | StartupCleanupDumpApply offset bid summary waiting next_idx \<Rightarrow>
          dump_apply_branch offset bid summary waiting next_idx budget s
      | ResyncBuild bid \<Rightarrow> resync_build_branch bid budget s
      | ResyncApply ti ci bid metrics waiting \<Rightarrow> resync_apply_branch ti ci bid metrics waiting budget s
      | CleanupTracked offset bid summary waiting \<Rightarrow> cleanup_tracked_branch offset bid summary waiting budget s)"


subsection \<open>The loop\<close>

definition slice_rank :: "sys \<Rightarrow> nat" where
  "slice_rank s =
     (case maintenance s of
        StartupCleanupDumpApply _ _ _ _ _ \<Rightarrow> 3
      | ResyncApply _ _ _ _ _ \<Rightarrow> 3
      | CleanupTracked _ _ _ _ \<Rightarrow> if shutdown_cleanup_done s then 3 else 1
      | Idle \<Rightarrow> 2
      | _ \<Rightarrow> 1)"

definition slice_measure :: "usize \<times> sys \<Rightarrow> nat \<times> nat \<times> nat" where
  "slice_measure bs =
     (fst bs, (if shutdown_cleanup_done (snd bs) then 0 else 1), slice_rank (snd bs))"

abbreviation (input) slice_less :: "usize \<times> sys \<Rightarrow> usize \<times> sys \<Rightarrow> bool" where
  "slice_less a b \<equiv> (slice_measure a, slice_measure b) \<in> less_than <*lex*> less_than <*lex*> less_than"

lemma finish_startup_cleanup_frame:
  "maintenance (finish_startup_cleanup bid c s) = Idle"
  "shutdown_cleanup_done (finish_startup_cleanup bid c s) = shutdown_cleanup_done s"
  by (simp_all add: finish_startup_cleanup_def now_eq log_def Let_def split: option.split)

lemma schedule_retry_frame:
  "maintenance (schedule_startup_cleanup_retry e p s) = Idle"
  "shutdown_cleanup_done (schedule_startup_cleanup_retry e p s) = shutdown_cleanup_done s"
  by (simp_all add: schedule_startup_cleanup_retry_def now_eq log_def Let_def)

lemma idle_branch_less:
  "maintenance s = Idle \<Longrightarrow> idle_branch b s = (CContinue, b', s') \<Longrightarrow> slice_less (b', s') (b, s)"
  by (auto simp: idle_branch_def prepare_shutdown_cleanup_job_def now_eq slice_measure_def slice_rank_def
      Let_def split: if_splits option.splits)

lemma collect_branch_less:
  "0 < b \<Longrightarrow> collect_branch i q bid c b s = (ctl, b', s') \<Longrightarrow> b' < b"
  by (auto simp: collect_branch_def Let_def
      split: option.splits prod.splits sum.splits CleanupDumpPoll.splits if_splits)

lemma resync_build_branch_less:
  "0 < b \<Longrightarrow> resync_build_branch bid b s = (ctl, b', s') \<Longrightarrow> b' < b"
  by (auto simp: resync_build_branch_def Let_def split: prod.splits sum.splits)

lemma start_maintenance_done:
  assumes "start_maintenance_batch bid ops s = (r, s')"
  shows "shutdown_cleanup_done s' = shutdown_cleanup_done s"
proof (cases "ops = [] \<or> inflight s \<noteq> None")
  case True
  with assms show ?thesis by (auto simp: start_maintenance_batch_def split: if_splits)
next
  case False
  with assms show ?thesis by (auto elim!: start_maintenance_batch_cases)
qed

lemma await_batch_frame:
  "await_batch waiting s = (r, s') \<Longrightarrow> \<exists>c. s' = s\<lparr>completed_batch := c\<rparr>"
  by (auto simp: await_batch_def split: option.splits if_splits intro: exI [of _ "completed_batch s"])

lemma spend_le: "spend d b \<le> b"
  by (simp add: spend_def split: option.split)

lemma slice_lessI:
  "b' \<le> b \<Longrightarrow> shutdown_cleanup_done s' = shutdown_cleanup_done s \<Longrightarrow> slice_rank s' < slice_rank s \<Longrightarrow>
     slice_less (b', s') (b, s)"
  by (auto simp: slice_measure_def)

lemma dump_apply_branch_less:
  assumes "dump_apply_branch off bid c wt nf b s = (CContinue, b', s')"
  shows "b' \<le> b \<and> shutdown_cleanup_done s' = shutdown_cleanup_done s \<and>
    (maintenance s' = Idle \<or> (\<exists>i q bid c. maintenance s' = StartupCleanupDumpCollect i q bid c))"
  using assms
  by (auto simp: dump_apply_branch_def pool_pop_def pool_push_def Let_def spend_le
      finish_startup_cleanup_frame schedule_retry_frame start_maintenance_done
      dest!: await_batch_frame start_maintenance_done split: prod.splits sum.splits if_splits)

lemma resync_apply_branch_less:
  assumes "resync_apply_branch ti ci bid m wt b s = (CContinue, b', s')"
  shows "b' \<le> b \<and> shutdown_cleanup_done s' = shutdown_cleanup_done s \<and> maintenance s' = Idle"
  using assms
  by (auto simp: resync_apply_branch_def pool_pop_def pool_push_def log_resync_summary_def log_def Let_def
      spend_le dest!: await_batch_frame split: prod.splits sum.splits if_splits)

lemma cleanup_tracked_branch_less:
  assumes "cleanup_tracked_branch off bid c wt b s = (CContinue, b', s')"
  shows "b' \<le> b \<and> shutdown_cleanup_done s' \<and> maintenance s' = Idle"
  using assms
  by (auto simp: cleanup_tracked_branch_def pool_pop_def pool_push_def log_def Let_def
      spend_le dest!: await_batch_frame split: prod.splits sum.splits if_splits)

lemma slice_step_less:
  assumes "slice_step b s = (CContinue, b', s')" "0 < b"
  shows "slice_less (b', s') (b, s)"
proof (cases "maintenance s")
  case Idle
  then have "s\<lparr>maintenance := Idle\<rparr> = s" by simp
  with Idle assms show ?thesis by (intro idle_branch_less) (simp_all add: slice_step_def)
next
  case (StartupCleanupDumpCollect i q bid c)
  with assms have "b' < b" by (auto simp: slice_step_def dest: collect_branch_less)
  then show ?thesis by (simp add: slice_measure_def)
next
  case (StartupCleanupDumpApply off bid c wt nf)
  with assms have "dump_apply_branch off bid c wt nf b (s\<lparr>maintenance := Idle\<rparr>) = (CContinue, b', s')"
    by (simp add: slice_step_def)
  from dump_apply_branch_less [OF this] StartupCleanupDumpApply show ?thesis
    by (intro slice_lessI) (auto simp: slice_rank_def)
next
  case (ResyncBuild bid)
  with assms have "b' < b" by (auto simp: slice_step_def dest: resync_build_branch_less)
  then show ?thesis by (simp add: slice_measure_def)
next
  case (ResyncApply ti ci bid m wt)
  with assms have "resync_apply_branch ti ci bid m wt b (s\<lparr>maintenance := Idle\<rparr>) = (CContinue, b', s')"
    by (simp add: slice_step_def)
  from resync_apply_branch_less [OF this] ResyncApply show ?thesis
    by (intro slice_lessI) (auto simp: slice_rank_def)
next
  case (CleanupTracked off bid c wt)
  with assms have "cleanup_tracked_branch off bid c wt b (s\<lparr>maintenance := Idle\<rparr>) = (CContinue, b', s')"
    by (simp add: slice_step_def)
  from cleanup_tracked_branch_less [OF this] CleanupTracked show ?thesis
    by (auto simp: slice_measure_def slice_rank_def)
qed

lemma slice_measure_wd: "slice_measure (b, s\<lparr>wd := w\<rparr>) = slice_measure (b, s)"
  by (simp add: slice_measure_def slice_rank_def cong: MaintenanceJob.case_cong)

function slice_loop :: "nat \<Rightarrow> usize \<Rightarrow> sys \<Rightarrow> (AppError + unit) \<times> sys" where
  "slice_loop slice_started budget s =
     (if budget > 0 then
        let (t, s) = now s in
        if t - slice_started < MAINTENANCE_TIME_BUDGET then
          (case slice_step budget s of
             (CContinue, budget, s) \<Rightarrow> slice_loop slice_started budget s
           | (CBreak, _, s) \<Rightarrow> (Inr (), s)
           | (CReturn e, _, s) \<Rightarrow> (Inl e, s))
        else (Inr (), s)
      else (Inr (), s))"
  by pat_completeness auto
termination
proof (relation "inv_image (less_than <*lex*> less_than <*lex*> less_than) (\<lambda>(t, b, s). slice_measure (b, s))", goal_cases)
  case 1
  show ?case by auto
next
  case (2 st b s x t s1 c y b' s')
  then have "s1 = s\<lparr>wd := snd (instant_now (wd s))\<rparr>" by (simp add: now_eq)
  moreover have "slice_less (b', s') (b, s1)" using 2 by (intro slice_step_less) simp_all
  ultimately show ?case by (simp add: slice_measure_wd)
qed

declare slice_loop.simps [simp del]

definition drive_maintenance_slice :: "unit handler" where
  "drive_maintenance_slice s =
     (let (slice_started, s) = now s in slice_loop slice_started MAINTENANCE_OP_BUDGET s)"

subsection \<open>The one-shot cleanup\<close>

record cleanup_acc =
  ca_removed :: usize
  ca_noop :: usize
  ca_failed :: usize
  ca_batch_id :: u64
  ca_chunk :: "RuleOp list"

text \<open>Applying the collected chunk and adding its result to the counters.\<close>

definition flush_chunk :: "cleanup_acc \<Rightarrow> sys \<Rightarrow> (AppError + unit) \<times> cleanup_acc \<times> sys" where
  "flush_chunk acc s =
     (let acc = acc\<lparr>ca_batch_id := ca_batch_id acc + 1\<rparr> in
      case apply_batch_blocking (ca_chunk acc) (ca_batch_id acc) s of
        (Inl e, s) \<Rightarrow> (Inl e, acc, s)
      | (Inr r, s) \<Rightarrow>
          (Inr (), acc\<lparr>ca_removed := ca_removed acc + ar_deleted r, ca_noop := ca_noop acc + ar_noop r,
                      ca_failed := ca_failed acc + ar_failed r, ca_chunk := []\<rparr>, s))"

definition push_target :: "usize \<Rightarrow> RuleOp \<Rightarrow> cleanup_acc \<Rightarrow> sys \<Rightarrow> (AppError + unit) \<times> cleanup_acc \<times> sys" where
  "push_target batch_size target acc s =
     (let acc = acc\<lparr>ca_chunk := ca_chunk acc @ [target]\<rparr> in
      if length (ca_chunk acc) \<ge> batch_size then flush_chunk acc s else (Inr (), acc, s))"

fun tracked_loop :: "usize \<Rightarrow> IpKey list \<Rightarrow> cleanup_acc \<Rightarrow> sys \<Rightarrow> (AppError + unit) \<times> cleanup_acc \<times> sys" where
  "tracked_loop batch_size [] acc s = (Inr (), acc, s)"
| "tracked_loop batch_size (key # keys) acc s =
     (case push_target batch_size \<lparr>op_addr = into_ip key, op_action = Delete\<rparr> acc s of
        (Inl e, acc, s) \<Rightarrow> (Inl e, acc, s)
      | (Inr _, acc, s) \<Rightarrow> tracked_loop batch_size keys acc s)"

text \<open>The closure of the dump variant applies a full chunk while the dump is being read.\<close>

fun dump_loop ::
  "usize \<Rightarrow> int list \<Rightarrow> cleanup_acc \<Rightarrow> sys \<Rightarrow> ((AppError + unit) \<times> cleanup_acc \<times> sys) option" where
  "dump_loop batch_size [] acc s = Some (Inr (), acc, s)"
| "dump_loop batch_size (family # families) acc s =
     (if family = AF_INET6 \<and> \<not> opt_ipv6 (opts s) then dump_loop batch_size families acc s
      else
        case dump_cleanup_targets_stream_with_scratch RuleSock (rule_ctx s) family
               (\<lambda>target (w, acc, s).
                  case push_target batch_size target acc (s\<lparr>wd := w\<rparr>) of
                    (r, acc, s) \<Rightarrow> (r, (wd s, acc, s)))
               (wd s, cleanup_seen s, acc, s) of
          None \<Rightarrow> None
        | Some (r, (w, seen, acc, s)) \<Rightarrow>
            let s = s\<lparr>wd := w, cleanup_seen := seen\<rparr> in
            (case r of Inl e \<Rightarrow> Some (Inl e, acc, s) | Inr _ \<Rightarrow> dump_loop batch_size families acc s))"

definition cleanup_rules :: "(IpKey list \<Rightarrow> IpKey list) \<Rightarrow> CleanupSource \<Rightarrow> sys \<Rightarrow> ((AppError + usize) \<times> sys) option" where
  "cleanup_rules ho source s =
     (let (started, s) = now s;
          batch_size = max (max (opt_batch_max (opts s)) CLEANUP_BATCH_SIZE) 1;
          acc = \<lparr>ca_removed = 0, ca_noop = 0, ca_failed = 0, ca_batch_id = 0, ca_chunk = []\<rparr>
      in
      case (case source of
              Tracked \<Rightarrow>
                let tracked = ho (sorted_list_of_set (owned_ips s)); s = s\<lparr>owned_ips := {}\<rparr>
                in Some (tracked_loop batch_size tracked acc s)
            | Dump \<Rightarrow> dump_loop batch_size [AF_INET, AF_INET6] acc s) of
        None \<Rightarrow> None
      | Some (Inl e, acc, s) \<Rightarrow> Some (Inl e, s)
      | Some (Inr _, acc, s) \<Rightarrow>
          (case (if ca_chunk acc \<noteq> [] then flush_chunk acc s else (Inr (), acc, s)) of
             (Inl e, acc, s) \<Rightarrow> Some (Inl e, s)
           | (Inr _, acc, s) \<Rightarrow>
               let (t, s) = now s
               in Some (Inr (ca_removed acc),
                    log (LogLine LInfo ''cleanup.result''
                      [(''source'', VStr (cleanup_source_name source)), (''count_removed'', VUsize (ca_removed acc)),
                       (''count_noop'', VUsize (ca_noop acc)), (''count_failed'', VUsize (ca_failed acc)),
                       (''duration_ms'', VU128 ((t - started) div 1000000))]) s)))"

end
