(* ===== verification/Event_Loop.thy ===== *)
theory Event_Loop
  imports Maintenance
begin

text \<open>
  \<^verbatim>\<open>src/daemon/service/event_loop.rs\<close> and the timer functions of \<^verbatim>\<open>src/daemon/service/lifecycle.rs\<close>: the
  reactor.

  One turn of the event loop is a function of what \<open>epoll_wait\<close> reported, with the reads of the
  signal and timer descriptors as inputs; the run of the daemon is the sequence of its turns.
\<close>

subsection \<open>Address events\<close>

record route_acc =
  ra_packets_left :: usize
  ra_processed :: usize
  ra_budget_hit :: bool
  ra_ring_full :: bool
  ra_parse_failed :: u64
  ra_touched :: bool

fun route_items ::
  "(AppError, NetlinkMessageView) res list \<Rightarrow> route_acc \<times> sys \<Rightarrow> route_acc \<times> sys" where
  "route_items [] st = st"
| "route_items (Inl _ # items) (a, s) =
     route_items items (a\<lparr>ra_parse_failed := u64_sat_add (ra_parse_failed a) 1\<rparr>, s)"
| "route_items (Inr msg # items) (a, s) =
     (let ty = uint (nlmsg_type (nv_header msg)) in
      if ty = uint RTM_NEWADDR \<or> ty = uint RTM_DELADDR then
        (case parse_addr_event msg (opt_ipv6 (opts s)) (filters s) of
           Inr (Some event) \<Rightarrow>
             let op = ev_op event;
                 s = log (emit_netlink_addr_event
                       \<lparr>nae_nlmsg_type = ucast (nlmsg_type (nv_header msg)), nae_nlmsg_seq = nlmsg_seq (nv_header msg),
                        nae_family = ucast (ev_family event), nae_ifindex = ev_ifindex event,
                        nae_addr = op_addr op, nae_flags = ev_flags event,
                        nae_op_action = rule_action_name (op_action op)\<rparr>) s;
                 s = s\<lparr>pending := AList.update (from_ip (op_addr op)) (op_action op) (pending s)\<rparr>
             in route_items items (a\<lparr>ra_touched := True\<rparr>, s)
         | Inr None \<Rightarrow> route_items items (a, s)
         | Inl _ \<Rightarrow> route_items items (a\<lparr>ra_parse_failed := u64_sat_add (ra_parse_failed a) 1\<rparr>, s))
      else route_items items (a, s))"

fun route_packets :: "bytes list \<Rightarrow> route_acc \<times> sys \<Rightarrow> route_acc \<times> sys" where
  "route_packets [] st = st"
| "route_packets (raw # pkts) (a, s) =
     (if ra_packets_left a = 0 then (a\<lparr>ra_budget_hit := True\<rparr>, s)
      else
        route_packets pkts
          (route_items (iter_all raw)
             (a\<lparr>ra_packets_left := ra_packets_left a - 1, ra_processed := ra_processed a + 1\<rparr>, s)))"

lemma route_items_left: "ra_packets_left (fst (route_items items st)) = ra_packets_left (fst st)"
  by (induction items st rule: route_items.induct)
    (auto simp: Let_def split: sum.splits option.splits)

lemma route_packets_left:
  "ra_packets_left (fst (route_packets pkts st)) \<le> ra_packets_left (fst st)"
proof (induction pkts st rule: route_packets.induct)
  case (2 raw pkts a s)
  then show ?case
    using route_items_left [of "iter_all raw"]
    by (cases "ra_packets_left a = 0") (auto intro: order_trans)
qed simp

function route_loop :: "route_acc \<times> sys \<Rightarrow> (AppError + unit) \<times> route_acc \<times> sys" where
  "route_loop (a, s) =
     (if ra_packets_left a > 0 then
        case sock_recv (route_slots s) RouteSock (wd s) of
          (Inl err, w) \<Rightarrow>
            if is_transient_recv_err err then (Inr (), a, s\<lparr>wd := w\<rparr>)
            else (Inl (AppError_from_io err), a, s\<lparr>wd := w\<rparr>)
        | (Inr pkts, w) \<Rightarrow>
            let s = s\<lparr>wd := w\<rparr> in
            if pkts = [] then (Inr (), a, s)
            else
              let (a, s) =
                    (if length pkts = route_slots s then
                       (a\<lparr>ra_ring_full := True\<rparr>,
                        (if route_slots s < ROUTE_RING_MAX_SLOTS
                         then s\<lparr>route_slots := max (route_slots s) (min (route_slots s * 2) ROUTE_RING_MAX_SLOTS)\<rparr>
                         else s))
                     else (a, s))
              in route_loop (route_packets pkts (a, s))
      else (Inr (), a, s))"
  by pat_completeness auto
termination
proof (relation "measure (\<lambda>(a, s). ra_packets_left a)", goal_cases)
  case 1
  show ?case by simp
next
  case (2 a s q w pkts s1 x a1 s2)
  then obtain p ps where pkts: "pkts = p # ps" by (cases pkts) auto
  have a1: "ra_packets_left a1 = ra_packets_left a" using 2 by (auto split: if_splits)
  let ?st = "route_items (iter_all p)
      (a1\<lparr>ra_packets_left := ra_packets_left a1 - 1, ra_processed := ra_processed a1 + 1\<rparr>, s2)"
  have "route_packets pkts (a1, s2) = route_packets ps ?st" using 2(1) a1 pkts by simp
  moreover have "ra_packets_left (fst (route_packets ps ?st)) \<le> ra_packets_left (fst ?st)"
    by (rule route_packets_left)
  moreover have "ra_packets_left (fst ?st) = ra_packets_left a1 - 1" by (simp add: route_items_left)
  ultimately show ?case using 2(1) a1 by (cases "route_packets ps ?st") auto
qed

declare route_loop.simps [simp del]

text \<open>The three steps that follow the drain: the deadlines, the ring size and the parse failures.\<close>

definition note_touched :: "route_acc \<Rightarrow> sys \<Rightarrow> sys" where
  "note_touched a s =
     (if ra_touched a then
        let (t, s) = now s;
            s = s\<lparr>quiet_deadline := Some (t + opt_debounce (opts s))\<rparr>
        in if max_deadline s = None
           then s\<lparr>max_deadline := Some (t + opt_debounce_max (opts s))\<rparr> else s
      else s)"

definition shrink_ring :: "route_acc \<Rightarrow> sys \<Rightarrow> sys" where
  "shrink_ring a s =
     (let low_threshold = max (route_slots s div 4) 1 in
      if ra_processed a \<le> low_threshold then
        let s = s\<lparr>route_ring_calm_streak := u8_sat_inc (route_ring_calm_streak s)\<rparr> in
        if route_ring_calm_streak s \<ge> 12 \<and> route_slots s > ROUTE_RING_MIN_SLOTS
        then s\<lparr>route_slots := max (route_slots s div 2) ROUTE_RING_MIN_SLOTS,
               route_ring_calm_streak := 0\<rparr>
        else s
      else s\<lparr>route_ring_calm_streak := 0\<rparr>)"

definition note_parse_failed :: "route_acc \<Rightarrow> sys \<Rightarrow> sys" where
  "note_parse_failed a s =
     (if ra_parse_failed a > 0 then
        let s = s\<lparr>dropped_count := u64_sat_add (dropped_count s) (ra_parse_failed a)\<rparr>;
            s = note_event_drop (dropped_count s) s;
            s = s\<lparr>resync_requested := True\<rparr>
        in if \<not> resync_compensate_pending s
           then log (LogLine LWarn ''sync.compensate_resync''
                  [(''reason'', VStr ''parse_failed''), (''count_failed'', VU64 (ra_parse_failed a))])
                (s\<lparr>resync_compensate_pending := True\<rparr>)
           else s
      else s)"

definition handle_route_events :: "unit handler" where
  "handle_route_events s =
     (let a = \<lparr>ra_packets_left = budget_current (route_budget s), ra_processed = 0, ra_budget_hit = False,
               ra_ring_full = False, ra_parse_failed = 0, ra_touched = False\<rparr>
      in
      case route_loop (a, s) of
        (Inl e, a, s) \<Rightarrow> (Inl e, s)
      | (Inr _, a, s) \<Rightarrow>
          let s = s\<lparr>route_budget := RouteBudgetState_update (ra_processed a) (ra_budget_hit a \<or> ra_ring_full a)
                      (route_budget s)\<rparr>
          in (Inr (), note_parse_failed a (shrink_ring a (note_touched a s))))"

subsection \<open>Signals\<close>

text \<open>A read of the signal descriptor: a complete record, an error, or any other length.\<close>

datatype sig_read = SigInfo int | SigErr io_error | SigOther

fun handle_signals :: "sig_read list \<Rightarrow> sys \<Rightarrow> (AppError + unit) \<times> sys" where
  "handle_signals [] s = (Inr (), s)"
| "handle_signals (SigInfo signo # reads) s =
     (if signo = SIGUSR1
      then handle_signals reads
             (log (LogLine LInfo ''daemon.signal'' [(''signo'', VU32 (word_of_int signo)), (''action'', VStr ''resync'')])
               (s\<lparr>resync_requested := True\<rparr>))
      else handle_signals reads
             (log (LogLine LInfo ''daemon.signal'' [(''signo'', VU32 (word_of_int signo)), (''action'', VStr ''stop'')])
               (s\<lparr>shutdown_requested := True\<rparr>)))"
| "handle_signals (SigErr err # reads) s =
     (if os_error_matches err (\<lambda>code. code = EAGAIN \<or> code = EWOULDBLOCK) then (Inr (), s)
      else if os_error_matches err (\<lambda>code. code = EINTR) then handle_signals reads s
      else (Inl (Io err), s))"
| "handle_signals (SigOther # reads) s = (Inr (), s)"

subsection \<open>The timer\<close>

datatype timer_read = TimerExpired | TimerErr io_error | TimerOther

fun flush_timerfd :: "timer_read list \<Rightarrow> (AppError, unit) res" where
  "flush_timerfd [] = Inr ()"
| "flush_timerfd (TimerExpired # reads) = flush_timerfd reads"
| "flush_timerfd (TimerErr err # reads) =
     (if os_error_matches err (\<lambda>code. code = EAGAIN \<or> code = EWOULDBLOCK) then Inr ()
      else if os_error_matches err (\<lambda>code. code = EINTR) then flush_timerfd reads
      else Inl (Io err))"
| "flush_timerfd (TimerOther # reads) = Inr ()"

text \<open>The \<open>it_value\<close> handed to \<open>timerfd_settime\<close> (all zero disarms), and the result of the call.\<close>

definition arm_timer :: "io_error option \<Rightarrow> nat option \<Rightarrow> sys \<Rightarrow> (AppError + nat \<times> nat) \<times> sys" where
  "arm_timer settime_err deadline s =
     (let (spec, s) =
            (case deadline of
               None \<Rightarrow> ((0, 0), s)
             | Some d \<Rightarrow>
                 let (t, s) = now s; remain = d - t; nanos = max remain 1
                 in ((nanos div 1000000000, nanos mod 1000000000), s))
      in case settime_err of
           Some err \<Rightarrow> (Inl (from_required_syscall_io err), s)
         | None \<Rightarrow> (Inr spec, s))"

subsection \<open>One turn\<close>

definition drive_reactor ::
  "((IpKey \<times> RuleAction) list \<Rightarrow> (IpKey \<times> RuleAction) list) \<Rightarrow> unit handler" where
  "drive_reactor ho s =
     (let (t, s) = now s;
          s = (case inflight s of
                 Some b \<Rightarrow> if t \<ge> if_ack_deadline b then handle_ack_timeout s else s
               | None \<Rightarrow> s)
      in
      case (if inflight s = None \<and> should_flush_pending s t (shutdown_requested s)
            then start_pending_batch ho s else (Inr False, s)) of
        (Inl e, s) \<Rightarrow> (Inl e, s)
      | (Inr _, s) \<Rightarrow> if inflight s = None then drive_maintenance_slice s else (Inr (), s))"

datatype ep_event = EvRoute | EvRule | EvSignal "sig_read list" | EvTimer "timer_read list" | EvUnknown

fun handle_event :: "ep_event \<Rightarrow> unit handler" where
  "handle_event EvRoute s = handle_route_events s"
| "handle_event EvRule s = drain_rule_acks_once s"
| "handle_event (EvSignal reads) s = handle_signals reads s"
| "handle_event (EvTimer reads) s = (flush_timerfd reads, s)"
| "handle_event EvUnknown s = (Inr (), s)"

fun handle_events :: "ep_event list \<Rightarrow> unit handler" where
  "handle_events [] s = (Inr (), s)"
| "handle_events (e # es) s =
     (case handle_event e s of (Inl err, s) \<Rightarrow> (Inl err, s) | (Inr _, s) \<Rightarrow> handle_events es s)"

definition loop_exit :: "sys \<Rightarrow> bool" where
  "loop_exit s \<longleftrightarrow>
     shutdown_requested s \<and> pending s = [] \<and> inflight s = None \<and> maintenance s = Idle \<and> shutdown_cleanup_done s"

datatype turn_input = EpollErr io_error | EpollEvents "ep_event list" "io_error option"

datatype turn_result = TurnExit | TurnArmed "nat \<times> nat" | TurnRetry

definition loop_turn ::
  "((IpKey \<times> RuleAction) list \<Rightarrow> (IpKey \<times> RuleAction) list) \<Rightarrow> turn_input \<Rightarrow> turn_result handler" where
  "loop_turn ho inp s =
     (case inp of
        EpollErr err \<Rightarrow>
          if os_error_matches err (\<lambda>code. code = EINTR) then (Inr TurnRetry, s) else (Inl (Io err), s)
      | EpollEvents evs settime_err \<Rightarrow>
          (case handle_events (take 32 evs) s of
             (Inl e, s) \<Rightarrow> (Inl e, s)
           | (Inr _, s) \<Rightarrow>
               (case drive_reactor ho s of
                  (Inl e, s) \<Rightarrow> (Inl e, s)
                | (Inr _, s) \<Rightarrow>
                    if loop_exit s then (Inr TurnExit, s)
                    else
                      let (d, s) = next_deadline s in
                      (case arm_timer settime_err d s of
                         (Inl e, s) \<Rightarrow> (Inl e, s)
                       | (Inr spec, s) \<Rightarrow> (Inr (TurnArmed spec), s)))))"

text \<open>The turns of a run, until the loop exits, fails or the inputs end.\<close>

fun loop_turns ::
  "((IpKey \<times> RuleAction) list \<Rightarrow> (IpKey \<times> RuleAction) list) \<Rightarrow> turn_input list \<Rightarrow> sys \<Rightarrow> (AppError + bool) \<times> sys" where
  "loop_turns ho [] s = (Inr False, s)"
| "loop_turns ho (inp # inps) s =
     (case loop_turn ho inp s of
        (Inl e, s) \<Rightarrow> (Inl e, s)
      | (Inr TurnExit, s) \<Rightarrow> (Inr True, s)
      | (Inr _, s) \<Rightarrow> loop_turns ho inps s)"

text \<open>
  The whole loop: the timer is armed once before the first wait (\<open>settime_err\<close> is the failure of
  that call, if any), then the turns follow.
\<close>

definition event_loop ::
  "((IpKey \<times> RuleAction) list \<Rightarrow> (IpKey \<times> RuleAction) list) \<Rightarrow> io_error option \<Rightarrow> turn_input list \<Rightarrow> sys \<Rightarrow>
   (AppError + bool) \<times> sys" where
  "event_loop ho settime_err inps s =
     (let (d, s) = next_deadline s in
      case arm_timer settime_err d s of
        (Inl e, s) \<Rightarrow> (Inl e, s)
      | (Inr _, s) \<Rightarrow> loop_turns ho inps s)"

text \<open>
  Packets received beyond the drain budget are dropped: the packets of one receive that exceed what
  is left of the budget have no effect at all, although the socket has already given them up; no event
  is recorded for them, no parse failure is counted and no resync is requested.
\<close>

theorem excess_packets_dropped:
  assumes "ra_packets_left a < length pkts"
  shows "route_packets pkts (a, s) =
    (case route_packets (take (ra_packets_left a) pkts) (a, s) of (a', s') \<Rightarrow> (a'\<lparr>ra_budget_hit := True\<rparr>, s'))"
  using assms
proof (induction pkts arbitrary: a s)
  case (Cons raw pkts)
  show ?case
  proof (cases "ra_packets_left a")
    case 0
    then show ?thesis by simp
  next
    case (Suc n)
    obtain a1 s1 where it: "route_items (iter_all raw)
        (a\<lparr>ra_packets_left := ra_packets_left a - 1, ra_processed := ra_processed a + 1\<rparr>, s) = (a1, s1)" by fastforce
    then have "ra_packets_left a1 = n"
      using route_items_left [of "iter_all raw"
          "(a\<lparr>ra_packets_left := ra_packets_left a - 1, ra_processed := ra_processed a + 1\<rparr>, s)"] Suc by simp
    with Cons it Suc show ?thesis by simp
  qed
qed simp

theorem excess_packets_dropped_witness:
  "route_packets [[], [1, 2, 3]] (\<lparr>ra_packets_left = 1, ra_processed = 0, ra_budget_hit = False, ra_ring_full = False,
     ra_parse_failed = 0, ra_touched = False\<rparr>, sample_sys) =
   (\<lparr>ra_packets_left = 0, ra_processed = 1, ra_budget_hit = True, ra_ring_full = False,
     ra_parse_failed = 0, ra_touched = False\<rparr>, sample_sys)"
  using excess_packets_dropped [of "\<lparr>ra_packets_left = 1, ra_processed = 0, ra_budget_hit = False, ra_ring_full = False,
     ra_parse_failed = 0, ra_touched = False\<rparr>" "[[], [1, 2, 3]]" sample_sys]
  by simp

end
