(* ===== verification/Kernel_Sync.thy ===== *)
theory Kernel_Sync
  imports Batch_Apply
begin

text \<open>
  The kernel's rule table as the abstract specification of what a batch has to achieve.

  The daemon manages the rules of one priority and table, so a rule is identified by its address and
  the kernel's side is a set of addresses. \<open>kernel_step\<close> is the documented behaviour of \<open>RTM_NEWRULE\<close>
  with \<open>NLM_F_EXCL\<close> and of \<open>RTM_DELRULE\<close>, with the possibility that the kernel refuses a request for
  any other reason. The lemmas relate \<open>owned_ips\<close> to that set across a batch.
\<close>

inductive kernel_step :: "IpKey set \<Rightarrow> RuleOp \<Rightarrow> int \<Rightarrow> IpKey set \<Rightarrow> bool" where
  add_new: "is_add op \<Longrightarrow> op_key op \<notin> K \<Longrightarrow> kernel_step K op 0 (insert (op_key op) K)"
| add_exists: "is_add op \<Longrightarrow> op_key op \<in> K \<Longrightarrow> kernel_step K op EEXIST K"
| del_present: "\<not> is_add op \<Longrightarrow> op_key op \<in> K \<Longrightarrow> kernel_step K op 0 (K - {op_key op})"
| del_absent: "\<not> is_add op \<Longrightarrow> op_key op \<notin> K \<Longrightarrow> kernel_step K op ENOENT K"
| refused: "e \<notin> {0, EEXIST, ENOENT, ESRCH} \<Longrightarrow> kernel_step K op e K"

inductive_cases kernel_stepE: "kernel_step K op e K'"

fun kernel_batch :: "IpKey set \<Rightarrow> RuleOp list \<Rightarrow> int list \<Rightarrow> IpKey set \<Rightarrow> bool" where
  "kernel_batch K [] es K' \<longleftrightarrow> es = [] \<and> K' = K"
| "kernel_batch K (op # ops) es K' \<longleftrightarrow>
     (\<exists>e es' K1. es = e # es' \<and> kernel_step K op e K1 \<and> kernel_batch K1 ops es' K')"

text \<open>What the daemon does to its set when the operation is answered with an error number.\<close>

definition own_step :: "RuleOp \<Rightarrow> int \<Rightarrow> IpKey set \<Rightarrow> IpKey set" where
  "own_step op e owned =
     (if e = 0 then (if is_add op then insert (op_key op) owned else owned - {op_key op}) else owned)"

lemma kernel_step_other: "kernel_step K op e K' \<Longrightarrow> k \<noteq> op_key op \<Longrightarrow> k \<in> K' \<longleftrightarrow> k \<in> K"
  by (auto elim: kernel_stepE)

lemma should_skip_eq: "should_skip owned op \<longleftrightarrow> (is_add op \<longleftrightarrow> op_key op \<in> owned)"
  by (cases "op_action op") (simp_all add: should_skip_def op_key_def is_add_def)

lemma kernel_step_owned:
  assumes "kernel_step K op e K'" "owned \<subseteq> K"
  shows "own_step op e owned \<subseteq> K'"
    and "\<not> should_skip owned op \<Longrightarrow> K' - own_step op e owned = K - owned"
  using assms by (auto elim!: kernel_stepE simp: own_step_def should_skip_eq)

lemma kernel_step_effect:
  assumes "kernel_step K op e K'"
  shows "is_add op \<Longrightarrow> e \<in> {0, EEXIST} \<Longrightarrow> op_key op \<in> K'"
    and "\<not> is_add op \<Longrightarrow> e \<in> {0, ENOENT} \<Longrightarrow> op_key op \<notin> K'"
  using assms by (auto elim!: kernel_stepE)

lemma kernel_batch_other:
  "kernel_batch K ops es K' \<Longrightarrow> k \<notin> op_key ` set ops \<Longrightarrow> k \<in> K' \<longleftrightarrow> k \<in> K"
  by (induction ops arbitrary: K es) (auto dest: kernel_step_other)

lemma kernel_batch_length: "kernel_batch K ops es K' \<Longrightarrow> length es = length ops"
  by (induction ops arbitrary: K es) auto

lemma should_skip_own_step:
  "op_key op \<noteq> op_key op' \<Longrightarrow> should_skip (own_step op e owned) op' = should_skip owned op'"
  by (auto simp: should_skip_eq own_step_def)

definition own_batch :: "(RuleOp \<times> int) list \<Rightarrow> IpKey set \<Rightarrow> IpKey set" where
  "own_batch = fold (\<lambda>(op, e). own_step op e)"

lemma own_batch_simps [simp]:
  "own_batch [] owned = owned" "own_batch ((op, e) # oes) owned = own_batch oes (own_step op e owned)"
  by (simp_all add: own_batch_def)

lemma own_batch_subset: "kernel_batch K ops es K' \<Longrightarrow> owned \<subseteq> K \<Longrightarrow> own_batch (zip ops es) owned \<subseteq> K'"
proof (induction ops arbitrary: K es owned)
  case (Cons op ops)
  then obtain e es' K1 where "es = e # es'" "kernel_step K op e K1" "kernel_batch K1 ops es' K'" by auto
  with Cons kernel_step_owned(1) show ?case by simp
qed simp

lemma own_batch_foreign:
  "kernel_batch K ops es K' \<Longrightarrow> owned \<subseteq> K \<Longrightarrow> distinct (map op_key ops) \<Longrightarrow>
   list_all (\<lambda>op. \<not> should_skip owned op) ops \<Longrightarrow> K' - own_batch (zip ops es) owned = K - owned"
proof (induction ops arbitrary: K es owned)
  case (Cons op ops)
  then obtain e es' K1 where k: "es = e # es'" "kernel_step K op e K1" "kernel_batch K1 ops es' K'" by auto
  have "op_key op \<noteq> op_key o2" if "o2 \<in> set ops" for o2 using Cons.prems(3) that by auto
  then have "list_all (\<lambda>o2. \<not> should_skip (own_step op e owned) o2) ops"
    using Cons.prems(4) by (simp add: list_all_iff should_skip_own_step)
  with Cons kernel_step_owned(1,2) [OF k(2)] k show ?case by auto
qed simp

lemma kernel_batch_effect:
  assumes "kernel_batch K ops es K'" "distinct (map op_key ops)" "i < length ops"
  shows "is_add (ops ! i) \<Longrightarrow> es ! i \<in> {0, EEXIST} \<Longrightarrow> op_key (ops ! i) \<in> K'"
    and "\<not> is_add (ops ! i) \<Longrightarrow> es ! i \<in> {0, ENOENT} \<Longrightarrow> op_key (ops ! i) \<notin> K'"
proof -
  have "(is_add (ops ! i) \<and> es ! i \<in> {0, EEXIST} \<longrightarrow> op_key (ops ! i) \<in> K') \<and>
      (\<not> is_add (ops ! i) \<and> es ! i \<in> {0, ENOENT} \<longrightarrow> op_key (ops ! i) \<notin> K')"
    using assms
  proof (induction ops arbitrary: K es i)
    case (Cons op ops)
    then obtain e es' K1 where k: "es = e # es'" "kernel_step K op e K1" "kernel_batch K1 ops es' K'" by auto
    show ?case
    proof (cases i)
      case 0
      have "op_key op \<notin> op_key ` set ops" using Cons.prems(2) by simp
      from kernel_batch_other [OF k(3) this] kernel_step_effect [OF k(2)] k 0
      show ?thesis by simp
    next
      case (Suc j)
      with Cons k show ?thesis by simp
    qed
  qed simp
  then show "is_add (ops ! i) \<Longrightarrow> es ! i \<in> {0, EEXIST} \<Longrightarrow> op_key (ops ! i) \<in> K'"
    and "\<not> is_add (ops ! i) \<Longrightarrow> es ! i \<in> {0, ENOENT} \<Longrightarrow> op_key (ops ! i) \<notin> K'" by blast+
qed

subsection \<open>The tracker as the record of the kernel's answers\<close>

text \<open>The tracker has seen an answer for every operation, with the given error numbers.\<close>

definition answered :: "AckTracker \<Rightarrow> int list \<Rightarrow> bool" where
  "answered t es \<longleftrightarrow>
     (\<forall>i < length es. seen_at t i \<and>
        map_option st_errno (status_at t i) = (if es ! i = 0 then None else Some (es ! i)))"

lemma own_effect_answered:
  assumes "answered t es" "i < length es"
  shows "own_effect t (i, op) owned = own_step op (es ! i) owned"
  using assms
  by (auto simp: answered_def own_effect_def own_step_def ack_class_def classify_ack_for_op_def is_add_def
      split: option.splits RuleAction.splits if_splits)

lemma fold_own_effect_answered:
  assumes "answered t es" "length es = length ops"
  shows "fold (own_effect t) (indexed ops) owned = own_batch (zip ops es) owned"
proof -
  have "fold (own_effect t) (zip [k..<k + length xs] xs) owned = own_batch (zip xs (drop k es)) owned"
    if "k + length xs = length es" for k xs owned
    using that
  proof (induction xs arbitrary: k owned)
    case (Cons x xs)
    have k: "k < length es" using Cons.prems by simp
    then have d: "drop k es = es ! k # drop (Suc k) es" by (simp add: Cons_nth_drop_Suc)
    have "[k..<k + length (x # xs)] = k # [Suc k..<Suc k + length xs]"
      by (simp add: upt_conv_Cons del: upt_Suc)
    with Cons.IH [of "Suc k"] Cons.prems own_effect_answered [OF assms(1) k] d show ?case
      by (simp del: upt_Suc)
  qed simp
  from this [of 0 ops] assms(2) show ?thesis by simp
qed

lemma commit_owned:
  assumes "commit_ack_outcomes ctx ops t s = (r, s')" "answered t es" "length es = length ops"
  shows "owned_ips s' = own_batch (zip ops es) (owned_ips s)"
proof -
  obtain lg w d where c: "commit_ack_outcomes ctx ops t s =
     (Inr \<lparr>ar_input = cc_input_count ctx, ar_noop = cc_noop_prefilter ctx + count_if (is_noop t) (indexed ops),
           ar_added = count_if (is_applied t Add) (indexed ops),
           ar_deleted = count_if (is_applied t Delete) (indexed ops),
           ar_failed = count_if (is_failed t) (indexed ops), ar_duration = d\<rparr>,
      s\<lparr>owned_ips := fold (own_effect t) (indexed ops) (owned_ips s), logged := lg, wd := w\<rparr>)"
    using commit_ack_outcomes_spec by blast
  have "s' = s\<lparr>owned_ips := fold (own_effect t) (indexed ops) (owned_ips s), logged := lg, wd := w\<rparr>"
    using assms(1) unfolding c by (simp only: prod.inject)
  then show ?thesis using fold_own_effect_answered [OF assms(2,3)] by simp
qed

subsection \<open>Answers on the wire\<close>

definition ack_code :: "NetlinkMessageView \<Rightarrow> int option" where
  "ack_code m = (case parse_ack_error_info (nv_data m) of
     Inl _ \<Rightarrow> None | Inr None \<Rightarrow> Some 0 | Inr (Some info) \<Rightarrow> Some (ack_errno info))"

text \<open>
  Messages that answer a batch of \<open>length es\<close> operations numbered from \<open>f\<close>: every operation is
  answered, only with its own error number. Other messages may be in between, and answers may repeat.
\<close>

definition answers :: "u32 \<Rightarrow> int list \<Rightarrow> NetlinkMessageView list \<Rightarrow> bool" where
  "answers f es msgs \<longleftrightarrow>
     (\<forall>i < length es. \<exists>m \<in> set msgs. ack_for f (length es) m i) \<and>
     (\<forall>m \<in> set msgs. \<forall>i < length es. ack_for f (length es) m i \<longrightarrow> ack_code m = Some (es ! i))"

lemma ack_errno_nonzero:
  assumes "parse_ack_error_info d = Inr (Some info)"
  shows "ack_errno info \<noteq> 0"
proof -
  have "sint (- code :: u32) \<noteq> 0" if "code \<noteq> 0" for code
    using that by (metis neg_equal_0_iff_equal signed_0 signed_eq_0_iff)
  with assms show ?thesis
    by (auto simp: parse_ack_error_info_cases parse_ack_errno_def Let_def split: if_splits)
qed

lemma ack_code_answer:
  assumes "ack_code m = Some e"
  shows "\<not> isl (parse_ack_error_info (nv_data m))"
    and "map_option st_errno (ack_answer m) = (if e = 0 then None else Some e)"
  using assms ack_errno_nonzero
  by (auto simp: ack_code_def ack_answer_def ack_status_def split: sum.splits option.splits)

lemma answers_answered:
  assumes "answers f es msgs" "n = length es"
  shows "answered (fold (track_msg f n) msgs (tracker_prepare n t)) es"
    and "list_all (readable_msg f n) msgs"
    and "tr_pending (fold (track_msg f n) msgs (tracker_prepare n t)) = 0"
proof -
  let ?t = "fold (track_msg f n) msgs (tracker_prepare n t)"
  have hit: "\<exists>m \<in> set msgs. ack_for f n m i" if "i < n" for i using assms that by (simp add: answers_def)
  have own: "ack_code m = Some (es ! i)" if "m \<in> set msgs" "i < n" "ack_for f n m i" for m i
    using assms that by (simp add: answers_def)
  show "tr_pending ?t = 0" using hit by (simp add: tr.finished_iff_all_answered)
  show "list_all (readable_msg f n) msgs"
    using own ack_code_answer(1) by (auto simp: list_all_iff readable_msg_def)
  have "seen_at ?t i \<and> map_option st_errno (status_at ?t i) = (if es ! i = 0 then None else Some (es ! i))"
    if i: "i < n" for i
  proof -
    obtain m where m: "find (\<lambda>m. ack_for f n m i) msgs = Some m"
      using hit [OF i] by (cases "find (\<lambda>m. ack_for f n m i) msgs") (auto simp: find_None_iff)
    then have "m \<in> set msgs" "ack_for f n m i" by (auto simp: find_Some_iff)
    with tr.first_answer_kept [OF m] ack_code_answer(2) [OF own] i
    have "map_option st_errno (status_at ?t i) = (if es ! i = 0 then None else Some (es ! i))" by simp
    moreover have "seen_at ?t i"
      using hit [OF i] tr.seen_fold [OF tr.ok_prepare] by (simp add: list_ex_iff)
    ultimately show ?thesis by simp
  qed
  then show "answered ?t es" using assms(2) by (simp add: answered_def)
qed

subsection \<open>A batch from the event loop's point of view\<close>

lemma recycle_ops_frame [simp]:
  "owned_ips (recycle_ops s) = owned_ips s" "inflight (recycle_ops s) = inflight s"
  by (simp_all add: recycle_ops_def pool_push_def)

lemma log_batch_result_frame [simp]:
  "owned_ips (log_batch_result bid r s) = owned_ips s" "inflight (log_batch_result bid r s) = inflight s"
  by (simp_all add: log_batch_result_def)

lemma finish_owned:
  assumes "inflight s = Some b" "finish_inflight_batch s = (r, s')"
    "answered (if_tracker b) es" "length es = length (if_ops b)"
  shows "r = Inr ()" "inflight s' = None" "owned_ips s' = own_batch (zip (if_ops b) es) (owned_ips s)"
proof -
  let ?ctx = "\<lparr>cc_batch_id = if_batch_id b, cc_first_seq = if_first_seq b, cc_started_at = if_started_at b,
     cc_input_count = if_input_count b, cc_noop_prefilter = if_noop_prefilter b\<rparr>"
  obtain q s1 where c: "commit_ack_outcomes ?ctx (if_ops b) (if_tracker b) (s\<lparr>inflight := None\<rparr>) = (q, s1)"
    by fastforce
  obtain res where q: "q = Inr res" and fr: "inflight s1 = None"
    using commit_ack_outcomes_spec [of ?ctx "if_ops b" "if_tracker b" "s\<lparr>inflight := None\<rparr>"] c by auto
  have own: "owned_ips s1 = own_batch (zip (if_ops b) es) (owned_ips s)"
    using commit_owned [OF c assms(3,4)] by simp
  have "r = Inr () \<and> inflight s' = None \<and> owned_ips s' = owned_ips s1"
    using assms(1,2) c q fr
    by (cases "if_owner b = OwnerMaintenance") (simp_all add: finish_inflight_batch_def Let_def, auto)
  with own show "r = Inr ()" "inflight s' = None"
    "owned_ips s' = own_batch (zip (if_ops b) es) (owned_ips s)" by simp_all
qed

lemma drain_owned:
  assumes b: "inflight s = Some b" "if_tracker b = tracker_prepare (length (if_ops b)) t0"
    and rx: "rx_script (socks (wd s) RuleSock) = map RecvOk bs" "list_all recv_batch bs"
    and ans: "answers (if_first_seq b) es (concat (map batch_views bs))" "length es = length (if_ops b)"
    and d: "drain_rule_acks_once s = (r, s')"
  shows "r = Inr ()" "inflight s' = None" "owned_ips s' = own_batch (zip (if_ops b) es) (owned_ips s)"
proof -
  let ?n = "length (if_ops b)"
  let ?t = "fold (track_msg (if_first_seq b) ?n) (concat (map batch_views bs)) (tracker_prepare ?n t0)"
  let ?w = "upd_sock RuleSock (\<lambda>s. s\<lparr>rx_script := []\<rparr>) (wd s)"
  let ?s = "s\<lparr>wd := ?w, inflight := Some (b\<lparr>if_tracker := ?t\<rparr>)\<rparr>"
  note aa = answers_answered [OF ans(1) ans(2) [symmetric]]
  have "list_all (list_all (readable_msg (if_first_seq b) ?n) \<circ> batch_views) bs"
    using aa(2) by (auto simp: list_all_iff)
  from drain_acked [OF rx this, of "tracker_prepare ?n t0"]
  have "drain_apply_ack_messages RuleSock (if_first_seq b) (if_ops b) (if_tracker b) (wd s) = (Inr (), ?t, ?w)"
    using b(2) by simp
  then have "finish_inflight_batch ?s = (r, s')"
    using d b(1) aa(3) by (simp add: drain_rule_acks_once_def Let_def)
  from finish_owned [OF _ this, where b = "b\<lparr>if_tracker := ?t\<rparr>" and es = es] aa(1) ans(2)
  show "r = Inr ()" "inflight s' = None" "owned_ips s' = own_batch (zip (if_ops b) es) (owned_ips s)"
    by simp_all
qed

lemma start_batch_sent:
  assumes "start_batch owner bid ic np ops s = (Inr u, s')" "ops \<noteq> []"
  shows "\<exists>b. inflight s' = Some b \<and> if_ops b = ops \<and> if_owner b = owner \<and>
    if_tracker b = tracker_prepare (length ops) (ack_tracker_reuse s) \<and>
    if_first_seq b = normalize_seq (seq_cell (wd s)) \<and> owned_ips s' = owned_ips s \<and>
    tx_log (socks (wd s') RuleSock) =
      tx_log (socks (wd s) RuleSock) @ batch_messages (rule_ctx s) (if_first_seq b) ops"
proof -
  obtain r sc t w where st: "start_apply_rules_batch RuleSock (rule_ctx s) ops (apply_scratch s) (ack_tracker_reuse s) (wd s)
      = (r, sc, t, w)" by (metis prod_cases4)
  obtain f where r: "r = Inr f" using assms(1) st by (cases r) (simp_all add: start_batch_def)
  let ?f = "normalize_seq (seq_cell (wd s))"
  obtain q w1 where s: "send_loop RuleSock (batch_messages (rule_ctx s) ?f ops) ((wd s)\<lparr>seq_cell := seq_advance ?f (length ops)\<rparr>) = (q, w1)"
    by fastforce
  have q: "q = Inr ()" "f = ?f" "t = tracker_prepare (length ops) (ack_tracker_reuse s)" "w = w1"
    using start_apply_rules_batch_eq [OF assms(2), of RuleSock "rule_ctx s" "apply_scratch s" "ack_tracker_reuse s" "wd s"]
      st r s by (cases q; auto)+
  have "tx_log (socks w RuleSock) = tx_log (socks (wd s) RuleSock) @ batch_messages (rule_ctx s) f ops"
    using send_loop_log [OF s] q by auto
  then show ?thesis
    using assms(1) st r q by (auto simp: start_batch_def now_eq Let_def)
qed

lemma answered_batch_spec:
  assumes "inflight s = Some b" "if_tracker b = tracker_prepare (length (if_ops b)) t0"
    "distinct (map op_key (if_ops b))" "owned_ips s \<subseteq> K" "kernel_batch K (if_ops b) es K'"
    "rx_script (socks (wd s) RuleSock) = map RecvOk bs" "list_all recv_batch bs"
    "answers (if_first_seq b) es (concat (map batch_views bs))"
  shows "\<exists>s'. drain_rule_acks_once s = (Inr (), s') \<and> inflight s' = None \<and> owned_ips s' \<subseteq> K' \<and>
    (list_all (\<lambda>op. \<not> should_skip (owned_ips s) op) (if_ops b) \<longrightarrow> K' - owned_ips s' = K - owned_ips s) \<and>
    (\<forall>i < length (if_ops b).
       (is_add (if_ops b ! i) \<and> es ! i \<in> {0, EEXIST} \<longrightarrow> op_key (if_ops b ! i) \<in> K') \<and>
       (\<not> is_add (if_ops b ! i) \<and> es ! i \<in> {0, ENOENT} \<longrightarrow> op_key (if_ops b ! i) \<notin> K'))"
proof -
  obtain r s' where d: "drain_rule_acks_once s = (r, s')" by fastforce
  note o = drain_owned [OF assms(1,2,6-8) kernel_batch_length [OF assms(5)] d]
  have "owned_ips s' \<subseteq> K'" using own_batch_subset [OF assms(5,4)] o(3) by simp
  moreover have "list_all (\<lambda>op. \<not> should_skip (owned_ips s) op) (if_ops b) \<longrightarrow> K' - owned_ips s' = K - owned_ips s"
    using own_batch_foreign [OF assms(5,4,3)] o(3) by simp
  ultimately show ?thesis
    using d o(1,2) kernel_batch_effect [OF assms(5,3)] by blast
qed

text \<open>
  C2. Once a batch is answered, the daemon's view agrees with the kernel: if every owned address had a
  rule when the kernel processed the batch, then draining the answers, in whatever order, packets and
  mixture they come, finishes the batch and leaves only addresses with a rule in the owned set; every
  addition answered with success or \<open>EEXIST\<close> has its rule and no deletion answered with success or
  \<open>ENOENT\<close> does; and if the batch was prefiltered, the rules that are not the daemon's are untouched.
\<close>

theorem answered_batch_matches_kernel:
  assumes "inflight s = Some b" "if_tracker b = tracker_prepare (length (if_ops b)) t0"
    "distinct (map op_key (if_ops b))" "owned_ips s \<subseteq> K" "kernel_batch K (if_ops b) es K'"
    "rx_script (socks (wd s) RuleSock) = map RecvOk bs" "list_all recv_batch bs"
    "answers (if_first_seq b) es (concat (map batch_views bs))"
  shows "\<exists>s'. drain_rule_acks_once s = (Inr (), s') \<and> inflight s' = None \<and> owned_ips s' \<subseteq> K' \<and>
    (list_all (\<lambda>op. \<not> should_skip (owned_ips s) op) (if_ops b) \<longrightarrow> K' - owned_ips s' = K - owned_ips s) \<and>
    (\<forall>i < length (if_ops b).
       (is_add (if_ops b ! i) \<and> es ! i \<in> {0, EEXIST} \<longrightarrow> op_key (if_ops b ! i) \<in> K') \<and>
       (\<not> is_add (if_ops b ! i) \<and> es ! i \<in> {0, ENOENT} \<longrightarrow> op_key (if_ops b ! i) \<notin> K'))"
  using assms by (rule answered_batch_spec)

lemma kernel_ack_code:
  assumes "0 \<le> e" "e < 2 ^ 31"
  shows "ack_code (frame_view (kernel_ack seq e)) = Some e"
  using parse_ack_errno_enc [OF assms, of "replicate 16 0"]
  by (simp add: ack_code_def kernel_ack_frame parse_ack_error_info_cases Let_def)

lemma single_ack_answers:
  assumes "0 \<le> e" "e < 2 ^ 31"
  shows "answers f [e] (concat (map batch_views [[kernel_ack (seq_with_offset f 0) e]]))"
  using kernel_acks_batch [of "[(seq_with_offset f 0, e)]"] kernel_ack_for [of f 1 0 e 0] kernel_ack_code [OF assms]
  by (simp add: answers_def)

theorem answered_batch_matches_kernel_witness:
  "\<exists>s'. drain_rule_acks_once
     (sample_sys\<lparr>inflight := Some \<lparr>if_batch_id = 1, if_started_at = 0, if_ack_deadline = 5, if_input_count = 1,
          if_noop_prefilter = 0, if_first_seq = 1, if_tracker = tracker_prepare 1 AckTracker_default,
          if_owner = OwnerPending, if_ops = [\<lparr>op_addr = IpV4 1, op_action = Add\<rparr>]\<rparr>,
        wd := upd_sock RuleSock (\<lambda>s. s\<lparr>rx_script := [RecvOk [kernel_ack (seq_with_offset 1 0) 17]]\<rparr>) quiet_world\<rparr>) =
       (Inr (), s') \<and> owned_ips s' = {}"
proof -
  let ?op = "\<lparr>op_addr = IpV4 1, op_action = Add\<rparr>"
  let ?b = "\<lparr>if_batch_id = 1, if_started_at = 0, if_ack_deadline = 5, if_input_count = 1,
          if_noop_prefilter = 0, if_first_seq = 1, if_tracker = tracker_prepare 1 AckTracker_default,
          if_owner = OwnerPending, if_ops = [?op]\<rparr>"
  let ?a = "kernel_ack (seq_with_offset 1 0) 17"
  let ?s = "sample_sys\<lparr>inflight := Some ?b, wd := upd_sock RuleSock (\<lambda>s. s\<lparr>rx_script := [RecvOk [?a]]\<rparr>) quiet_world\<rparr>"
  have "kernel_step {V4 1} ?op EEXIST {V4 1}"
    by (rule kernel_step.add_exists) (simp_all add: is_add_def op_key_def from_ip_eq)
  then have k: "kernel_batch {V4 1} (if_ops ?b) [17] {V4 1}" by simp
  have rx: "rx_script (socks (wd ?s) RuleSock) = map RecvOk [[?a]]" by (simp add: upd_sock_def)
  have b: "list_all recv_batch [[?a]]" using kernel_acks_batch [of "[(seq_with_offset 1 0, 17)]"] by simp
  have ns: "list_all (\<lambda>op. \<not> should_skip (owned_ips ?s) op) (if_ops ?b)"
    by (simp add: should_skip_eq is_add_def)
  have ans: "answers (if_first_seq ?b) [17] (concat (map batch_views [[?a]]))"
    using single_ack_answers [of 17 1] by simp
  have "\<exists>s'. drain_rule_acks_once ?s = (Inr (), s') \<and> owned_ips s' \<subseteq> {V4 1} \<and> {V4 1} - owned_ips s' = {V4 1} - owned_ips ?s"
    using answered_batch_matches_kernel [of ?s ?b AckTracker_default "{V4 1}" "[17]" "{V4 1}" "[[?a]]",
        OF _ _ _ _ k rx b ans] ns by auto
  then show ?thesis by auto
qed

end
