(* ===== verification/Invariants.thy ===== *)
theory Invariants
  imports Event_Loop Kernel_Sync
begin

text \<open>
  The invariant of the running daemon and its preservation by every handler.

  \<open>job_ok\<close> is what keeps the maintenance state machine from waiting for ever: a job that waits for a
  batch waits for the one in flight or for the one whose result is stored. The other conjuncts bound
  the counters and buffers and say that pending events always have a deadline. The locale
  \<open>daemon_invariant\<close> turns preservation by the handlers into preservation along every run.
\<close>

fun waiting_of :: "MaintenanceJob \<Rightarrow> u64 option" where
  "waiting_of (StartupCleanupDumpApply _ _ _ w _) = w"
| "waiting_of (ResyncApply _ _ _ _ w) = w"
| "waiting_of (CleanupTracked _ _ _ w) = w"
| "waiting_of _ = None"

fun startup_job :: "MaintenanceJob \<Rightarrow> bool" where
  "startup_job (StartupCleanupDumpCollect _ _ _ _) = True"
| "startup_job (StartupCleanupDumpApply _ _ _ _ _) = True"
| "startup_job _ = False"

definition job_ok :: "MaintenanceJob \<Rightarrow> InflightBatch option \<Rightarrow> CompletedBatch option \<Rightarrow> bool" where
  "job_ok job infl fin \<longleftrightarrow>
     (\<forall>wid. waiting_of job = Some wid \<longrightarrow>
        (\<exists>b. infl = Some b \<and> if_owner b = OwnerMaintenance \<and> if_batch_id b = wid) \<or>
        (\<exists>c. fin = Some c \<and> cb_owner c = OwnerMaintenance \<and> cb_batch_id c = wid)) \<and>
     (\<forall>b. infl = Some b \<and> if_owner b = OwnerMaintenance \<longrightarrow> waiting_of job = Some (if_batch_id b))"

definition retry_ok :: "u8 \<Rightarrow> bool \<Rightarrow> MaintenanceJob \<Rightarrow> bool" where
  "retry_ok n startup job \<longleftrightarrow>
     n \<le> 4 \<and> (startup \<or> startup_job job \<longrightarrow> n \<le> STARTUP_CLEANUP_RETRY_LIMIT)"

definition sys_ok :: "sys \<Rightarrow> bool" where
  "sys_ok s \<longleftrightarrow>
     finite (owned_ips s) \<and> distinct (map fst (pending s)) \<and>
     (pending s \<noteq> [] \<longrightarrow> quiet_deadline s \<noteq> None) \<and>
     (\<forall>b. inflight s = Some b \<longrightarrow> inflight_ok b) \<and>
     job_ok (maintenance s) (inflight s) (completed_batch s) \<and>
     retry_ok (startup_cleanup_retry_count s) (startup_cleanup_pending s) (maintenance s) \<and>
     route_budget_ok (route_budget s) \<and>
     ROUTE_RING_MIN_SLOTS \<le> route_slots s \<and> route_slots s \<le> ROUTE_RING_MAX_SLOTS \<and>
     length (batch_pool s) \<le> 8"

lemma sys_ok_wd [simp]: "sys_ok (s\<lparr>wd := w\<rparr>) = sys_ok s"
  by (simp add: sys_ok_def)

lemma sys_ok_irrelevant [simp]:
  "sys_ok (s\<lparr>logged := lg\<rparr>) = sys_ok s" "sys_ok (s\<lparr>cleanup_seen := sn\<rparr>) = sys_ok s"
  "sys_ok (s\<lparr>startup_cleanup_keys := ks\<rparr>) = sys_ok s" "sys_ok (s\<lparr>target_keys := ks\<rparr>) = sys_ok s"
  "sys_ok (s\<lparr>current_keys := ks\<rparr>) = sys_ok s" "sys_ok (s\<lparr>apply_scratch := sc\<rparr>) = sys_ok s"
  "sys_ok (s\<lparr>ack_tracker_reuse := tr\<rparr>) = sys_ok s" "sys_ok (s\<lparr>batch_id := bid\<rparr>) = sys_ok s"
  "sys_ok (s\<lparr>resync_requested := r\<rparr>) = sys_ok s" "sys_ok (s\<lparr>shutdown_requested := r\<rparr>) = sys_ok s"
  "sys_ok (s\<lparr>resync_compensate_pending := r\<rparr>) = sys_ok s"
  "sys_ok (s\<lparr>shutdown_cleanup_done := r\<rparr>) = sys_ok s" "sys_ok (s\<lparr>shutdown_cleanup := c\<rparr>) = sys_ok s"
  "sys_ok (s\<lparr>dropped_count := d\<rparr>) = sys_ok s" "sys_ok (s\<lparr>route_ring_calm_streak := k\<rparr>) = sys_ok s"
  by (simp_all add: sys_ok_def)

lemma sys_ok_log [simp]: "sys_ok (log c s) = sys_ok s"
  by (simp add: log_def)

subsection \<open>Finishing and timing out a batch\<close>

lemma finite_own_effect: "finite owned \<Longrightarrow> finite (fold (own_effect t) iops owned)"
  by (induction iops arbitrary: owned) (auto simp: own_effect_def split: RuleAction.split)

lemma job_ok_finished:
  assumes "job_ok job (Some b) fin"
  shows "job_ok job None
    (if if_owner b = OwnerMaintenance
     then Some \<lparr>cb_batch_id = if_batch_id b, cb_result = r, cb_owner = if_owner b\<rparr> else fin)"
  using assms by (cases "if_owner b") (auto simp: job_ok_def)

lemma sys_ok_recycle [inv_intros]: "sys_ok s \<Longrightarrow> sys_ok (recycle_ops s)"
  by (simp add: sys_ok_def recycle_ops_def pool_push_def)

lemma finish_inflight_batch_ok [inv_intros]:
  assumes "sys_ok s" "finish_inflight_batch s = (r, s')"
  shows "r = Inr () \<and> sys_ok s' \<and> inflight s' = None"
proof (cases "inflight s")
  case None
  with assms show ?thesis by (simp add: finish_inflight_batch_def)
next
  case (Some b)
  let ?ctx = "\<lparr>cc_batch_id = if_batch_id b, cc_first_seq = if_first_seq b, cc_started_at = if_started_at b,
    cc_input_count = if_input_count b, cc_noop_prefilter = if_noop_prefilter b\<rparr>"
  obtain lg w res where c: "commit_ack_outcomes ?ctx (if_ops b) (if_tracker b) (s\<lparr>inflight := None\<rparr>) =
      (Inr res, s\<lparr>inflight := None, owned_ips := fold (own_effect (if_tracker b)) (indexed (if_ops b)) (owned_ips s),
        logged := lg, wd := w\<rparr>)"
    using commit_ack_outcomes_spec [of ?ctx "if_ops b" "if_tracker b" "s\<lparr>inflight := None\<rparr>"] by auto
  have j: "job_ok (maintenance s) None
      (if if_owner b = OwnerMaintenance
       then Some \<lparr>cb_batch_id = if_batch_id b, cb_result = res, cb_owner = if_owner b\<rparr> else completed_batch s)"
    using assms(1) Some by (intro job_ok_finished) (simp add: sys_ok_def)
  show ?thesis
    using assms Some c j
    by (auto simp: finish_inflight_batch_def log_batch_result_def log_def Let_def recycle_ops_def pool_push_def
        sys_ok_def finite_own_effect split: if_splits)
qed

lemma drain_rule_acks_once_ok [inv_intros]:
  assumes "sys_ok s" "drain_rule_acks_once s = (Inr u, s')"
  shows "sys_ok s'"
proof (cases "inflight s")
  case None
  with assms show ?thesis by (simp add: drain_rule_acks_once_def)
next
  case (Some b)
  obtain q t w where d: "drain_apply_ack_messages RuleSock (if_first_seq b) (if_ops b) (if_tracker b) (wd s) = (q, t, w)"
    by (metis prod_cases3)
  have "tracker_ok (length (if_ops b)) t"
    using drain_apply_ack_messages_ok [of _ "if_tracker b" RuleSock "if_first_seq b" "if_ops b" "wd s"]
      assms(1) Some d by (simp add: sys_ok_def inflight_ok_def)
  then have "inflight_ok (b\<lparr>if_tracker := t\<rparr>)" using assms(1) Some by (simp add: sys_ok_def inflight_ok_def)
  moreover have "job_ok (maintenance s) (Some (b\<lparr>if_tracker := t\<rparr>)) (completed_batch s)"
    using assms(1) Some by (simp add: sys_ok_def job_ok_def)
  ultimately have ok: "sys_ok (s\<lparr>wd := w, inflight := Some (b\<lparr>if_tracker := t\<rparr>)\<rparr>)"
    using assms(1) by (simp add: sys_ok_def)
  let ?s1 = "s\<lparr>wd := w, inflight := Some (b\<lparr>if_tracker := t\<rparr>)\<rparr>"
  have eq: "drain_rule_acks_once s =
      (case q of Inl e \<Rightarrow> (Inl e, ?s1) | Inr _ \<Rightarrow> if tr_pending t = 0 then finish_inflight_batch ?s1 else (Inr (), ?s1))"
    unfolding drain_rule_acks_once_def Some option.case d prod.case Let_def ..
  show ?thesis
  proof (cases "\<exists>u. q = Inr u \<and> tr_pending t = 0")
    case True
    then have "finish_inflight_batch ?s1 = (Inr u, s')" using eq assms(2) by auto
    from finish_inflight_batch_ok [OF ok this] show ?thesis by blast
  next
    case False
    then have "s' = ?s1" using eq assms(2) by (cases q) auto
    with ok show ?thesis by blast
  qed
qed

lemma fold_log:
  "\<exists>lg. fold (\<lambda>x s. if P x then s else log (c x) s) xs s = s\<lparr>logged := lg\<rparr>"
proof (induction xs arbitrary: s)
  case Nil
  show ?case by (intro exI [of _ "logged s"]) simp
next
  case (Cons x xs)
  from Cons [of "if P x then s else log (c x) s"] show ?case by (auto simp: log_def)
qed

lemma handle_ack_timeout_ok [inv_intros]:
  assumes "sys_ok s"
  shows "sys_ok (handle_ack_timeout s)" "inflight (handle_ack_timeout s) = None"
proof -
  have "sys_ok (handle_ack_timeout s) \<and> inflight (handle_ack_timeout s) = None"
  proof (cases "inflight s")
    case None
    with assms show ?thesis by (simp add: handle_ack_timeout_def)
  next
    case (Some b)
    have j: "job_ok (maintenance s) None
      (if if_owner b = OwnerMaintenance
       then Some \<lparr>cb_batch_id = if_batch_id b, cb_result = res, cb_owner = if_owner b\<rparr> else completed_batch s)" for res
      using assms(1) Some by (intro job_ok_finished) (simp add: sys_ok_def)
    let ?f = "\<lambda>(idx, op) s. if seen_at (if_tracker b) idx then s
        else log (ack_failed_timeout (if_batch_id b) (seq_with_offset (if_first_seq b) idx) op) s"
    have f: "\<exists>lg. fold ?f xs t = t\<lparr>logged := lg\<rparr>" for xs t
      using fold_log [of "\<lambda>x. seen_at (if_tracker b) (fst x)"
          "\<lambda>x. ack_failed_timeout (if_batch_id b) (seq_with_offset (if_first_seq b) (fst x)) (snd x)" xs t]
      by (simp add: case_prod_unfold)
    define s1 where "s1 = log (LogLine LWarn ''rule.ack_timeout''
                    [(''batch_id'', VU64 (if_batch_id b)), (''count_input'', VUsize (if_input_count b)),
                     (''count_pending'', VUsize (tr_pending (if_tracker b)))]) (s\<lparr>inflight := None\<rparr>)"
    obtain lg where lg: "fold ?f (indexed (if_ops b)) s1 = s1\<lparr>logged := lg\<rparr>" using f by blast
    show ?thesis
      using assms j Some
      unfolding handle_ack_timeout_def Some option.case Let_def s1_def [symmetric] lg
      by (auto simp: s1_def queue_compensate_resync_def log_def now_eq Let_def recycle_ops_def pool_push_def
          sys_ok_def split: if_splits)
  qed
  then show "sys_ok (handle_ack_timeout s)" "inflight (handle_ack_timeout s) = None" by simp_all
qed

subsection \<open>Starting a pending batch\<close>

lemma pool_bounds:
  "length (batch_pool (snd (pool_pop s))) = length (batch_pool s) - 1"
  "snd (pool_pop s) = s\<lparr>batch_pool := butlast (batch_pool s)\<rparr>" "fst (pool_pop s) = []"
  by (simp_all add: pool_pop_def)

lemma hash_order_distinct: "hash_order ho \<Longrightarrow> distinct (map fst xs) \<Longrightarrow> distinct (map fst (ho xs))"
  by (metis hash_order_def mset_map mset_eq_imp_distinct_iff)

lemma hash_order_length: "hash_order ho \<Longrightarrow> length (ho xs) = length xs"
  by (metis hash_order_def size_mset)

text \<open>The state after the events have been taken out of the map and the deadlines reset.\<close>

definition pending_taken :: "((IpKey \<times> RuleAction) list \<Rightarrow> (IpKey \<times> RuleAction) list) \<Rightarrow> sys \<Rightarrow> sys" where
  "pending_taken ho s =
     (let s = (snd (pool_pop s))\<lparr>pending := drop (min (opt_batch_max (opts s)) (length (pending s))) (ho (pending s))\<rparr>
      in if pending s \<noteq> []
         then let (t, s) = now s
              in s\<lparr>quiet_deadline := Some (t + opt_debounce (opts s)),
                   max_deadline := Some (t + opt_debounce_max (opts s))\<rparr>
         else s\<lparr>quiet_deadline := None, max_deadline := None\<rparr>)"

definition taken_ops :: "((IpKey \<times> RuleAction) list \<Rightarrow> (IpKey \<times> RuleAction) list) \<Rightarrow> sys \<Rightarrow> RuleOp list" where
  "taken_ops ho s =
     map (\<lambda>(key, action). \<lparr>op_addr = into_ip key, op_action = action\<rparr>)
       (take (min (opt_batch_max (opts s)) (length (pending s))) (ho (pending s)))"

lemma pending_taken_ok:
  assumes "sys_ok s" "hash_order ho"
  shows "sys_ok (pending_taken ho s)" "inflight (pending_taken ho s) = inflight s"
    "length (batch_pool (pending_taken ho s)) \<le> 7" "owned_ips (pending_taken ho s) = owned_ips s"
proof -
  have "distinct (map fst (drop n (ho (pending s))))" for n
    using hash_order_distinct [OF assms(2), of "pending s"] assms(1)
    by (simp add: sys_ok_def flip: drop_map)
  then show "sys_ok (pending_taken ho s)"
    using assms(1) by (auto simp: pending_taken_def pool_pop_def now_eq sys_ok_def Let_def)
  show "inflight (pending_taken ho s) = inflight s" "length (batch_pool (pending_taken ho s)) \<le> 7"
    "owned_ips (pending_taken ho s) = owned_ips s"
    using assms(1) by (auto simp: pending_taken_def pool_pop_def now_eq sys_ok_def Let_def)
qed

lemma start_pending_batch_eq:
  "start_pending_batch ho s =
     (if inflight s \<noteq> None \<or> pending s = [] then (Inr False, s)
      else
        let s1 = pending_taken ho s; ops = taken_ops ho s;
            kept = filter (\<lambda>op. \<not> should_skip (owned_ips s) op) ops;
            noop = length (filter (should_skip (owned_ips s)) ops)
        in
        if ops = [] then (Inr False, pool_push [] s1)
        else if kept = [] then
          (Inr False, pool_push []
            (log (LogEvery LDebug ''rule_batch_noop_prefilter'' BATCH_NOOP_LOG_INTERVAL
               ''rule.batch.noop_prefilter''
               [(''count_input'', VUsize (length ops)), (''count_noop'', VUsize noop)]) s1))
        else start_batch OwnerPending (batch_id s + 1) (length ops) noop kept (s1\<lparr>batch_id := batch_id s + 1\<rparr>))"
proof -
  have f: "owned_ips (pending_taken ho s) = owned_ips s" "batch_id (pending_taken ho s) = batch_id s"
    by (simp_all add: pending_taken_def pool_pop_def now_eq Let_def)
  show ?thesis
    unfolding start_pending_batch_def
    by (simp add: prefilter_eq Let_def pool_pop_def now_eq pending_taken_def taken_ops_def case_prod_beta
        cong: if_cong) (simp add: min_def)
qed

lemma sys_ok_pool_push: "sys_ok s \<Longrightarrow> length (batch_pool s) \<le> 7 \<Longrightarrow> sys_ok (pool_push ops s)"
  by (simp add: sys_ok_def pool_push_def)

lemma sys_ok_started_pending:
  assumes "sys_ok s" "inflight s = None" "inflight_ok b" "if_owner b = OwnerPending"
  shows "sys_ok (s\<lparr>ack_tracker_reuse := tr, apply_scratch := sc, wd := w, inflight := Some b\<rparr>)"
  using assms by (simp add: sys_ok_def job_ok_def)

lemma length_filter_split: "length (filter P xs) + length (filter (\<lambda>x. \<not> P x) xs) = length xs"
  by (induction xs) simp_all

lemma start_pending_batch_ok [inv_intros]:
  assumes ok: "sys_ok s" and ho: "hash_order ho" and st: "start_pending_batch ho s = (Inr u, s')"
  shows "sys_ok s'"
proof (cases "inflight s \<noteq> None \<or> pending s = []")
  case True
  with ok st show ?thesis by (simp add: start_pending_batch_eq)
next
  case False
  let ?s1 = "pending_taken ho s" and ?ops = "taken_ops ho s"
  let ?kept = "filter (\<lambda>op. \<not> should_skip (owned_ips s) op) ?ops"
  note pt = pending_taken_ok [OF ok ho]
  show ?thesis
  proof (cases "?kept = []")
    case True
    have "s' = pool_push [] ?s1 \<or> (\<exists>c. s' = pool_push [] (log c ?s1))"
      using st False True unfolding start_pending_batch_eq by (auto simp: Let_def split: if_splits)
    then show ?thesis
      using pt by (auto intro!: sys_ok_pool_push simp: log_def)
  next
    case kept: False
    then have "start_batch OwnerPending (batch_id s + 1) (length ?ops) (length (filter (should_skip (owned_ips s)) ?ops))
        ?kept (?s1\<lparr>batch_id := batch_id s + 1\<rparr>) = (Inr u, s')"
      using st False unfolding start_pending_batch_eq by (auto simp: Let_def split: if_splits)
    moreover have "sys_ok (?s1\<lparr>batch_id := batch_id s + 1\<rparr>)" using pt(1) by (simp add: sys_ok_def)
    ultimately show ?thesis
      using kept pt(2) False
      by (auto elim!: start_batch_cases simp: length_filter_split intro: sys_ok_started_pending)
  qed
qed

subsection \<open>Maintenance\<close>

text \<open>While a slice runs no batch is in flight until one is started, which ends the slice.\<close>

definition slice_ok :: "sys \<Rightarrow> bool" where
  "slice_ok s \<longleftrightarrow> sys_ok s \<and> inflight s = None"

lemma sys_ok_set_job:
  assumes "sys_ok s" "inflight s = None" "waiting_of job = None"
    "startup_job job \<longrightarrow> startup_cleanup_retry_count s \<le> 3"
  shows "sys_ok (s\<lparr>maintenance := job\<rparr>)"
  using assms by (auto simp: sys_ok_def job_ok_def retry_ok_def)

lemma job_ok_trivial: "waiting_of job = None \<Longrightarrow> job_ok job None c"
  by (simp add: job_ok_def)

lemma u8_inc_le: "(n :: u8) \<le> 3 \<Longrightarrow> u8_sat_inc n \<le> 4"
  using u8_sat_inc_less [of n 4] by (simp add: order_le_less_trans)

lemma schedule_retry_ok [inv_intros]:
  assumes "slice_ok s" "startup_cleanup_retry_count s \<le> 3"
  shows "slice_ok (schedule_startup_cleanup_retry e p s)"
  using assms u8_inc_le [OF assms(2)]
  by (auto simp: schedule_startup_cleanup_retry_def now_eq log_def Let_def slice_ok_def sys_ok_def
      job_ok_trivial retry_ok_def)

lemma finish_startup_ok [inv_intros]: "slice_ok s \<Longrightarrow> slice_ok (finish_startup_cleanup bid c s)"
  by (auto simp: finish_startup_cleanup_def now_eq log_def Let_def slice_ok_def sys_ok_def job_ok_trivial retry_ok_def
      split: option.split)

lemma slice_ok_irrelevant [simp]:
  "slice_ok (s\<lparr>wd := w\<rparr>) = slice_ok s" "slice_ok (s\<lparr>cleanup_seen := sn\<rparr>) = slice_ok s"
  "slice_ok (s\<lparr>startup_cleanup_keys := ks\<rparr>) = slice_ok s" "slice_ok (s\<lparr>batch_id := bid\<rparr>) = slice_ok s"
  "slice_ok (s\<lparr>apply_scratch := sc\<rparr>) = slice_ok s" "slice_ok (s\<lparr>ack_tracker_reuse := tr\<rparr>) = slice_ok s"
  "slice_ok (log c s) = slice_ok s" "slice_ok (s\<lparr>resync_requested := r\<rparr>) = slice_ok s"
  "slice_ok (s\<lparr>shutdown_cleanup_done := r\<rparr>) = slice_ok s" "slice_ok (s\<lparr>shutdown_cleanup := cs\<rparr>) = slice_ok s"
  by (simp_all add: slice_ok_def log_def)

lemma slice_ok_set_job [simp]:
  "slice_ok s \<Longrightarrow> waiting_of job = None \<Longrightarrow> (startup_job job \<longrightarrow> startup_cleanup_retry_count s \<le> 3) \<Longrightarrow>
     slice_ok (s\<lparr>maintenance := job\<rparr>)"
  by (auto simp: slice_ok_def sys_ok_def job_ok_trivial retry_ok_def)

lemma slice_ok_sys_ok: "slice_ok s \<Longrightarrow> sys_ok s"
  by (simp add: slice_ok_def)

fun branch_ok :: "branch \<Rightarrow> bool" where
  "branch_ok (CContinue, b, s) \<longleftrightarrow> slice_ok s"
| "branch_ok (CBreak, b, s) \<longleftrightarrow> sys_ok s"
| "branch_ok (CReturn e, b, s) \<longleftrightarrow> True"

lemma idle_branch_ok:
  assumes "slice_ok s" "maintenance s = Idle"
  shows "branch_ok (idle_branch b s)"
  using assms
  by (auto simp: idle_branch_def prepare_shutdown_cleanup_job_def now_eq slice_ok_def sys_ok_def
      job_ok_trivial retry_ok_def Let_def split: option.split)

lemma collect_branch_ok:
  assumes "slice_ok s" "startup_cleanup_retry_count s \<le> 3"
  shows "branch_ok (collect_branch i q bid c b s)"
  using assms
  by (auto simp: collect_branch_def Let_def schedule_retry_ok finish_startup_ok
      intro!: slice_ok_sys_ok
      split: option.split prod.split sum.split CleanupDumpPoll.split)

lemma sys_ok_started_maintenance:
  assumes "sys_ok s" "inflight s = None" "inflight_ok b" "if_owner b = OwnerMaintenance"
    "waiting_of job = Some (if_batch_id b)" "startup_job job \<longrightarrow> startup_cleanup_retry_count s \<le> 3"
  shows "sys_ok (s\<lparr>ack_tracker_reuse := tr, apply_scratch := sc, wd := w, inflight := Some b, maintenance := job\<rparr>)"
  using assms by (auto simp: sys_ok_def job_ok_def retry_ok_def)

text \<open>The part the three applying branches share: take a chunk and start its batch.\<close>

lemma await_batch_cases:
  assumes "await_batch wt s = (r, s')"
  obtains (wait) wid where "r = Inl ()" "s' = s" "wt = Some wid"
  | (go) d fin where "r = Inr d" "s' = s\<lparr>completed_batch := fin\<rparr>"
proof (cases wt)
  case None
  with assms show ?thesis by (intro go [of None "completed_batch s"]) (simp_all add: await_batch_def)
next
  case (Some wid)
  with assms show ?thesis
    using wait go by (auto simp: await_batch_def split: option.splits if_splits)
qed

lemma start_chunk_ok:
  assumes "start_maintenance_batch bid chunk s = (r, s')" "chunk \<noteq> []" "slice_ok s"
  shows "(\<exists>e. r = Inl e \<and> slice_ok s' \<and> startup_cleanup_retry_count s' = startup_cleanup_retry_count s) \<or>
    (r = Inr True \<and> (\<forall>job. waiting_of job = Some bid \<longrightarrow>
       (startup_job job \<longrightarrow> startup_cleanup_retry_count s \<le> 3) \<longrightarrow> sys_ok (s'\<lparr>maintenance := job\<rparr>)))"
proof -
  have s: "inflight s = None" "sys_ok s" using assms(3) by (simp_all add: slice_ok_def)
  show ?thesis
  proof (rule start_maintenance_batch_cases [OF assms(1,2) s(1)])
    fix e sc w tr assume "r = Inl e" "s' = s\<lparr>apply_scratch := sc, wd := w, ack_tracker_reuse := tr\<rparr>"
    then show ?thesis using assms(3) by simp
  next
    fix sc w tr b
    assume "r = Inr True" "inflight_ok b" "if_owner b = OwnerMaintenance" "if_batch_id b = bid"
      and s': "s' = s\<lparr>ack_tracker_reuse := tr, apply_scratch := sc, wd := w, inflight := Some b\<rparr>"
    then show ?thesis
      using sys_ok_started_maintenance [OF s(2,1)] unfolding s' by blast
  qed
qed

lemma slice_ok_pooled:
  "slice_ok s \<Longrightarrow> slice_ok (s\<lparr>completed_batch := fin, batch_pool := butlast (batch_pool s)\<rparr>)"
  if "maintenance s = Idle"
  using that by (auto simp: slice_ok_def sys_ok_def job_ok_trivial)

lemma slice_ok_pushed:
  "slice_ok s \<Longrightarrow> length (batch_pool s) \<le> 7 \<Longrightarrow> slice_ok (pool_push ops s)"
  by (simp add: slice_ok_def sys_ok_pool_push) (simp add: pool_push_def)

lemma finish_startup_pool [simp]: "batch_pool (finish_startup_cleanup bid c s) = batch_pool s"
  by (simp add: finish_startup_cleanup_def now_eq log_def Let_def split: option.split)

text \<open>After a wait that is over the state is as before but for the completed batch and the pool.\<close>

lemma awaited_slice:
  assumes "sys_ok s0" "inflight s0 = None"
  defines "s2 fin \<equiv> s0\<lparr>maintenance := Idle, completed_batch := fin, batch_pool := butlast (batch_pool s0)\<rparr>"
  shows "slice_ok (s2 fin)" "length (batch_pool (s2 fin)) \<le> 7"
    "startup_cleanup_retry_count (s2 fin) = startup_cleanup_retry_count s0"
  using assms by (auto simp: slice_ok_def sys_ok_def job_ok_trivial retry_ok_def)

lemma dump_apply_branch_ok:
  assumes s0: "sys_ok s0" "inflight s0 = None"
    and job: "maintenance s0 = StartupCleanupDumpApply off bid c wt nf"
  shows "branch_ok (dump_apply_branch off bid c wt nf b (s0\<lparr>maintenance := Idle\<rparr>))"
proof -
  have r: "startup_cleanup_retry_count s0 \<le> 3" using s0 job by (simp add: sys_ok_def retry_ok_def)
  obtain q s1 where aw: "await_batch wt (s0\<lparr>maintenance := Idle\<rparr>) = (q, s1)" by fastforce
  from aw show ?thesis
  proof (cases rule: await_batch_cases)
    case (wait wid)
    have "s0\<lparr>maintenance := StartupCleanupDumpApply off bid c wt nf\<rparr> = s0" using job by simp
    then show ?thesis using wait aw s0 by (simp add: dump_apply_branch_def)
  next
    case (go d fin)
    let ?s2 = "s0\<lparr>maintenance := Idle, completed_batch := fin, batch_pool := butlast (batch_pool s0)\<rparr>"
    let ?c = "case d of None \<Rightarrow> c | Some r \<Rightarrow> add_summary r c"
    note s2 = awaited_slice [OF s0, of fin]
    obtain off' chunk where f: "fill_tracked_cleanup_chunk (startup_cleanup_keys ?s2)
        (chunk_size (spend d b) ?s2) (off, []) = (off', chunk)" by fastforce
    show ?thesis
    proof (cases "chunk = []")
      case True
      have "slice_ok (pool_push [] (finish_startup_cleanup bid ?c (?s2\<lparr>startup_cleanup_keys := []\<rparr>)))"
        using s2 by (intro slice_ok_pushed finish_startup_ok) simp_all
      moreover have "slice_ok (pool_push [] (s0\<lparr>completed_batch := fin, batch_pool := butlast (batch_pool s0),
          startup_cleanup_keys := [], batch_id := bid, maintenance := StartupCleanupDumpCollect nf None bid ?c\<rparr>))"
        using s0 r s2(2) by (simp add: slice_ok_def sys_ok_def pool_push_def job_ok_trivial retry_ok_def)
      ultimately show ?thesis
        using aw go f True by (simp add: dump_apply_branch_def pool_pop_def Let_def)
    next
      case False
      obtain q' s' where sm: "start_maintenance_batch (bid + 1) chunk ?s2 = (q', s')" by fastforce
      from start_chunk_ok [OF sm False s2(1)] r s2(3) show ?thesis
        using aw go f sm False
        by (auto simp: dump_apply_branch_def pool_pop_def Let_def intro!: schedule_retry_ok)
    qed
  qed
qed

lemma resync_apply_branch_ok:
  assumes s0: "sys_ok s0" "inflight s0 = None"
    and job: "maintenance s0 = ResyncApply ti ci bid m wt"
  shows "branch_ok (resync_apply_branch ti ci bid m wt b (s0\<lparr>maintenance := Idle\<rparr>))"
proof -
  obtain q s1 where aw: "await_batch wt (s0\<lparr>maintenance := Idle\<rparr>) = (q, s1)" by fastforce
  from aw show ?thesis
  proof (cases rule: await_batch_cases)
    case (wait wid)
    have "s0\<lparr>maintenance := ResyncApply ti ci bid m wt\<rparr> = s0" using job by simp
    then show ?thesis using wait aw s0 by (simp add: resync_apply_branch_def)
  next
    case (go d fin)
    let ?s2 = "s0\<lparr>maintenance := Idle, completed_batch := fin, batch_pool := butlast (batch_pool s0)\<rparr>"
    note s2 = awaited_slice [OF s0, of fin]
    obtain ti' ci' chunk where f: "fill_resync_chunk (target_keys ?s2) (current_keys ?s2)
        (chunk_size (spend d b) ?s2) (ti, ci, []) = (ti', ci', chunk)" by (metis prod_cases3)
    show ?thesis
    proof (cases "chunk = []")
      case True
      then show ?thesis
        using aw go f s0 s2(2)
        by (simp add: resync_apply_branch_def pool_pop_def pool_push_def Let_def log_resync_summary_def log_def
            slice_ok_def sys_ok_def job_ok_trivial retry_ok_def)
    next
      case False
      obtain q' s' where sm: "start_maintenance_batch (bid + 1) chunk ?s2 = (q', s')" by fastforce
      from start_chunk_ok [OF sm False s2(1)] show ?thesis
        using aw go f sm False
        by (auto simp: resync_apply_branch_def pool_pop_def Let_def)
    qed
  qed
qed

lemma cleanup_tracked_branch_ok:
  assumes s0: "sys_ok s0" "inflight s0 = None"
    and job: "maintenance s0 = CleanupTracked off bid c wt"
  shows "branch_ok (cleanup_tracked_branch off bid c wt b (s0\<lparr>maintenance := Idle\<rparr>))"
proof -
  obtain q s1 where aw: "await_batch wt (s0\<lparr>maintenance := Idle\<rparr>) = (q, s1)" by fastforce
  from aw show ?thesis
  proof (cases rule: await_batch_cases)
    case (wait wid)
    have "s0\<lparr>maintenance := CleanupTracked off bid c wt\<rparr> = s0" using job by simp
    then show ?thesis using wait aw s0 by (simp add: cleanup_tracked_branch_def)
  next
    case (go d fin)
    let ?s2 = "s0\<lparr>maintenance := Idle, completed_batch := fin, batch_pool := butlast (batch_pool s0)\<rparr>"
    note s2 = awaited_slice [OF s0, of fin]
    obtain off' chunk where f: "fill_tracked_cleanup_chunk (tracked_keys ?s2)
        (chunk_size (spend d b) ?s2) (off, []) = (off', chunk)" by fastforce
    show ?thesis
    proof (cases "chunk = []")
      case True
      then show ?thesis
        using aw go f s0 s2(2)
        by (simp add: cleanup_tracked_branch_def pool_pop_def pool_push_def Let_def log_def
            slice_ok_def sys_ok_def job_ok_trivial retry_ok_def)
    next
      case False
      obtain q' s' where sm: "start_maintenance_batch (bid + 1) chunk ?s2 = (q', s')" by fastforce
      from start_chunk_ok [OF sm False s2(1)] show ?thesis
        using aw go f sm False
        by (auto simp: cleanup_tracked_branch_def pool_pop_def Let_def)
    qed
  qed
qed

lemma build_resync_plan_ok:
  assumes "slice_ok s" "build_resync_plan s = (r, s')"
  shows "slice_ok s' \<and> startup_cleanup_retry_count s' = startup_cleanup_retry_count s"
  using assms
  by (auto simp: build_resync_plan_def Let_def slice_ok_def split: prod.splits sum.splits)

lemma slice_step_ok:
  assumes "slice_ok s"
  shows "branch_ok (slice_step b s)"
proof -
  have s: "sys_ok s" "inflight s = None" using assms by (simp_all add: slice_ok_def)
  have idle: "slice_ok (s\<lparr>maintenance := Idle\<rparr>)" using assms by simp
  show ?thesis
  proof (cases "maintenance s")
    case Idle
    then show ?thesis using idle_branch_ok [OF idle] by (simp add: slice_step_def)
  next
    case (StartupCleanupDumpCollect i q bid c)
    then have "startup_cleanup_retry_count s \<le> 3" using s by (simp add: sys_ok_def retry_ok_def)
    then show ?thesis
      using collect_branch_ok [OF idle] StartupCleanupDumpCollect by (simp add: slice_step_def)
  next
    case (StartupCleanupDumpApply off bid c wt nf)
    then show ?thesis using dump_apply_branch_ok [OF s] by (simp add: slice_step_def)
  next
    case (ResyncBuild bid)
    obtain r s' where b: "build_resync_plan (s\<lparr>maintenance := Idle\<rparr>) = (r, s')" by fastforce
    from build_resync_plan_ok [OF idle b] show ?thesis
      using ResyncBuild b by (cases r) (simp_all add: slice_step_def resync_build_branch_def Let_def)
  next
    case (ResyncApply ti ci bid m wt)
    then show ?thesis using resync_apply_branch_ok [OF s] by (simp add: slice_step_def)
  next
    case (CleanupTracked off bid c wt)
    then show ?thesis using cleanup_tracked_branch_ok [OF s] by (simp add: slice_step_def)
  qed
qed

text \<open>
  What a predicate has to be preserved by for it to hold after a slice: the clock and the steps that go on
  with the loop; a step that leaves it may establish a weaker one.
\<close>

locale slice_invariant =
  fixes J K :: "sys \<Rightarrow> bool"
  assumes kept_clock: "J s \<Longrightarrow> J (s\<lparr>wd := w\<rparr>)"
    and kept_end: "J s \<Longrightarrow> K s"
    and kept_step: "J s \<Longrightarrow> slice_step b s = (c, b', s') \<Longrightarrow> (c = CContinue \<longrightarrow> J s') \<and> (c = CBreak \<longrightarrow> K s')"
begin

lemma kept_loop: "J s \<Longrightarrow> slice_loop st b s = (Inr u, s') \<Longrightarrow> K s'"
proof (induction st b s rule: slice_loop.induct)
  case (1 st b s)
  let ?s1 = "s\<lparr>wd := snd (instant_now (wd s))\<rparr>"
  have s1: "J ?s1" using "1.prems"(1) by (rule kept_clock)
  show ?case
  proof (cases "0 < b \<and> fst (instant_now (wd s)) - st < MAINTENANCE_TIME_BUDGET")
    case False
    then show ?thesis
      using "1.prems" s1 kept_end by (subst (asm) slice_loop.simps) (auto simp: now_eq split: if_splits)
  next
    case True
    obtain c b' s2 where st2: "slice_step b ?s1 = (c, b', s2)" by (metis prod_cases3)
    note ok = kept_step [OF s1 st2]
    have eq: "slice_loop st b s = (case c of CContinue \<Rightarrow> slice_loop st b' s2 | CBreak \<Rightarrow> (Inr (), s2) | CReturn e \<Rightarrow> (Inl e, s2))"
      using True st2 by (subst slice_loop.simps) (simp add: now_eq split: ctl.split)
    show ?thesis
    proof (cases c)
      case CContinue
      have t: "0 < b" "(fst (instant_now (wd s)), ?s1) = now s"
        "fst (instant_now (wd s)) - st < MAINTENANCE_TIME_BUDGET" using True by (simp_all add: now_eq)
      have "J s2" "slice_loop st b' s2 = (Inr u, s')" using CContinue ok eq "1.prems"(2) by simp_all
      from "1.IH" [OF t(1) refl t(2,3) st2 [symmetric] CContinue refl this] show ?thesis .
    qed (use eq ok "1.prems"(2) in simp_all)
  qed
qed

lemma kept_slice:
  assumes "J s" "drive_maintenance_slice s = (Inr u, s')"
  shows "K s'"
proof -
  have "slice_loop (fst (instant_now (wd s))) MAINTENANCE_OP_BUDGET (s\<lparr>wd := snd (instant_now (wd s))\<rparr>) = (Inr u, s')"
    using assms(2) by (simp add: drive_maintenance_slice_def now_eq)
  from kept_loop [OF kept_clock [OF assms(1)] this] show ?thesis .
qed

end

interpretation slices: slice_invariant slice_ok sys_ok
proof
  show "(c = CContinue \<longrightarrow> slice_ok s') \<and> (c = CBreak \<longrightarrow> sys_ok s')"
    if "slice_ok s" "slice_step b s = (c, b', s')" for s b c b' s'
    using slice_step_ok [OF that(1), of b] that(2) by (cases c) simp_all
qed (simp_all add: slice_ok_sys_ok)

lemma drive_maintenance_slice_ok [inv_intros]:
  assumes "sys_ok s" "inflight s = None" "drive_maintenance_slice s = (Inr u, s')"
  shows "sys_ok s'"
  using slices.kept_slice [OF _ assms(3)] assms(1,2) by (simp add: slice_ok_def)

subsection \<open>Address events and signals\<close>

lemma route_items_Cons: "route_items (x # items) st = route_items items (route_items [x] st)"
  by (cases x; cases st) (simp_all add: Let_def split: sum.split option.split)

definition events_only :: "route_acc \<times> sys \<Rightarrow> route_acc \<times> sys \<Rightarrow> bool" where
  "events_only st st' \<longleftrightarrow>
     (\<exists>p lg. snd st' = (snd st)\<lparr>pending := p, logged := lg\<rparr> \<and>
        (distinct (map fst (pending (snd st))) \<longrightarrow> distinct (map fst p)) \<and>
        (ra_touched (fst st') \<or> p = pending (snd st))) \<and>
     (ra_touched (fst st) \<longrightarrow> ra_touched (fst st'))"

lemma events_onlyI:
  assumes "snd st' = (snd st)\<lparr>pending := p, logged := lg\<rparr>"
    "distinct (map fst (pending (snd st))) \<Longrightarrow> distinct (map fst p)"
    "ra_touched (fst st') \<or> p = pending (snd st)" "ra_touched (fst st) \<Longrightarrow> ra_touched (fst st')"
  shows "events_only st st'"
  using assms unfolding events_only_def by blast

lemma events_only_refl: "snd st' = snd st \<Longrightarrow> ra_touched (fst st') = ra_touched (fst st) \<Longrightarrow> events_only st st'"
  by (rule events_onlyI [where p = "pending (snd st)" and lg = "logged (snd st)"]) simp_all

lemma events_only_trans:
  assumes "events_only st st'" "events_only st' st''"
  shows "events_only st st''"
proof -
  obtain p lg where 1: "snd st' = (snd st)\<lparr>pending := p, logged := lg\<rparr>"
    "distinct (map fst (pending (snd st))) \<longrightarrow> distinct (map fst p)"
    "ra_touched (fst st') \<or> p = pending (snd st)" using assms(1) unfolding events_only_def by blast
  obtain p' lg' where 2: "snd st'' = (snd st')\<lparr>pending := p', logged := lg'\<rparr>"
    "distinct (map fst (pending (snd st'))) \<longrightarrow> distinct (map fst p')"
    "ra_touched (fst st'') \<or> p' = pending (snd st')" using assms(2) unfolding events_only_def by blast
  have "ra_touched (fst st) \<longrightarrow> ra_touched (fst st')" "ra_touched (fst st') \<longrightarrow> ra_touched (fst st'')"
    using assms by (simp_all add: events_only_def)
  with 1 2 show ?thesis by (intro events_onlyI [where p = p' and lg = lg']) auto
qed

lemma route_item_frame: "events_only st (route_items [x] st)"
proof (cases "\<exists>msg ev. x = Inr msg \<and> parse_addr_event msg (opt_ipv6 (opts (snd st))) (filters (snd st)) = Inr (Some ev)
    \<and> (uint (nlmsg_type (nv_header msg)) = uint RTM_NEWADDR \<or> uint (nlmsg_type (nv_header msg)) = uint RTM_DELADDR)")
  case True
  obtain a s where st: "st = (a, s)" by fastforce
  from True obtain msg ev where "x = Inr msg"
    "parse_addr_event msg (opt_ipv6 (opts s)) (filters s) = Inr (Some ev)"
    "uint (nlmsg_type (nv_header msg)) = uint RTM_NEWADDR \<or> uint (nlmsg_type (nv_header msg)) = uint RTM_DELADDR"
    using st by auto
  then obtain lg where "route_items [x] st = (a\<lparr>ra_touched := True\<rparr>,
      s\<lparr>logged := lg, pending := AList.update (from_ip (op_addr (ev_op ev))) (op_action (ev_op ev)) (pending s)\<rparr>)"
    using st by (simp add: log_def Let_def)
  then show ?thesis
    unfolding st
    by (intro events_onlyI [where lg = lg and
          p = "AList.update (from_ip (op_addr (ev_op ev))) (op_action (ev_op ev)) (pending s)"])
      (simp_all add: distinct_update)
next
  case False
  then show ?thesis
    by (cases st; cases x) (auto simp: Let_def intro!: events_only_refl split: sum.split option.split)
qed

lemma route_items_frame: "events_only st (route_items items st)"
proof (induction items arbitrary: st)
  case (Cons x items)
  show ?case
    using events_only_trans [OF route_item_frame Cons.IH] by (simp add: route_items_Cons [of x items])
qed (simp add: events_only_refl)

lemma route_packets_frame: "events_only st (route_packets pkts st)"
proof (induction pkts st rule: route_packets.induct)
  case (2 raw pkts a s)
  let ?st = "(a\<lparr>ra_packets_left := ra_packets_left a - 1, ra_processed := ra_processed a + 1\<rparr>, s)"
  have "events_only (a, s) ?st" by (simp add: events_only_refl)
  note step = events_only_trans [OF this route_items_frame [of ?st "iter_all raw"]]
  show ?case
  proof (cases "ra_packets_left a = 0")
    case False
    with events_only_trans [OF step 2] show ?thesis by simp
  qed (simp add: events_only_refl)
qed (simp add: events_only_refl)

text \<open>What the event drain may change: the world, the ring size within its bounds, pending events.\<close>

definition route_frame :: "route_acc \<times> sys \<Rightarrow> route_acc \<times> sys \<Rightarrow> bool" where
  "route_frame st st' \<longleftrightarrow>
     (\<exists>p lg w n. snd st' = (snd st)\<lparr>pending := p, logged := lg, wd := w, route_slots := n\<rparr> \<and>
        (distinct (map fst (pending (snd st))) \<longrightarrow> distinct (map fst p)) \<and>
        (ra_touched (fst st') \<or> p = pending (snd st)) \<and>
        (8 \<le> route_slots (snd st) \<and> route_slots (snd st) \<le> 32 \<longrightarrow> 8 \<le> n \<and> n \<le> 32)) \<and>
     (ra_touched (fst st) \<longrightarrow> ra_touched (fst st'))"

lemma route_frameI:
  assumes "snd st' = (snd st)\<lparr>pending := p, logged := lg, wd := w, route_slots := n\<rparr>"
    "distinct (map fst (pending (snd st))) \<Longrightarrow> distinct (map fst p)"
    "ra_touched (fst st') \<or> p = pending (snd st)"
    "8 \<le> route_slots (snd st) \<Longrightarrow> route_slots (snd st) \<le> 32 \<Longrightarrow> 8 \<le> n \<and> n \<le> 32"
    "ra_touched (fst st) \<Longrightarrow> ra_touched (fst st')"
  shows "route_frame st st'"
  using assms unfolding route_frame_def by blast

lemma route_frame_trans:
  assumes "route_frame st st'" "route_frame st' st''"
  shows "route_frame st st''"
proof -
  obtain p lg w n where 1: "snd st' = (snd st)\<lparr>pending := p, logged := lg, wd := w, route_slots := n\<rparr>"
    "distinct (map fst (pending (snd st))) \<longrightarrow> distinct (map fst p)"
    "ra_touched (fst st') \<or> p = pending (snd st)"
    "8 \<le> route_slots (snd st) \<and> route_slots (snd st) \<le> 32 \<longrightarrow> 8 \<le> n \<and> n \<le> 32"
    using assms(1) unfolding route_frame_def by blast
  obtain p' lg' w' n' where 2: "snd st'' = (snd st')\<lparr>pending := p', logged := lg', wd := w', route_slots := n'\<rparr>"
    "distinct (map fst (pending (snd st'))) \<longrightarrow> distinct (map fst p')"
    "ra_touched (fst st'') \<or> p' = pending (snd st')"
    "8 \<le> route_slots (snd st') \<and> route_slots (snd st') \<le> 32 \<longrightarrow> 8 \<le> n' \<and> n' \<le> 32"
    using assms(2) unfolding route_frame_def by blast
  have "ra_touched (fst st) \<longrightarrow> ra_touched (fst st')" "ra_touched (fst st') \<longrightarrow> ra_touched (fst st'')"
    using assms by (simp_all add: route_frame_def)
  with 1 2 show ?thesis by (intro route_frameI [where p = p' and lg = lg' and w = w' and n = n']) auto
qed

lemma events_only_route_frame:
  assumes "events_only st st'"
  shows "route_frame st st'"
proof -
  obtain p lg where 1: "snd st' = (snd st)\<lparr>pending := p, logged := lg\<rparr>"
    "distinct (map fst (pending (snd st))) \<longrightarrow> distinct (map fst p)"
    "ra_touched (fst st') \<or> p = pending (snd st)" using assms unfolding events_only_def by blast
  have "ra_touched (fst st) \<longrightarrow> ra_touched (fst st')" using assms by (simp add: events_only_def)
  with 1 show ?thesis
    by (intro route_frameI [where p = p and lg = lg and w = "wd (snd st)" and n = "route_slots (snd st)"]) auto
qed

lemma route_frame_intro:
  assumes "ra_touched a' = ra_touched a" "8 \<le> route_slots s \<and> route_slots s \<le> 32 \<longrightarrow> 8 \<le> n \<and> n \<le> 32"
  shows "route_frame (a, s) (a', s\<lparr>wd := w, route_slots := n\<rparr>)"
  using assms by (intro route_frameI [where p = "pending s" and lg = "logged s" and w = w and n = n]) auto

lemma route_loop_frame: "route_loop st = (r, a', s') \<Longrightarrow> route_frame st (a', s')"
proof (induction st arbitrary: r rule: route_loop.induct)
  case (1 a s)
  obtain q w where rec: "sock_recv (route_slots s) RouteSock (wd s) = (q, w)" by fastforce
  have same: "route_frame (a, s) (a, s)" using route_frame_intro [of a a s "route_slots s" "wd s"] by simp
  have wdst: "route_frame (a, s) (a, s\<lparr>wd := w\<rparr>)"
    using route_frame_intro [of a a s "route_slots s" w] by simp
  show ?case
  proof (cases "ra_packets_left a > 0")
    case False
    with "1.prems" same show ?thesis by (simp add: route_loop.simps [of a s])
  next
    case True
    show ?thesis
    proof (cases q)
      case (Inl err)
      with "1.prems" True rec wdst show ?thesis
        by (simp add: route_loop.simps [of a s] split: if_splits)
    next
      case (Inr pkts)
      show ?thesis
      proof (cases "pkts = []")
        case nil: True
        with "1.prems" True rec wdst Inr show ?thesis by (simp add: route_loop.simps [of a s])
      next
        case False
        define a1 where "a1 = (if length pkts = route_slots s then a\<lparr>ra_ring_full := True\<rparr> else a)"
        define n where "n = (if length pkts = route_slots s \<and> route_slots s < 32
          then max (route_slots s) (min (route_slots s * 2) 32) else route_slots s)"
        let ?s1 = "s\<lparr>wd := w, route_slots := n\<rparr>"
        have fr: "route_frame (a, s) (a1, ?s1)"
          by (rule route_frame_intro) (auto simp: a1_def n_def)
        have pair: "(if length pkts = route_slots (s\<lparr>wd := w\<rparr>) then
                       (a\<lparr>ra_ring_full := True\<rparr>,
                        (if route_slots (s\<lparr>wd := w\<rparr>) < ROUTE_RING_MAX_SLOTS
                         then (s\<lparr>wd := w\<rparr>)\<lparr>route_slots := max (route_slots (s\<lparr>wd := w\<rparr>)) (min (route_slots (s\<lparr>wd := w\<rparr>) * 2) ROUTE_RING_MAX_SLOTS)\<rparr>
                         else (s\<lparr>wd := w\<rparr>)))
                     else (a, s\<lparr>wd := w\<rparr>)) = (a1, ?s1)"
          by (auto simp: a1_def n_def)
        have eq: "route_loop (a, s) = route_loop (route_packets pkts (a1, ?s1))"
          using True False rec Inr by (simp add: route_loop.simps [of a s] Let_def a1_def n_def)
        have "route_frame (route_packets pkts (a1, ?s1)) (a', s')"
          using "1.IH" [OF True rec [symmetric] Inr refl False pair [symmetric] refl] "1.prems" eq by simp
        then show ?thesis
          using route_frame_trans [OF route_frame_trans [OF fr events_only_route_frame [OF route_packets_frame]]] by blast
      qed
    qed
  qed
qed

lemma note_touched_eq:
  "\<exists>w q m. note_touched a s = s\<lparr>wd := w, quiet_deadline := q, max_deadline := m\<rparr> \<and>
     (if ra_touched a then q \<noteq> None else q = quiet_deadline s)"
proof (cases "ra_touched a")
  case False
  then show ?thesis
    by (intro exI [of _ "wd s"] exI [of _ "quiet_deadline s"] exI [of _ "max_deadline s"])
      (simp add: note_touched_def)
next
  case True
  let ?t = "fst (instant_now (wd s))"
  show ?thesis
    by (rule exI [of _ "snd (instant_now (wd s))"], rule exI [of _ "Some (?t + opt_debounce (opts s))"],
        rule exI [of _ "if max_deadline s = None then Some (?t + opt_debounce_max (opts s)) else max_deadline s"])
      (simp add: note_touched_def True now_eq Let_def)
qed

lemma shrink_ring_eq:
  "\<exists>n k. shrink_ring a s = s\<lparr>route_slots := n, route_ring_calm_streak := k\<rparr> \<and>
     (8 \<le> route_slots s \<and> route_slots s \<le> 32 \<longrightarrow> 8 \<le> n \<and> n \<le> 32)"
proof -
  define c where "c = u8_sat_inc (route_ring_calm_streak s)"
  define shrink where "shrink \<longleftrightarrow> c \<ge> 12 \<and> route_slots s > ROUTE_RING_MIN_SLOTS"
  let ?low = "ra_processed a \<le> max (route_slots s div 4) 1"
  have "shrink_ring a s =
      s\<lparr>route_slots := (if ?low \<and> shrink then max (route_slots s div 2) ROUTE_RING_MIN_SLOTS else route_slots s),
        route_ring_calm_streak := (if ?low \<and> \<not> shrink then c else 0)\<rparr>"
    by (simp add: shrink_ring_def shrink_def c_def Let_def)
  moreover have "8 \<le> route_slots s \<and> route_slots s \<le> 32 \<longrightarrow>
      8 \<le> (if ?low \<and> shrink then max (route_slots s div 2) ROUTE_RING_MIN_SLOTS else route_slots s) \<and>
      (if ?low \<and> shrink then max (route_slots s div 2) ROUTE_RING_MIN_SLOTS else route_slots s) \<le> 32"
    by auto
  ultimately show ?thesis by blast
qed

lemma note_parse_failed_eq:
  "\<exists>lg d r c. note_parse_failed a s =
     s\<lparr>logged := lg, dropped_count := d, resync_requested := r, resync_compensate_pending := c\<rparr>"
proof (cases "ra_parse_failed a > 0")
  case True
  define d where "d = u64_sat_add (dropped_count s) (ra_parse_failed a)"
  define lg where "lg = logged (note_event_drop d s)"
  define c where "c = LogLine LWarn ''sync.compensate_resync''
      [(''reason'', VStr ''parse_failed''), (''count_failed'', VU64 (ra_parse_failed a))]"
  have "note_parse_failed a s = s\<lparr>logged := (if resync_compensate_pending s then lg else lg @ [c]),
      dropped_count := d, resync_requested := True, resync_compensate_pending := True\<rparr>"
    using True
    by (simp add: note_parse_failed_def note_event_drop_def log_def Let_def d_def lg_def c_def)
  then show ?thesis by blast
next
  case False
  then show ?thesis
    by (intro exI [of _ "logged s"] exI [of _ "dropped_count s"] exI [of _ "resync_requested s"]
          exI [of _ "resync_compensate_pending s"]) (simp add: note_parse_failed_def)
qed

lemma handle_route_events_ok [inv_intros]:
  assumes ok: "sys_ok s" and h: "handle_route_events s = (Inr u, s')"
  shows "sys_ok s'"
proof -
  let ?a = "\<lparr>ra_packets_left = budget_current (route_budget s), ra_processed = 0, ra_budget_hit = False,
               ra_ring_full = False, ra_parse_failed = 0, ra_touched = False\<rparr>"
  obtain q a1 s1 where l: "route_loop (?a, s) = (q, a1, s1)" by (metis prod_cases3)
  obtain p lg w n where fr: "s1 = s\<lparr>pending := p, logged := lg, wd := w, route_slots := n\<rparr>"
    "distinct (map fst (pending s)) \<longrightarrow> distinct (map fst p)" "ra_touched a1 \<or> p = pending s"
    "8 \<le> route_slots s \<and> route_slots s \<le> 32 \<longrightarrow> 8 \<le> n \<and> n \<le> 32"
    using route_loop_frame [OF l] by (auto simp: route_frame_def)
  let ?b = "RouteBudgetState_update (ra_processed a1) (ra_budget_hit a1 \<or> ra_ring_full a1) (route_budget s1)"
  let ?s2 = "s1\<lparr>route_budget := ?b\<rparr>"
  obtain w3 q3 m3 where 3: "note_touched a1 ?s2 = ?s2\<lparr>wd := w3, quiet_deadline := q3, max_deadline := m3\<rparr>"
    "if ra_touched a1 then q3 \<noteq> None else q3 = quiet_deadline ?s2" using note_touched_eq by blast
  let ?s3 = "?s2\<lparr>wd := w3, quiet_deadline := q3, max_deadline := m3\<rparr>"
  obtain n4 k4 where 4: "shrink_ring a1 ?s3 = ?s3\<lparr>route_slots := n4, route_ring_calm_streak := k4\<rparr>"
    "8 \<le> route_slots ?s3 \<and> route_slots ?s3 \<le> 32 \<longrightarrow> 8 \<le> n4 \<and> n4 \<le> 32" using shrink_ring_eq by blast
  let ?s4 = "?s3\<lparr>route_slots := n4, route_ring_calm_streak := k4\<rparr>"
  obtain lg5 d5 r5 c5 where 5: "note_parse_failed a1 ?s4 =
     ?s4\<lparr>logged := lg5, dropped_count := d5, resync_requested := r5, resync_compensate_pending := c5\<rparr>"
    using note_parse_failed_eq by blast
  have "s' = ?s4\<lparr>logged := lg5, dropped_count := d5, resync_requested := r5, resync_compensate_pending := c5\<rparr>"
    using h l unfolding handle_route_events_def Let_def
    by (cases q) (simp_all only: prod.case sum.case 3(1) 4(1) 5 prod.inject sum.distinct simp_thms)
  moreover have "route_budget_ok ?b" using ok fr(1) by (simp add: sys_ok_def RouteBudgetState_update_ok)
  ultimately show ?thesis using ok fr 3(2) 4(2) by (auto simp: sys_ok_def split: if_splits)
qed

lemma handle_signals_ok [inv_intros]: "sys_ok s \<Longrightarrow> handle_signals reads s = (r, s') \<Longrightarrow> sys_ok s'"
  by (induction reads s rule: handle_signals.induct) (auto simp: log_def split: if_splits)

lemma next_deadline_wd: "\<exists>d w. next_deadline s = (d, s\<lparr>wd := w\<rparr>)"
  by (simp add: next_deadline_def now_eq Let_def, blast)

lemma arm_timer_wd: "\<exists>r w. arm_timer e d s = (r, s\<lparr>wd := w\<rparr>)"
proof (cases d)
  case None
  then show ?thesis by (intro exI [of _ "fst (arm_timer e d s)"] exI [of _ "wd s"]) (simp add: arm_timer_def split: option.split)
next
  case (Some x)
  then show ?thesis
    by (intro exI [of _ "fst (arm_timer e d s)"] exI [of _ "snd (instant_now (wd s))"])
      (simp add: arm_timer_def now_eq Let_def split: option.split)
qed

subsection \<open>Runs\<close>

text \<open>
  What a predicate on the state has to be preserved by for it to hold along a run: the clock, the
  handlers of the four descriptors and the three steps of the reactor.
\<close>

locale daemon_invariant =
  fixes I :: "sys \<Rightarrow> bool"
  assumes inv_clock: "I s \<Longrightarrow> I (s\<lparr>wd := w\<rparr>)"
    and inv_route: "I s \<Longrightarrow> handle_route_events s = (Inr u, s') \<Longrightarrow> I s'"
    and inv_acks: "I s \<Longrightarrow> drain_rule_acks_once s = (Inr u, s') \<Longrightarrow> I s'"
    and inv_signals: "I s \<Longrightarrow> handle_signals reads s = (Inr u, s') \<Longrightarrow> I s'"
    and inv_timeout: "I s \<Longrightarrow> I (handle_ack_timeout s)"
    and inv_flush: "I s \<Longrightarrow> hash_order ho \<Longrightarrow> start_pending_batch ho s = (Inr b, s') \<Longrightarrow> I s'"
    and inv_slice: "I s \<Longrightarrow> inflight s = None \<Longrightarrow> drive_maintenance_slice s = (Inr u, s') \<Longrightarrow> I s'"
begin

lemma inv_event: "I s \<Longrightarrow> handle_event e s = (Inr u, s') \<Longrightarrow> I s'"
  by (cases e) (auto intro: inv_route inv_acks inv_signals)

lemma inv_events: "I s \<Longrightarrow> handle_events es s = (Inr u, s') \<Longrightarrow> I s'"
proof (induction es arbitrary: s)
  case (Cons e es)
  obtain q s1 where "handle_event e s = (q, s1)" by fastforce
  with Cons show ?case by (cases q) (auto intro: inv_event)
qed simp

lemma inv_reactor:
  assumes I: "I s" and ho: "hash_order ho" and d: "drive_reactor ho s = (Inr u, s')"
  shows "I s'"
proof -
  let ?t = "fst (instant_now (wd s))"
  let ?s1 = "s\<lparr>wd := snd (instant_now (wd s))\<rparr>"
  define s2 where "s2 = (case inflight ?s1 of
      Some b \<Rightarrow> if ?t \<ge> if_ack_deadline b then handle_ack_timeout ?s1 else ?s1 | None \<Rightarrow> ?s1)"
  have s2: "I s2" using I by (auto simp: s2_def inv_clock inv_timeout split: option.split)
  obtain q s3 where st: "(if inflight s2 = None \<and> should_flush_pending s2 ?t (shutdown_requested s2)
      then start_pending_batch ho s2 else (Inr False, s2)) = (q, s3)" by fastforce
  have eq: "drive_reactor ho s = (case q of Inl e \<Rightarrow> (Inl e, s3)
      | Inr _ \<Rightarrow> if inflight s3 = None then drive_maintenance_slice s3 else (Inr (), s3))"
    unfolding drive_reactor_def now_eq Let_def prod.case s2_def [symmetric] st by (cases q) simp_all
  then obtain f where q: "q = Inr f" using d by (cases q) simp_all
  have "I s3" using st s2 ho q by (auto split: if_splits intro: inv_flush)
  with eq d q show ?thesis by (auto split: if_splits intro: inv_slice)
qed

lemma inv_turn:
  assumes I: "I s" and ho: "hash_order ho" and t: "loop_turn ho inp s = (Inr r, s')"
  shows "I s'"
proof (cases inp)
  case (EpollErr e)
  with t I show ?thesis by (auto simp: loop_turn_def split: if_splits)
next
  case (EpollEvents evs se)
  obtain q s1 where ev: "handle_events (take 32 evs) s = (q, s1)" by fastforce
  obtain v where q: "q = Inr v" using t EpollEvents ev by (cases q) (simp_all add: loop_turn_def)
  obtain q2 s2 where dr: "drive_reactor ho s1 = (q2, s2)" by fastforce
  obtain v2 where q2: "q2 = Inr v2" using t EpollEvents ev q dr by (cases q2) (simp_all add: loop_turn_def)
  have s2: "I s2" using inv_reactor [OF inv_events [OF I] ho] ev q dr q2 by blast
  obtain d w where nd: "next_deadline s2 = (d, s2\<lparr>wd := w\<rparr>)" using next_deadline_wd by blast
  obtain q3 w2 where at: "arm_timer se d (s2\<lparr>wd := w\<rparr>) = (q3, s2\<lparr>wd := w2\<rparr>)"
    using arm_timer_wd [of se d "s2\<lparr>wd := w\<rparr>"] by auto
  show ?thesis
    using t EpollEvents ev q dr q2 nd at s2
    by (cases q3) (auto simp: loop_turn_def inv_clock split: if_splits)
qed

lemma inv_turns: "I s \<Longrightarrow> hash_order ho \<Longrightarrow> loop_turns ho inps s = (Inr x, s') \<Longrightarrow> I s'"
proof (induction inps arbitrary: s)
  case (Cons inp inps)
  obtain q s1 where t: "loop_turn ho inp s = (q, s1)" by fastforce
  show ?case
  proof (cases q)
    case (Inl e)
    with Cons.prems t show ?thesis by simp
  next
    case (Inr r)
    with Cons.prems inv_turn t have "I s1" by blast
    with Cons t Inr show ?thesis by (cases r) auto
  qed
qed simp

lemma inv_run:
  assumes I: "I s" and ho: "hash_order ho" and e: "event_loop ho se inps s = (Inr x, s')"
  shows "I s'"
proof -
  obtain d w where nd: "next_deadline s = (d, s\<lparr>wd := w\<rparr>)" using next_deadline_wd by blast
  obtain q w2 where at: "arm_timer se d (s\<lparr>wd := w\<rparr>) = (q, s\<lparr>wd := w2\<rparr>)"
    using arm_timer_wd [of se d "s\<lparr>wd := w\<rparr>"] by auto
  have "loop_turns ho inps (s\<lparr>wd := w2\<rparr>) = (Inr x, s')"
    using e nd at by (cases q) (simp_all add: event_loop_def)
  with inv_turns [OF _ ho] I show ?thesis by (metis inv_clock)
qed

end

interpretation running: daemon_invariant sys_ok
proof (unfold_locales, goal_cases)
  case (5 s)
  then show ?case by (simp add: handle_ack_timeout_ok)
qed (simp, (blast intro: handle_route_events_ok drain_rule_acks_once_ok handle_signals_ok start_pending_batch_ok
      drive_maintenance_slice_ok)+)

subsection \<open>Properties of runs\<close>

lemma initial_state_ok [inv_intros]: "sys_ok (initial_state (Daemon_new options) w)"
  by (simp add: sys_ok_def initial_state_def Daemon_new_def job_ok_def retry_ok_def route_budget_default_ok)

lemma sample_sys_ok: "sys_ok sample_sys"
  by (simp add: sample_sys_def initial_state_ok)

lemma sample_sys_loop: "event_loop id None inps sample_sys = loop_turns id inps sample_sys"
proof -
  have wd: "sample_sys\<lparr>wd := quiet_world\<rparr> = sample_sys"
    using sample_sys_simps(6) by (cases sample_sys) simp
  have now: "now sample_sys = (0, sample_sys)"
    by (simp add: now_eq instant_now_def wd) (simp add: quiet_world_def)
  show ?thesis by (simp add: event_loop_def next_deadline_def arm_timer_def now Let_def split: option.split)
qed

text \<open>
  C1. The maintenance state machine never waits for a batch that will not come: in every state a run
  of the daemon reaches from its start, whatever the kernel answers and in whatever order events are
  delivered, a job that waits for a batch waits for the one in flight (whose deadline will end it) or
  for one whose result is stored, and a maintenance batch in flight is always the one waited for.
\<close>

theorem maintenance_never_stuck:
  assumes "hash_order ho" "event_loop ho se inps (initial_state (Daemon_new options) w) = (Inr x, s)"
  shows "(\<forall>wid. waiting_of (maintenance s) = Some wid \<longrightarrow>
      (\<exists>b. inflight s = Some b \<and> if_owner b = OwnerMaintenance \<and> if_batch_id b = wid) \<or>
      (\<exists>c. completed_batch s = Some c \<and> cb_owner c = OwnerMaintenance \<and> cb_batch_id c = wid)) \<and>
    (\<forall>b. inflight s = Some b \<and> if_owner b = OwnerMaintenance \<longrightarrow> waiting_of (maintenance s) = Some (if_batch_id b))"
  using running.inv_run [OF initial_state_ok assms] by (simp add: sys_ok_def job_ok_def)

theorem maintenance_never_stuck_witness:
  "case event_loop id None [EpollErr \<lparr>raw_os_error = Some 4, io_kind = OtherKind, io_text = []\<rparr>] sample_sys of
     (r, s) \<Rightarrow> r = Inr False \<and> (\<forall>wid. waiting_of (maintenance s) = Some wid \<longrightarrow>
       (\<exists>b. inflight s = Some b \<and> if_owner b = OwnerMaintenance \<and> if_batch_id b = wid) \<or>
       (\<exists>c. completed_batch s = Some c \<and> cb_owner c = OwnerMaintenance \<and> cb_batch_id c = wid))"
proof -
  let ?i = "[EpollErr \<lparr>raw_os_error = Some 4, io_kind = OtherKind, io_text = []\<rparr>]"
  have e: "event_loop id None ?i sample_sys = (Inr False, sample_sys)"
    using sample_sys_loop [of ?i] by (simp add: loop_turn_def os_error_matches_def)
  show ?thesis
    using maintenance_never_stuck [of id None ?i sample_opts quiet_world False sample_sys] e
    by (simp add: hash_order_def sample_sys_def [symmetric])
qed

text \<open>The times at which the event loop has to wake up.\<close>

definition wake_times :: "sys \<Rightarrow> nat \<Rightarrow> nat set" where
  "wake_times s t =
     set_option (quiet_deadline s) \<union> set_option (max_deadline s) \<union> if_ack_deadline ` set_option (inflight s) \<union>
     (if maintenance s \<noteq> Idle \<or> (inflight s = None \<and> (resync_requested s \<or> shutdown_requested s \<and> \<not> shutdown_cleanup_done s))
      then {t + millis 1} else {}) \<union>
     (if startup_cleanup_pending s \<and> inflight s = None
      then {case startup_cleanup_retry_deadline s of Some v \<Rightarrow> v | None \<Rightarrow> t + millis 1} else {})"

definition is_min_of :: "nat option \<Rightarrow> nat set \<Rightarrow> bool" where
  "is_min_of d A \<longleftrightarrow> (case d of None \<Rightarrow> A = {} | Some m \<Rightarrow> m \<in> A \<and> (\<forall>x \<in> A. m \<le> x))"

lemma is_min_of_min_deadline: "is_min_of d A \<Longrightarrow> is_min_of (min_deadline d v) (insert v A)"
  by (auto simp: is_min_of_def min_deadline_def split: option.splits)

lemma is_min_of_if: "is_min_of d A \<Longrightarrow> is_min_of (if c then min_deadline d v else d) (A \<union> (if c then {v} else {}))"
  using is_min_of_min_deadline [of d A v] by simp

lemma is_min_of_case:
  "is_min_of d A \<Longrightarrow> is_min_of (case x of Some v \<Rightarrow> min_deadline d (g v) | None \<Rightarrow> d) (A \<union> g ` set_option x)"
  using is_min_of_min_deadline [of d A] by (cases x) simp_all

lemma wd_fields:
  "inflight (s\<lparr>wd := w\<rparr>) = inflight s" "maintenance (s\<lparr>wd := w\<rparr>) = maintenance s"
  "resync_requested (s\<lparr>wd := w\<rparr>) = resync_requested s" "shutdown_requested (s\<lparr>wd := w\<rparr>) = shutdown_requested s"
  "shutdown_cleanup_done (s\<lparr>wd := w\<rparr>) = shutdown_cleanup_done s"
  "startup_cleanup_pending (s\<lparr>wd := w\<rparr>) = startup_cleanup_pending s"
  "startup_cleanup_retry_deadline (s\<lparr>wd := w\<rparr>) = startup_cleanup_retry_deadline s"
  by simp_all

lemma next_deadline_min:
  "\<exists>d. next_deadline s = (d, s\<lparr>wd := snd (instant_now (wd s))\<rparr>) \<and> is_min_of d (wake_times s (fst (instant_now (wd s))))"
proof -
  let ?t = "fst (instant_now (wd s))"
  let ?soon = "?t + millis 1"
  let ?d1 = "case quiet_deadline s of Some v \<Rightarrow> min_deadline None v | None \<Rightarrow> None"
  let ?d2 = "case max_deadline s of Some v \<Rightarrow> min_deadline ?d1 v | None \<Rightarrow> ?d1"
  let ?d3 = "case inflight s of Some b \<Rightarrow> min_deadline ?d2 (if_ack_deadline b) | None \<Rightarrow> ?d2"
  let ?d4 = "if maintenance s \<noteq> Idle then min_deadline ?d3 ?soon else ?d3"
  let ?d5 = "if resync_requested s \<and> inflight s = None then min_deadline ?d4 ?soon else ?d4"
  let ?d6 = "if shutdown_requested s \<and> \<not> shutdown_cleanup_done s \<and> inflight s = None then min_deadline ?d5 ?soon else ?d5"
  let ?d7 = "if startup_cleanup_pending s \<and> inflight s = None
     then min_deadline ?d6 (case startup_cleanup_retry_deadline s of Some v \<Rightarrow> v | None \<Rightarrow> ?soon) else ?d6"
  have nd: "next_deadline s = (?d7, s\<lparr>wd := snd (instant_now (wd s))\<rparr>)"
    unfolding next_deadline_def now_eq Let_def prod.case by (simp only: wd_fields)
  have 0: "is_min_of None {}" by (simp add: is_min_of_def)
  note 1 = is_min_of_case [OF 0, where x = "quiet_deadline s" and g = "\<lambda>v. v"]
  note 2 = is_min_of_case [OF 1, where x = "max_deadline s" and g = "\<lambda>v. v"]
  note 3 = is_min_of_case [OF 2, where x = "inflight s" and g = if_ack_deadline]
  note 4 = is_min_of_if [OF 3, of "maintenance s \<noteq> Idle" ?soon]
  note 5 = is_min_of_if [OF 4, of "resync_requested s \<and> inflight s = None" ?soon]
  note 6 = is_min_of_if [OF 5, of "shutdown_requested s \<and> \<not> shutdown_cleanup_done s \<and> inflight s = None" ?soon]
  note 7 = is_min_of_if [OF 6, of "startup_cleanup_pending s \<and> inflight s = None"
      "case startup_cleanup_retry_deadline s of Some v \<Rightarrow> v | None \<Rightarrow> ?soon"]
  have "is_min_of ?d7 (wake_times s ?t)"
    using 7 by (rule back_subst [where P = "is_min_of ?d7"]) (auto simp: wake_times_def split: if_splits)
  with nd show ?thesis by blast
qed

lemma arm_timer_spec:
  assumes "arm_timer None d s = (Inr (sec, nsec), s')"
  shows "(d = None \<and> sec = 0 \<and> nsec = 0 \<and> s' = s) \<or>
    (\<exists>m. d = Some m \<and> s' = s\<lparr>wd := snd (instant_now (wd s))\<rparr> \<and> nsec < 1000000000 \<and>
       sec * 1000000000 + nsec = max (m - fst (instant_now (wd s))) 1)"
  using assms by (cases d) (auto simp: arm_timer_def now_eq Let_def)

lemma turn_armed:
  assumes "loop_turn ho (EpollEvents evs None) s = (Inr (TurnArmed spec), s')"
  shows "\<exists>s2 d s3. next_deadline s2 = (d, s3) \<and> arm_timer None d s3 = (Inr spec, s')"
proof -
  obtain q s1 where ev: "handle_events (take 32 evs) s = (q, s1)" by fastforce
  obtain v where q: "q = Inr v" using assms ev by (cases q) (simp_all add: loop_turn_def)
  obtain q2 s2 where dr: "drive_reactor ho s1 = (q2, s2)" by fastforce
  obtain v2 where q2: "q2 = Inr v2" using assms ev q dr by (cases q2) (simp_all add: loop_turn_def)
  obtain d s3 where nd: "next_deadline s2 = (d, s3)" by fastforce
  obtain q3 s4 where at: "arm_timer None d s3 = (q3, s4)" by fastforce
  have "q3 = Inr spec \<and> s4 = s'"
    using assms ev q dr q2 nd at by (cases q3) (simp_all add: loop_turn_def split: if_splits)
  with nd at show ?thesis by blast
qed

lemma wake_times_wd: "wake_times (s\<lparr>wd := w\<rparr>) t = wake_times s t"
  by (simp add: wake_times_def)

lemma wake_times_deadlines:
  "set_option (quiet_deadline s) \<union> set_option (max_deadline s) \<union> if_ack_deadline ` set_option (inflight s) \<subseteq> wake_times s t"
  unfolding wake_times_def by blast

lemma wake_times_work:
  assumes "sys_ok s" "pending s \<noteq> [] \<or> inflight s \<noteq> None \<or> maintenance s \<noteq> Idle \<or> resync_requested s \<or>
    startup_cleanup_pending s \<or> (shutdown_requested s \<and> \<not> shutdown_cleanup_done s)"
  shows "wake_times s t \<noteq> {}"
  using assms by (cases "inflight s") (auto simp: wake_times_def sys_ok_def)

text \<open>
  C8. No wakeup is lost: when a turn of the event loop ends by arming the timer, the timer is armed
  (a zero value would disarm it) whenever any work is left (events, a batch in flight, a maintenance job,
  a requested resync, startup or shutdown cleanup), and it expires no later than the quiet deadline,
  the maximal delay and the acknowledgement deadline, or at once when one of them has passed.
\<close>

theorem no_lost_wakeup:
  assumes "sys_ok s" "hash_order ho" "loop_turn ho (EpollEvents evs None) s = (Inr (TurnArmed (sec, nsec)), s')"
  shows "nsec < 1000000000 \<and>
    (pending s' \<noteq> [] \<or> inflight s' \<noteq> None \<or> maintenance s' \<noteq> Idle \<or> resync_requested s' \<or> startup_cleanup_pending s' \<or>
       (shutdown_requested s' \<and> \<not> shutdown_cleanup_done s') \<longrightarrow> (sec, nsec) \<noteq> (0, 0)) \<and>
    (\<forall>d \<in> set_option (quiet_deadline s') \<union> set_option (max_deadline s') \<union> if_ack_deadline ` set_option (inflight s').
       clock (wd s') + (sec * 1000000000 + nsec) \<le> max d (clock (wd s') + 1))"
proof -
  obtain s2 d s3 where nd: "next_deadline s2 = (d, s3)" and at: "arm_timer None d s3 = (Inr (sec, nsec), s')"
    using turn_armed [OF assms(3)] by blast
  let ?t = "fst (instant_now (wd s2))"
  obtain d' where "next_deadline s2 = (d', s2\<lparr>wd := snd (instant_now (wd s2))\<rparr>)" "is_min_of d' (wake_times s2 ?t)"
    using next_deadline_min by blast
  with nd have s3: "s3 = s2\<lparr>wd := snd (instant_now (wd s2))\<rparr>" and mn: "is_min_of d (wake_times s2 ?t)"
    by (simp_all only: prod.inject)
  have ok: "sys_ok s'" by (rule running.inv_turn [OF assms])
  have wake: "wake_times s2 ?t = wake_times s' ?t"
    using arm_timer_spec [OF at] unfolding s3 by (elim disjE conjE exE) (simp_all only: wake_times_wd)
  show ?thesis
  proof (cases d)
    case None
    then have e: "wake_times s' ?t = {}" using mn wake by (simp add: is_min_of_def)
    have z: "nsec = 0" using arm_timer_spec [OF at] unfolding None by (elim disjE conjE exE) (simp_all only: option.distinct)
    have dl: "set_option (quiet_deadline s') \<union> set_option (max_deadline s') \<union> if_ack_deadline ` set_option (inflight s') = {}"
      using wake_times_deadlines [of s' ?t] unfolding e by (rule subset_antisym) (rule empty_subsetI)
    show ?thesis
      unfolding dl z
    proof (intro conjI impI ballI)
      assume "pending s' \<noteq> [] \<or> inflight s' \<noteq> None \<or> maintenance s' \<noteq> Idle \<or> resync_requested s' \<or>
        startup_cleanup_pending s' \<or> (shutdown_requested s' \<and> \<not> shutdown_cleanup_done s')"
      from wake_times_work [OF ok this, of ?t] e show "(sec, 0) \<noteq> (0, 0)" by (rule notE)
    qed simp_all
  next
    case (Some m)
    have a: "s' = s3\<lparr>wd := snd (instant_now (wd s3))\<rparr>" "nsec < 1000000000"
      "sec * 1000000000 + nsec = max (m - fst (instant_now (wd s3))) 1"
      using arm_timer_spec [OF at] unfolding Some by (elim disjE conjE exE; simp only: option.inject option.distinct; fail)+
    have clk: "clock (wd s') = fst (instant_now (wd s3))" using a(1) by (simp add: instant_now_mono)
    have le: "m \<le> x" if "x \<in> wake_times s' ?t" for x using that mn Some wake by (simp add: is_min_of_def)
    show ?thesis
    proof (intro conjI impI ballI)
      show "nsec < 1000000000" by (rule a(2))
      show "(sec, nsec) \<noteq> (0, 0)" using a(3) by auto
      fix x assume "x \<in> set_option (quiet_deadline s') \<union> set_option (max_deadline s') \<union> if_ack_deadline ` set_option (inflight s')"
      then have "m \<le> x" using wake_times_deadlines le by (meson subsetD)
      then show "clock (wd s') + (sec * 1000000000 + nsec) \<le> max x (clock (wd s') + 1)"
        unfolding a(3) clk by simp
    qed
  qed
qed

lemma idle_turn:
  assumes "maintenance s = Idle" "inflight s = None" "\<not> shutdown_requested s" "\<not> startup_cleanup_pending s"
    "\<not> resync_requested s" "times (wd s) = []" "\<not> should_flush_pending s (clock (wd s)) False"
  shows "drive_reactor ho s = (Inr (), s)"
proof -
  have n: "instant_now (wd s) = (clock (wd s), wd s)" using assms(6) by (simp add: instant_now_def)
  have wd: "s\<lparr>wd := wd s\<rparr> = s" by simp
  have m: "s\<lparr>maintenance := Idle\<rparr> = s" using assms(1) by simp
  have "slice_step 256 s = (CBreak, 256, s)"
    using assms by (simp add: slice_step_def idle_branch_def m)
  then have "drive_maintenance_slice s = (Inr (), s)"
    by (simp add: drive_maintenance_slice_def slice_loop.simps now_eq n wd)
  then show ?thesis
    using assms by (simp add: drive_reactor_def now_eq n wd)
qed

theorem no_lost_wakeup_witness:
  "\<exists>s'. loop_turn id (EpollEvents [] None)
     (sample_sys\<lparr>startup_cleanup_pending := False, pending := [(V4 1, Add)], quiet_deadline := Some 100\<rparr>) =
       (Inr (TurnArmed (0, 100)), s') \<and> clock (wd s') + (0 * 1000000000 + 100) \<le> max 100 (clock (wd s') + 1)"
proof -
  let ?s = "sample_sys\<lparr>startup_cleanup_pending := False, pending := [(V4 1, Add)], quiet_deadline := Some 100\<rparr>"
  have n: "instant_now (wd ?s) = (0, wd ?s)" by (simp add: quiet_world_def instant_now_def)
  have ok: "sys_ok ?s" using sample_sys_ok by (auto simp: sys_ok_def retry_ok_def)
  have d: "drive_reactor id ?s = (Inr (), ?s)"
    by (rule idle_turn) (simp_all add: quiet_world_def should_flush_pending_def)
  have nd: "next_deadline ?s = (Some 100, ?s)"
    using n by (simp add: next_deadline_def now_eq min_deadline_def)
  have at: "arm_timer None (Some 100) ?s = (Inr (0, 100), ?s)"
    using n by (simp add: arm_timer_def now_eq)
  have t: "loop_turn id (EpollEvents [] None) ?s = (Inr (TurnArmed (0, 100)), ?s)"
    using d nd at by (simp add: loop_turn_def loop_exit_def)
  from no_lost_wakeup [OF ok _ t] have "\<forall>d \<in> set_option (quiet_deadline ?s). clock (wd ?s) + (0 * 1000000000 + 100) \<le> max d (clock (wd ?s) + 1)"
    by (simp add: hash_order_def)
  with t show ?thesis by simp
qed

lemma started_pending:
  assumes "start_pending_batch ho s = (Inr True, s')"
  shows "inflight s = None" "filter (\<lambda>op. \<not> should_skip (owned_ips s) op) (taken_ops ho s) \<noteq> []"
    "start_batch OwnerPending (batch_id s + 1) (length (taken_ops ho s))
      (length (filter (should_skip (owned_ips s)) (taken_ops ho s)))
      (filter (\<lambda>op. \<not> should_skip (owned_ips s) op) (taken_ops ho s))
      ((pending_taken ho s)\<lparr>batch_id := batch_id s + 1\<rparr>) = (Inr True, s')"
proof -
  let ?kept = "filter (\<lambda>op. \<not> should_skip (owned_ips s) op) (taken_ops ho s)"
  have i: "\<not> (inflight s \<noteq> None \<or> pending s = [])"
  proof
    assume "inflight s \<noteq> None \<or> pending s = []"
    then have "start_pending_batch ho s = (Inr False, s)" by (simp only: start_pending_batch_def if_True)
    with assms show False by simp
  qed
  have k: "?kept \<noteq> []"
  proof
    assume "?kept = []"
    with assms i show False unfolding start_pending_batch_eq Let_def by (cases "taken_ops ho s = []") simp_all
  qed
  then have ne: "taken_ops ho s \<noteq> []" by auto
  show "inflight s = None" using i by blast
  show "?kept \<noteq> []" by (rule k)
  show "start_batch OwnerPending (batch_id s + 1) (length (taken_ops ho s))
      (length (filter (should_skip (owned_ips s)) (taken_ops ho s))) ?kept
      ((pending_taken ho s)\<lparr>batch_id := batch_id s + 1\<rparr>) = (Inr True, s')"
    using assms i k ne unfolding start_pending_batch_eq Let_def by (simp only: if_False)
qed

text \<open>
  C15. A pending batch is a faithful part of the pending events: starting it takes at most \<open>batch_max\<close>
  events out of the map and loses none, the requests sent on the rule socket are exactly the effective
  ones among those taken, each address once; if events are left behind, both debounce deadlines start anew from
  the present time, and otherwise both are cleared.
\<close>

theorem pending_batch_partition:
  assumes "sys_ok s" "hash_order ho" "start_pending_batch ho s = (Inr True, s')"
  shows "\<exists>b taken. inflight s' = Some b \<and> mset (taken @ pending s') = mset (pending s) \<and>
    length taken = min (opt_batch_max (opts s)) (length (pending s)) \<and>
    if_ops b = filter (\<lambda>op. \<not> should_skip (owned_ips s) op) (map (\<lambda>(k, a). \<lparr>op_addr = into_ip k, op_action = a\<rparr>) taken) \<and>
    distinct (map op_key (if_ops b)) \<and>
    tx_log (socks (wd s') RuleSock) = tx_log (socks (wd s) RuleSock) @ batch_messages (rule_ctx s) (if_first_seq b) (if_ops b) \<and>
    (let t = fst (instant_now (wd s)) in
     if pending s' = [] then quiet_deadline s' = None \<and> max_deadline s' = None
     else quiet_deadline s' = Some (t + opt_debounce (opts s)) \<and> max_deadline s' = Some (t + opt_debounce_max (opts s)))"
proof -
  let ?n = "min (opt_batch_max (opts s)) (length (pending s))"
  let ?taken = "take ?n (ho (pending s))" and ?s1 = "pending_taken ho s"
  let ?kept = "filter (\<lambda>op. \<not> should_skip (owned_ips s) op) (taken_ops ho s)"
  let ?s2 = "?s1\<lparr>batch_id := batch_id s + 1\<rparr>"
  have k: "?kept \<noteq> []" and st: "start_batch OwnerPending (batch_id s + 1) (length (taken_ops ho s))
      (length (filter (should_skip (owned_ips s)) (taken_ops ho s))) ?kept ?s2 = (Inr True, s')"
    using started_pending [OF assms(3)] by simp_all
  let ?dl = "\<lambda>s'. let t = fst (instant_now (wd s)) in
     if pending s' = [] then quiet_deadline s' = None \<and> max_deadline s' = None
     else quiet_deadline s' = Some (t + opt_debounce (opts s)) \<and> max_deadline s' = Some (t + opt_debounce_max (opts s))"
  have pt: "pending ?s1 = drop ?n (ho (pending s))" "rule_ctx ?s1 = rule_ctx s"
    "tx_log (socks (wd ?s1) RuleSock) = tx_log (socks (wd s) RuleSock)" "?dl ?s1"
    by (simp_all add: pending_taken_def pool_pop_def now_eq Let_def)
  obtain b where b: "inflight s' = Some b" "if_ops b = ?kept"
    "tx_log (socks (wd s') RuleSock) = tx_log (socks (wd s) RuleSock) @ batch_messages (rule_ctx s) (if_first_seq b) ?kept"
    using start_batch_sent [OF st k] pt by auto
  obtain tr sc w b' where s': "s' = ?s2\<lparr>ack_tracker_reuse := tr, apply_scratch := sc, wd := w, inflight := Some b'\<rparr>"
  proof (rule start_batch_cases [OF st k])
    show "length (taken_ops ho s) = length (filter (should_skip (owned_ips s)) (taken_ops ho s)) + length ?kept"
      by (simp add: length_filter_split)
  qed (simp, rule that)
  have pend: "pending s' = drop ?n (ho (pending s))" using s' pt(1) by simp
  have ms: "mset (ho (pending s)) = mset (pending s)" using assms(2) by (simp add: hash_order_def)
  have part: "mset (?taken @ pending s') = mset (pending s)" unfolding pend append_take_drop_id by (rule ms)
  have len: "length ?taken = ?n" using ms by (metis length_take min.absorb2 min.cobounded2 size_mset)
  have dist: "distinct (map fst (ho (pending s)))"
    using hash_order_distinct [OF assms(2)] assms(1) by (simp add: sys_ok_def)
  have keys: "map op_key (taken_ops ho s) = map fst ?taken"
    by (auto simp: taken_ops_def op_key_def)
  have "distinct (map op_key (taken_ops ho s))"
    unfolding keys take_map [symmetric] using dist by (rule distinct_take)
  then have dk: "distinct (map op_key ?kept)" by (rule distinct_map_filter)
  have "?kept = filter (\<lambda>op. \<not> should_skip (owned_ips s) op) (map (\<lambda>(k, a). \<lparr>op_addr = into_ip k, op_action = a\<rparr>) ?taken)"
    by (simp add: taken_ops_def)
  moreover have "?dl s'" using pt(4) s' by (simp add: Let_def)
  ultimately show ?thesis using b part len dk by (intro exI [of _ b] exI [of _ ?taken]) simp
qed

text \<open>A daemon with one event to apply, and what starting the batch gives.\<close>

definition sample_pending :: sys where
  "sample_pending = sample_sys\<lparr>pending := [(V4 1, Add)], quiet_deadline := Some 0\<rparr>"

lemma sample_pending_ok: "sys_ok sample_pending"
  using sample_sys_ok by (simp add: sample_pending_def sys_ok_def)

lemma sample_pending_starts: "\<exists>s'. start_pending_batch id sample_pending = (Inr True, s')"
proof -
  let ?op = "\<lparr>op_addr = into_ip (V4 1), op_action = Add\<rparr>" and ?s1 = "(pending_taken id sample_pending)\<lparr>batch_id := batch_id sample_pending + 1\<rparr>"
  have ops: "taken_ops id sample_pending = [?op]"
    by (simp add: taken_ops_def sample_pending_def sample_opts_def)
  have sk: "\<not> should_skip (owned_ips sample_pending) ?op"
    by (simp add: sample_pending_def should_skip_eq is_add_def)
  have tx: "tx_script (socks (wd ?s1) RuleSock) = []"
    by (simp add: pending_taken_def pool_pop_def sample_pending_def sample_opts_def quiet_world_def)
  obtain sc w' where "start_apply_rules_batch RuleSock (rule_ctx ?s1) [?op] (apply_scratch ?s1) (ack_tracker_reuse ?s1) (wd ?s1) =
      (Inr (normalize_seq (seq_cell (wd ?s1))), sc, tracker_prepare (length [?op]) (ack_tracker_reuse ?s1), w')"
    using start_apply_quiet [OF _ tx, of "[?op]"] by blast
  then have "\<exists>s'. start_batch OwnerPending (batch_id sample_pending + 1) (Suc 0) 0 [?op] ?s1 = (Inr True, s')"
    by (simp add: start_batch_def now_eq)
  moreover have "start_pending_batch id sample_pending = start_batch OwnerPending (batch_id sample_pending + 1) (Suc 0) 0 [?op] ?s1"
    unfolding start_pending_batch_eq Let_def ops by (simp add: sk) (simp add: sample_pending_def)
  ultimately show ?thesis by simp
qed

theorem pending_batch_partition_witness:
  "\<exists>s' b. start_pending_batch id sample_pending = (Inr True, s') \<and> inflight s' = Some b \<and>
     if_ops b = [\<lparr>op_addr = into_ip (V4 1), op_action = Add\<rparr>] \<and> pending s' = []"
proof -
  obtain s' where s': "start_pending_batch id sample_pending = (Inr True, s')" using sample_pending_starts by blast
  have sk: "\<not> should_skip {} \<lparr>op_addr = into_ip (V4 1), op_action = Add\<rparr>" by (simp add: should_skip_eq is_add_def)
  from pending_batch_partition [OF sample_pending_ok _ s'] obtain b taken where
    b: "inflight s' = Some b" "mset (taken @ pending s') = {#(V4 1, Add)#}" "length taken = 1"
    "if_ops b = filter (\<lambda>op. \<not> should_skip {} op) (map (\<lambda>(k, a). \<lparr>op_addr = into_ip k, op_action = a\<rparr>) taken)"
    by (auto simp: hash_order_def sample_pending_def sample_opts_def)
  then have "taken = [(V4 1, Add)]" "pending s' = []"
    by (cases taken; auto simp: add_eq_conv_ex)+
  with s' b sk show ?thesis by simp
qed

text \<open>
  One round trip keeps the daemon and the kernel in step: take a batch of pending events, let the
  kernel process the requests that were sent and answer them in any order and packets; after the next
  drain nothing is in flight, every owned address has a rule, the rules that are not the daemon's are
  untouched, and every request that was not refused has its effect.
\<close>

theorem pending_round_trip:
  assumes "sys_ok s" "hash_order ho" "owned_ips s \<subseteq> K" "start_pending_batch ho s = (Inr True, s1)" "inflight s1 = Some b"
    "kernel_batch K (if_ops b) es K'" "list_all recv_batch bs" "answers (if_first_seq b) es (concat (map batch_views bs))"
  shows "\<exists>s2. drain_rule_acks_once (s1\<lparr>wd := upd_sock RuleSock (\<lambda>k. k\<lparr>rx_script := map RecvOk bs\<rparr>) (wd s1)\<rparr>) = (Inr (), s2) \<and>
    inflight s2 = None \<and> owned_ips s2 \<subseteq> K' \<and> K' - owned_ips s2 = K - owned_ips s \<and>
    (\<forall>i < length (if_ops b).
       (is_add (if_ops b ! i) \<and> es ! i \<in> {0, EEXIST} \<longrightarrow> op_key (if_ops b ! i) \<in> K') \<and>
       (\<not> is_add (if_ops b ! i) \<and> es ! i \<in> {0, ENOENT} \<longrightarrow> op_key (if_ops b ! i) \<notin> K'))"
proof -
  let ?s = "s1\<lparr>wd := upd_sock RuleSock (\<lambda>k. k\<lparr>rx_script := map RecvOk bs\<rparr>) (wd s1)\<rparr>"
  note st = started_pending [OF assms(4)]
  obtain b' where b': "inflight s1 = Some b'" "if_ops b' = filter (\<lambda>op. \<not> should_skip (owned_ips s) op) (taken_ops ho s)"
    "\<exists>t0. if_tracker b' = tracker_prepare (length (if_ops b')) t0" "owned_ips s1 = owned_ips s"
    using start_batch_sent [OF st(3,2)] pending_taken_ok(4) [OF assms(1,2)] by auto
  then obtain t0 where t0: "if_tracker b = tracker_prepare (length (if_ops b)) t0" and
    ops: "if_ops b = filter (\<lambda>op. \<not> should_skip (owned_ips s) op) (taken_ops ho s)" using assms(5) by auto
  have keys: "map op_key (taken_ops ho s) = map fst (take (min (opt_batch_max (opts s)) (length (pending s))) (ho (pending s)))"
    by (auto simp: taken_ops_def op_key_def)
  have "distinct (map fst (ho (pending s)))"
    using hash_order_distinct [OF assms(2)] assms(1) by (simp add: sys_ok_def)
  then have "distinct (map op_key (taken_ops ho s))" unfolding keys take_map [symmetric] by (rule distinct_take)
  then have dk: "distinct (map op_key (if_ops b))" unfolding ops by (rule distinct_map_filter)
  have kept: "list_all (\<lambda>op. \<not> should_skip (owned_ips ?s) op) (if_ops b)" using ops b'(4) by (simp add: list_all_iff)
  have f: "inflight ?s = Some b" "owned_ips ?s \<subseteq> K" "rx_script (socks (wd ?s) RuleSock) = map RecvOk bs"
    "owned_ips ?s = owned_ips s"
    using assms(3,5) b'(4) by (simp_all add: upd_sock_def)
  from answered_batch_spec [OF f(1) t0 dk f(2) assms(6) f(3) assms(7,8)] kept
  show ?thesis unfolding f(4) by blast
qed

theorem pending_round_trip_witness:
  "\<exists>s1 b s2. start_pending_batch id sample_pending = (Inr True, s1) \<and> inflight s1 = Some b \<and>
     drain_rule_acks_once (s1\<lparr>wd := upd_sock RuleSock (\<lambda>k. k\<lparr>rx_script := map RecvOk [[kernel_ack (seq_with_offset (if_first_seq b) 0) 0]]\<rparr>) (wd s1)\<rparr>) = (Inr (), s2) \<and>
     owned_ips s2 = {V4 1}"
proof -
  obtain s1 where s1: "start_pending_batch id sample_pending = (Inr True, s1)" using sample_pending_starts by blast
  have ho: "hash_order id" by (simp add: hash_order_def)
  let ?op = "\<lparr>op_addr = into_ip (V4 1), op_action = Add\<rparr>"
  have "taken_ops id sample_pending = [?op]" "owned_ips sample_pending = {}"
    by (simp_all add: taken_ops_def sample_pending_def sample_opts_def)
  moreover have "\<not> should_skip {} ?op" by (simp add: should_skip_eq is_add_def)
  ultimately obtain b where b: "inflight s1 = Some b" "if_ops b = [?op]"
    using start_batch_sent [OF started_pending(3,2) [OF s1]] by auto
  have "kernel_step {} ?op 0 (insert (op_key ?op) {})" by (rule kernel_step.add_new) (simp_all add: is_add_def)
  then have k: "kernel_batch {} (if_ops b) [0] {V4 1}" using b(2) by (simp add: op_key_def)
  let ?a = "kernel_ack (seq_with_offset (if_first_seq b) 0) 0"
  have r: "list_all recv_batch [[?a]]" using kernel_acks_batch [of "[(seq_with_offset (if_first_seq b) 0, 0)]"] by simp
  have an: "answers (if_first_seq b) [0] (concat (map batch_views [[?a]]))" using single_ack_answers [of 0] by simp
  have own: "owned_ips sample_pending = {}" by (simp add: sample_pending_def)
  from pending_round_trip [OF sample_pending_ok ho _ s1 b(1) k r an] own
  obtain s2 where s2: "drain_rule_acks_once (s1\<lparr>wd := upd_sock RuleSock (\<lambda>k. k\<lparr>rx_script := map RecvOk [[?a]]\<rparr>) (wd s1)\<rparr>) = (Inr (), s2)"
    "owned_ips s2 \<subseteq> {V4 1}" "{V4 1} - owned_ips s2 = {} - owned_ips sample_pending" by auto
  then have "owned_ips s2 = {V4 1}" using own by auto
  with s1 b(1) s2(1) show ?thesis by blast
qed

subsection \<open>Behaviours at the edges\<close>

text \<open>
  C39. A rule that disappeared behind the daemon's back is never restored: when the deletion of an owned
  address is answered with \<open>ENOENT\<close> the address stays in the owned set although the kernel has no rule
  for it, so when the address comes back its addition is dropped by the prefilter and nothing is sent.
\<close>

theorem enoent_blocks_readd:
  assumes "inflight s = Some b" "if_ops b = [\<lparr>op_addr = into_ip k, op_action = Delete\<rparr>]" "answered (if_tracker b) [ENOENT]"
    "k \<in> owned_ips s" "finish_inflight_batch s = (r, s1)" "hash_order ho"
  shows "k \<in> owned_ips s1 \<and>
    (\<exists>s2. start_pending_batch ho (s1\<lparr>pending := [(k, Add)]\<rparr>) = (Inr False, s2) \<and> inflight s2 = None \<and>
       tx_log (socks (wd s2) RuleSock) = tx_log (socks (wd s1) RuleSock))"
proof -
  let ?s = "s1\<lparr>pending := [(k, Add)]\<rparr>" and ?op = "\<lparr>op_addr = into_ip k, op_action = Add\<rparr>"
  note f = finish_owned [OF assms(1,5,3)]
  have own: "k \<in> owned_ips s1" and nif: "inflight s1 = None"
    using f assms(2,4) by (simp_all add: own_step_def)
  have "mset (ho [(k, Add)]) = mset [(k, Add)]" using assms(6) by (simp add: hash_order_def)
  then have ho: "ho [(k, Add)] = [(k, Add)]" by simp
  have ops: "taken_ops ho ?s = [] \<or> taken_ops ho ?s = [?op]"
    by (cases "opt_batch_max (opts s1)") (simp_all add: taken_ops_def ho)
  have sk: "should_skip (owned_ips ?s) ?op" using own by (simp add: should_skip_eq is_add_def op_key_def)
  have pt: "inflight (pending_taken ho ?s) = None"
    "tx_log (socks (wd (pending_taken ho ?s)) RuleSock) = tx_log (socks (wd s1) RuleSock)"
    using nif by (simp_all add: pending_taken_def pool_pop_def now_eq Let_def)
  obtain s2 where "start_pending_batch ho ?s = (Inr False, s2)" "inflight s2 = inflight (pending_taken ho ?s)"
    "wd s2 = wd (pending_taken ho ?s)"
    using ops nif sk unfolding start_pending_batch_eq Let_def by (auto simp: pool_push_def log_def)
  with own pt show ?thesis by simp
qed

theorem enoent_blocks_readd_witness:
  "V4 1 \<in> owned_ips (snd (finish_inflight_batch
     (sample_sys\<lparr>owned_ips := {V4 1}, inflight := Some \<lparr>if_batch_id = 1, if_started_at = 0, if_ack_deadline = 5, if_input_count = 1,
          if_noop_prefilter = 0, if_first_seq = 1,
          if_tracker = mark_status 0 (Some \<lparr>st_errno = 2, st_ext_msg = None, st_ext_offset = None\<rparr>) (tracker_prepare 1 AckTracker_default),
          if_owner = OwnerPending, if_ops = [\<lparr>op_addr = into_ip (V4 1), op_action = Delete\<rparr>]\<rparr>\<rparr>)))"
proof -
  let ?t = "mark_status 0 (Some \<lparr>st_errno = 2, st_ext_msg = None, st_ext_offset = None\<rparr>) (tracker_prepare 1 AckTracker_default)"
  let ?b = "\<lparr>if_batch_id = 1, if_started_at = 0, if_ack_deadline = 5, if_input_count = 1,
          if_noop_prefilter = 0, if_first_seq = 1, if_tracker = ?t,
          if_owner = OwnerPending, if_ops = [\<lparr>op_addr = into_ip (V4 1), op_action = Delete\<rparr>]\<rparr>"
  let ?s = "sample_sys\<lparr>owned_ips := {V4 1}, inflight := Some ?b\<rparr>"
  have a: "answered (if_tracker ?b) [ENOENT]"
    by (simp add: answered_def seen_at_def status_at_def mark_status_def tracker_prepare_def vec_resize_def)
  obtain r s1 where fin: "finish_inflight_batch ?s = (r, s1)" by fastforce
  have ho: "hash_order id" by (simp add: hash_order_def)
  from enoent_blocks_readd [OF _ _ a _ fin ho] fin show ?thesis by simp
qed

text \<open>
  C40. A timeout forgets the answers that did arrive: when the acknowledgement deadline of a batch passes,
  the batch is dropped and the owned set is left exactly as it was, whatever the tracker has recorded, so
  an operation that was acknowledged as applied is not committed; for events a resync is requested.
\<close>

theorem ack_timeout_forgets_answers:
  assumes "inflight s = Some b"
  shows "inflight (handle_ack_timeout s) = None \<and> owned_ips (handle_ack_timeout s) = owned_ips s \<and>
    (if_owner b = OwnerPending \<longrightarrow> resync_requested (handle_ack_timeout s))"
proof -
  let ?f = "\<lambda>(idx, op) s. if seen_at (if_tracker b) idx then s
        else log (ack_failed_timeout (if_batch_id b) (seq_with_offset (if_first_seq b) idx) op) s"
  define s1 where "s1 = log (LogLine LWarn ''rule.ack_timeout''
                    [(''batch_id'', VU64 (if_batch_id b)), (''count_input'', VUsize (if_input_count b)),
                     (''count_pending'', VUsize (tr_pending (if_tracker b)))]) (s\<lparr>inflight := None\<rparr>)"
  obtain lg where lg: "fold ?f (indexed (if_ops b)) s1 = s1\<lparr>logged := lg\<rparr>"
    using fold_log [of "\<lambda>x. seen_at (if_tracker b) (fst x)"
        "\<lambda>x. ack_failed_timeout (if_batch_id b) (seq_with_offset (if_first_seq b) (fst x)) (snd x)" "indexed (if_ops b)" s1]
    by (auto simp: case_prod_unfold)
  show ?thesis
    unfolding handle_ack_timeout_def assms option.case Let_def s1_def [symmetric] lg
    by (cases "if_owner b")
      (simp_all add: s1_def queue_compensate_resync_def log_def now_eq Let_def recycle_ops_def pool_push_def)
qed

theorem ack_timeout_forgets_answers_witness:
  "owned_ips (handle_ack_timeout (sample_sys\<lparr>inflight := Some \<lparr>if_batch_id = 1, if_started_at = 0, if_ack_deadline = 5,
      if_input_count = 1, if_noop_prefilter = 0, if_first_seq = 1,
      if_tracker = mark_status 0 None (tracker_prepare 1 AckTracker_default), if_owner = OwnerPending,
      if_ops = [\<lparr>op_addr = into_ip (V4 1), op_action = Add\<rparr>]\<rparr>\<rparr>)) = {}"
  using ack_timeout_forgets_answers [of "sample_sys\<lparr>inflight := Some \<lparr>if_batch_id = 1, if_started_at = 0, if_ack_deadline = 5,
      if_input_count = 1, if_noop_prefilter = 0, if_first_seq = 1,
      if_tracker = mark_status 0 None (tracker_prepare 1 AckTracker_default), if_owner = OwnerPending,
      if_ops = [\<lparr>op_addr = into_ip (V4 1), op_action = Add\<rparr>]\<rparr>\<rparr>"] by simp

text \<open>
  The shutdown cleanup does not end maintenance: after it is done, an idle daemon still starts a
  pending startup cleanup or a requested resync, which can install rules again; the loop does not exit
  before, and nothing removes these rules afterwards because the cleanup counts as done.
\<close>

theorem shutdown_still_starts_maintenance:
  assumes "maintenance s = Idle" "shutdown_requested s" "shutdown_cleanup_done s"
    "startup_cleanup_pending s \<and> startup_cleanup_retry_deadline s = None \<or> \<not> startup_cleanup_pending s \<and> resync_requested s"
  shows "\<exists>s'. slice_step budget s = (CContinue, budget, s') \<and> shutdown_cleanup_done s' \<and> \<not> loop_exit s' \<and>
    (if startup_cleanup_pending s
     then maintenance s' = StartupCleanupDumpCollect 0 None (batch_id s) CleanupSummary_default
     else maintenance s' = ResyncBuild (batch_id s))"
  using assms by (auto simp: slice_step_def idle_branch_def now_eq loop_exit_def Let_def)

theorem shutdown_still_starts_maintenance_witness:
  "\<exists>s'. slice_step 256 (sample_sys\<lparr>shutdown_requested := True, shutdown_cleanup_done := True\<rparr>) = (CContinue, 256, s') \<and>
     maintenance s' = StartupCleanupDumpCollect 0 None (batch_id sample_sys) CleanupSummary_default"
  using shutdown_still_starts_maintenance [of "sample_sys\<lparr>shutdown_requested := True, shutdown_cleanup_done := True\<rparr>" 256]
  by auto

end
