(* ===== verification/Convergence.thy ===== *)
theory Convergence
  imports Invariants
begin

text \<open>
  What a whole maintenance job achieves: \<^verbatim>\<open>drive_maintenance_slice\<close> sends a chunk of its plan, the
  kernel processes it and answers, \<^verbatim>\<open>drain_rule_acks_once\<close> commits the answers and the next slice sends
  the next chunk, until the plan is used up.

  \<open>job_round\<close> is one such turn of the daemon and the kernel together. The locale \<open>chunked_job\<close> is what
  the three jobs with a plan (resync, shutdown cleanup, startup cleanup) have in common; its lemmas
  say that every sequence of rounds is finite, can be continued until the plan is done, and leaves
  the kernel's table and the owned set as the functions \<open>table_after\<close> and \<open>owned_after\<close> prescribe.
\<close>

subsection \<open>The effect of a plan\<close>

text \<open>
  The addresses whose request the kernel has refused, and the kernel's rules and the daemon's set
  after it has processed operations with distinct addresses and refused those for \<open>F\<close>.
\<close>

definition refused_keys :: "RuleOp list \<Rightarrow> int list \<Rightarrow> IpKey set" where
  "refused_keys ops es = (\<lambda>(op, e). op_key op) ` {(op, e) \<in> set (zip ops es). e \<notin> {0, EEXIST, ENOENT}}"

definition added_keys :: "RuleOp list \<Rightarrow> IpKey set" where
  "added_keys ops = op_key ` {op \<in> set ops. is_add op}"

definition deleted_keys :: "RuleOp list \<Rightarrow> IpKey set" where
  "deleted_keys ops = op_key ` {op \<in> set ops. \<not> is_add op}"

definition table_after :: "RuleOp list \<Rightarrow> IpKey set \<Rightarrow> IpKey set \<Rightarrow> IpKey set" where
  "table_after ops F K = (K \<union> (added_keys ops - F)) - (deleted_keys ops - F)"

definition owned_after :: "RuleOp list \<Rightarrow> IpKey set \<Rightarrow> IpKey set \<Rightarrow> IpKey set \<Rightarrow> IpKey set" where
  "owned_after ops F K owned = (owned \<union> (added_keys ops - F - K)) - ((deleted_keys ops \<inter> K) - F)"

lemma refused_keys_simps [simp]:
  "refused_keys [] es = {}" "refused_keys ops [] = {}"
  "refused_keys (op # ops) (e # es) =
     (if e \<in> {0, EEXIST, ENOENT} then {} else {op_key op}) \<union> refused_keys ops es"
  by (auto simp: refused_keys_def)

lemma plan_keys_simps [simp]:
  "added_keys [] = {}" "deleted_keys [] = {}"
  "added_keys (op # ops) = (if is_add op then {op_key op} else {}) \<union> added_keys ops"
  "deleted_keys (op # ops) = (if is_add op then {} else {op_key op}) \<union> deleted_keys ops"
  "added_keys (xs @ ys) = added_keys xs \<union> added_keys ys"
  "deleted_keys (xs @ ys) = deleted_keys xs \<union> deleted_keys ys"
  by (auto simp: added_keys_def deleted_keys_def)

lemma plan_keys_subset:
  "added_keys ops \<subseteq> op_key ` set ops" "deleted_keys ops \<subseteq> op_key ` set ops"
  "refused_keys ops es \<subseteq> op_key ` set ops"
  by (auto simp: added_keys_def deleted_keys_def refused_keys_def dest: set_zip_leftD)

lemma plan_effect_Nil [simp]: "table_after [] F K = K" "owned_after [] F K owned = owned"
  by (simp_all add: table_after_def owned_after_def)

lemma plan_effect_Cons:
  assumes "kernel_step K op e K1" "op_key op \<notin> op_key ` set ops"
  defines "F1 \<equiv> if e \<in> {0, EEXIST, ENOENT} then {} else {op_key op}"
  assumes "F \<subseteq> op_key ` set ops"
  shows "table_after (op # ops) (F1 \<union> F) K = table_after ops F K1"
    and "owned_after (op # ops) (F1 \<union> F) K owned = owned_after ops F K1 (own_step op e owned)"
proof -
  have k: "op_key op \<notin> added_keys ops" "op_key op \<notin> deleted_keys ops" "op_key op \<notin> F"
    using assms(2,4) plan_keys_subset [of ops] by blast+
  from assms(1) k show "table_after (op # ops) (F1 \<union> F) K = table_after ops F K1"
    by (cases rule: kernel_step.cases) (auto simp: F1_def table_after_def)
  from assms(1) k show "owned_after (op # ops) (F1 \<union> F) K owned = owned_after ops F K1 (own_step op e owned)"
    by (cases rule: kernel_step.cases) (auto simp: F1_def owned_after_def own_step_def)
qed

lemma kernel_batch_exact:
  assumes "kernel_batch K ops es K'" "distinct (map op_key ops)"
  shows "K' = table_after ops (refused_keys ops es) K"
    and "own_batch (zip ops es) owned = owned_after ops (refused_keys ops es) K owned"
proof -
  have "K' = table_after ops (refused_keys ops es) K \<and>
      own_batch (zip ops es) owned = owned_after ops (refused_keys ops es) K owned"
    using assms
  proof (induction ops arbitrary: K es owned)
    case (Cons op ops)
    then obtain e es' K1 where k: "es = e # es'" "kernel_step K op e K1" "kernel_batch K1 ops es' K'" by auto
    have "op_key op \<notin> op_key ` set ops" using Cons.prems(2) by simp
    note step = plan_effect_Cons [OF k(2) this plan_keys_subset(3) [of ops es']]
    have "distinct (map op_key ops)" using Cons.prems(2) by simp
    from Cons.IH [OF k(3) this, of "own_step op e owned"] show ?case
      unfolding k(1) zip_Cons_Cons own_batch_simps refused_keys_simps step by blast
  qed simp
  then show "K' = table_after ops (refused_keys ops es) K"
    "own_batch (zip ops es) owned = owned_after ops (refused_keys ops es) K owned" by blast+
qed

lemma plan_effect_append:
  assumes "distinct (map op_key (xs @ ys))" "F \<subseteq> op_key ` set xs" "G \<subseteq> op_key ` set ys"
  shows "table_after (xs @ ys) (F \<union> G) K = table_after ys G (table_after xs F K)"
    and "owned_after (xs @ ys) (F \<union> G) K owned =
      owned_after ys G (table_after xs F K) (owned_after xs F K owned)"
proof -
  have sub: "k \<notin> op_key ` set zs \<Longrightarrow> k \<notin> added_keys zs \<and> k \<notin> deleted_keys zs" for k zs
    using plan_keys_subset(1,2) [of zs] by (meson in_mono)
  have "(k \<in> table_after (xs @ ys) (F \<union> G) K \<longleftrightarrow> k \<in> table_after ys G (table_after xs F K)) \<and>
    (k \<in> owned_after (xs @ ys) (F \<union> G) K owned \<longleftrightarrow>
      k \<in> owned_after ys G (table_after xs F K) (owned_after xs F K owned))" for k
  proof (cases "k \<in> op_key ` set xs")
    case True
    then have "k \<notin> op_key ` set ys" using assms(1) by auto
    then have "k \<notin> added_keys ys" "k \<notin> deleted_keys ys" "k \<notin> G" using sub assms(3) by (simp, simp, meson in_mono)
    then show ?thesis by (simp add: table_after_def owned_after_def)
  next
    case False
    then have "k \<notin> added_keys xs" "k \<notin> deleted_keys xs" "k \<notin> F" using sub assms(2) by (simp, simp, meson in_mono)
    then show ?thesis by (simp add: table_after_def owned_after_def)
  qed
  then show "table_after (xs @ ys) (F \<union> G) K = table_after ys G (table_after xs F K)"
    "owned_after (xs @ ys) (F \<union> G) K owned =
      owned_after ys G (table_after xs F K) (owned_after xs F K owned)" by (metis subsetI subset_antisym)+
qed

subsection \<open>The daemon and the kernel together\<close>

text \<open>Every send the kernel is asked for is accepted, possibly in several parts.\<close>

definition accepts_all :: "world \<Rightarrow> bool" where
  "accepts_all w \<longleftrightarrow> list_all (\<lambda>r. case r of Inl _ \<Rightarrow> False | Inr n \<Rightarrow> 0 < n) (tx_script (socks w RuleSock))"

definition deliver_acks :: "bytes list list \<Rightarrow> sys \<Rightarrow> sys" where
  "deliver_acks bs s = s\<lparr>wd := upd_sock RuleSock (\<lambda>k. k\<lparr>rx_script := map RecvOk bs\<rparr>) (wd s)\<rparr>"

text \<open>
  A round on the daemon's state, the kernel's rules and the addresses refused so far: one turn of the
  maintenance loop sends a batch, the kernel processes it, and its answers are drained.
\<close>

definition kernel_replies :: "IpKey set \<Rightarrow> InflightBatch \<Rightarrow> int list \<Rightarrow> IpKey set \<Rightarrow> bytes list list \<Rightarrow> bool" where
  "kernel_replies K b es K' bs \<longleftrightarrow>
     kernel_batch K (if_ops b) es K' \<and> list_all recv_batch bs \<and>
     answers (if_first_seq b) es (concat (map batch_views bs))"

inductive job_round :: "sys \<times> IpKey set \<times> IpKey set \<Rightarrow> sys \<times> IpKey set \<times> IpKey set \<Rightarrow> bool" where
  "0 < budget \<Longrightarrow> slice_step budget s = (CBreak, budget', s1) \<Longrightarrow> inflight s1 = Some b \<Longrightarrow>
   kernel_replies K b es K' bs \<Longrightarrow> drain_rule_acks_once (deliver_acks bs s1) = (Inr (), s2) \<Longrightarrow>
   job_round (s, K, F) (s2, K', F \<union> refused_keys (if_ops b) es)"

inductive_cases job_roundE: "job_round (s, K, F) t"

text \<open>
  The next round cannot fail: with any budget a slice can have, a batch is sent that the kernel can
  answer, and whatever it replies is drained without an error.
\<close>

definition keeps_going :: "sys \<times> IpKey set \<times> IpKey set \<Rightarrow> bool" where
  "keeps_going t \<longleftrightarrow> (case t of (s, K, F) \<Rightarrow>
     \<forall>budget. 0 < budget \<and> budget \<le> MAINTENANCE_OP_BUDGET \<longrightarrow>
       (\<exists>budget' s1 b. slice_step budget s = (CBreak, budget', s1) \<and> inflight s1 = Some b \<and>
          (\<exists>es K' bs. kernel_replies K b es K' bs) \<and>
          (\<forall>es K' bs. kernel_replies K b es K' bs \<longrightarrow> fst (drain_rule_acks_once (deliver_acks bs s1)) = Inr ())))"

lemma kernel_batch_ex:
  "\<exists>es K'. kernel_batch K ops es K' \<and> list_all (\<lambda>e. 0 \<le> e \<and> e < 2 ^ 31) es"
proof (induction ops arbitrary: K)
  case (Cons op ops)
  have "\<exists>e K1. kernel_step K op e K1 \<and> 0 \<le> e \<and> e < 2 ^ 31"
    using add_new [of op K] add_exists [of op K] del_present [of op K] del_absent [of op K]
    by (cases "is_add op"; cases "op_key op \<in> K") force+
  then obtain e K1 where e: "kernel_step K op e K1" "0 \<le> e \<and> e < 2 ^ 31" by blast
  obtain es K' where "kernel_batch K1 ops es K'" "list_all (\<lambda>e. 0 \<le> e \<and> e < 2 ^ 31) es" using Cons by blast
  with e show ?case by (intro exI [of _ "e # es"] exI [of _ K']) auto
qed simp

text \<open>One acknowledgement per operation, each received by itself.\<close>

lemma acks_answer:
  fixes f :: u32
  assumes "length es \<le> U32_MAX" "list_all (\<lambda>e. 0 \<le> e \<and> e < 2 ^ 31) es"
  defines "bs \<equiv> map (\<lambda>i. [kernel_ack (seq_with_offset f i) (es ! i)]) [0..<length es]"
  shows "list_all recv_batch bs" "answers f es (concat (map batch_views bs))"
proof -
  have one: "recv_batch [kernel_ack q e]" "batch_views [kernel_ack q e] = [frame_view (kernel_ack q e)]" for q e
    using kernel_acks_batch [of "[(q, e)]"] by simp_all
  then show "list_all recv_batch bs" by (simp add: bs_def list_all_iff)
  have v: "concat (map batch_views bs) = map (\<lambda>i. frame_view (kernel_ack (seq_with_offset f i) (es ! i))) [0..<length es]"
    by (simp add: bs_def one comp_def concat_map_singleton)
  have "ack_for f (length es) (frame_view (kernel_ack (seq_with_offset f i) (es ! i))) j \<longleftrightarrow> j = i"
    if "i < length es" "j < length es" for i j
    using that assms(1) seq_with_offset_inj [of i j f] by (auto simp: kernel_ack_for)
  moreover have "ack_code (frame_view (kernel_ack (seq_with_offset f i) (es ! i))) = Some (es ! i)"
    if "i < length es" for i
    using that assms(2) by (simp add: kernel_ack_code list_all_length)
  ultimately show "answers f es (concat (map batch_views bs))"
    unfolding answers_def v by auto
qed

lemma kernel_can_reply:
  assumes "length (if_ops b) \<le> U32_MAX"
  shows "\<exists>es K' bs. kernel_replies K b es K' bs"
proof -
  obtain es K' where e: "kernel_batch K (if_ops b) es K'" "list_all (\<lambda>e. 0 \<le> e \<and> e < 2 ^ 31) es"
    using kernel_batch_ex by blast
  have "length es \<le> U32_MAX" using kernel_batch_length [OF e(1)] assms by simp
  from acks_answer [OF this e(2), of "if_first_seq b"] e(1) show ?thesis
    unfolding kernel_replies_def by blast
qed

lemma deliver_acks_frame [simp]:
  "inflight (deliver_acks bs s) = inflight s" "owned_ips (deliver_acks bs s) = owned_ips s"
  "rx_script (socks (wd (deliver_acks bs s)) RuleSock) = map RecvOk bs"
  "accepts_all (wd (deliver_acks bs s)) = accepts_all (wd s)"
  by (simp_all add: deliver_acks_def upd_sock_def accepts_all_def)

lemma accepts_all_time [simp]:
  "accepts_all (snd (instant_now w)) = accepts_all w" "accepts_all (w\<lparr>seq_cell := q\<rparr>) = accepts_all w"
  by (simp_all add: accepts_all_def)

lemma send_loop_accepted:
  "accepts_all w \<Longrightarrow> \<exists>w'. send_loop RuleSock msgs w = (Inr (), w') \<and> accepts_all w'"
proof (induction "length msgs" arbitrary: msgs w rule: less_induct)
  case less
  show ?case
  proof (cases "msgs = [] \<or> tx_script (socks w RuleSock) = []")
    case True
    with less.prems show ?thesis
      by (subst send_loop.simps) (auto simp: accepts_all_def upd_sock_def)
  next
    case False
    then obtain x rest where x: "tx_script (socks w RuleSock) = x # rest" by (auto simp: neq_Nil_conv)
    with less.prems obtain n where "x = Inr n" "0 < n" by (cases x) (simp_all add: accepts_all_def)
    with x have t: "tx_script (socks w RuleSock) = Inr n # rest" "0 < n" by simp_all
    let ?w = "upd_sock RuleSock (\<lambda>s. s\<lparr>tx_script := rest, tx_log := tx_log s @ take (min n (length msgs)) msgs\<rparr>) w"
    have "accepts_all ?w" using less.prems t by (simp add: accepts_all_def upd_sock_def)
    from less.hyps [OF _ this, of "drop (min n (length msgs)) msgs"] False t show ?thesis
      by (subst send_loop.simps) (simp add: Let_def)
  qed
qed

text \<open>The batch a slice has sent and the state after its answers are committed.\<close>

definition sent_batch :: "RuleOp list \<Rightarrow> sys \<Rightarrow> InflightBatch \<Rightarrow> sys \<Rightarrow> bool" where
  "sent_batch ops s b s1 \<longleftrightarrow>
     inflight s1 = Some b \<and> if_ops b = ops \<and>
     (\<exists>t. if_tracker b = tracker_prepare (length ops) t) \<and> owned_ips s1 = owned_ips s \<and>
     accepts_all (wd s1)"

definition committed :: "InflightBatch \<Rightarrow> sys \<Rightarrow> sys \<Rightarrow> bool" where
  "committed b s1 s2 \<longleftrightarrow>
     inflight s2 = None \<and> accepts_all (wd s2) \<and> maintenance s2 = maintenance s1 \<and>
     target_keys s2 = target_keys s1 \<and> current_keys s2 = current_keys s1 \<and>
     tracked_keys s2 = tracked_keys s1 \<and> startup_cleanup_keys s2 = startup_cleanup_keys s1 \<and> opts s2 = opts s1 \<and>
     (if_owner b = OwnerMaintenance \<longrightarrow>
        (\<exists>r. completed_batch s2 = Some \<lparr>cb_batch_id = if_batch_id b, cb_result = r, cb_owner = OwnerMaintenance\<rparr>))"

lemma start_batch_accepted:
  assumes "ops \<noteq> []" "accepts_all (wd s)"
  shows "\<exists>sc w tr b. start_batch owner bid ic np ops s =
      (Inr True, s\<lparr>ack_tracker_reuse := tr, apply_scratch := sc, wd := w, inflight := Some b\<rparr>) \<and>
    if_batch_id b = bid \<and> if_owner b = owner \<and>
    sent_batch ops s b (s\<lparr>ack_tracker_reuse := tr, apply_scratch := sc, wd := w, inflight := Some b\<rparr>)"
proof -
  let ?f = "normalize_seq (seq_cell (wd s))"
  obtain w where w: "send_loop RuleSock (batch_messages (rule_ctx s) ?f ops)
      ((wd s)\<lparr>seq_cell := seq_advance ?f (length ops)\<rparr>) = (Inr (), w)" "accepts_all w"
    using send_loop_accepted [of "(wd s)\<lparr>seq_cell := seq_advance ?f (length ops)\<rparr>"] assms(2) by auto
  obtain sc where "start_apply_rules_batch RuleSock (rule_ctx s) ops (apply_scratch s) (ack_tracker_reuse s) (wd s) =
      (Inr ?f, sc, tracker_prepare (length ops) (ack_tracker_reuse s), w)"
    using start_apply_rules_batch_eq [OF assms(1), of RuleSock "rule_ctx s" "apply_scratch s" "ack_tracker_reuse s" "wd s"]
      w(1) by auto
  with w(2) show ?thesis
    by (intro exI [of _ sc] exI [of _ "snd (instant_now w)"] exI [of _ AckTracker_default]
        exI [of _ "\<lparr>if_batch_id = bid, if_started_at = fst (instant_now w),
          if_ack_deadline = fst (instant_now w) + ACK_WAIT_TIMEOUT, if_input_count = ic,
          if_noop_prefilter = np, if_first_seq = ?f, if_tracker = tracker_prepare (length ops) (ack_tracker_reuse s),
          if_owner = owner, if_ops = ops\<rparr>"])
      (auto simp: start_batch_def now_eq sent_batch_def)
qed

lemma commit_socks:
  assumes "commit_ack_outcomes ctx ops t s = (r, s')"
  shows "socks (wd s') = socks (wd s)"
proof -
  have "wd (snd (commit_step bid f t iop (c, s))) = wd s" for bid f iop c s
    using commit_step_eq [of bid f t iop c s] by auto
  then have "wd (snd (fold (commit_step bid f t) iops cs)) = wd (snd cs)" for bid f iops cs
    by (induction iops arbitrary: cs) (simp_all, metis prod.collapse)
  note f = this [of "cc_batch_id ctx" "cc_first_seq ctx"]
  show ?thesis
    using assms f [of "indexed ops" "(\<lparr>cn_add = 0, cn_del = 0, cn_noop = cc_noop_prefilter ctx, cn_failed = 0\<rparr>, s)"]
    by (auto simp: commit_ack_outcomes_def now_eq Let_def split: prod.splits)
qed

lemma finish_committed:
  assumes "inflight s = Some b" "finish_inflight_batch s = (r, s')" "accepts_all (wd s)"
  shows "committed b s s'"
proof -
  let ?ctx = "\<lparr>cc_batch_id = if_batch_id b, cc_first_seq = if_first_seq b, cc_started_at = if_started_at b,
     cc_input_count = if_input_count b, cc_noop_prefilter = if_noop_prefilter b\<rparr>"
  obtain res lg w ow where c: "commit_ack_outcomes ?ctx (if_ops b) (if_tracker b) (s\<lparr>inflight := None\<rparr>) =
      (Inr res, s\<lparr>inflight := None, owned_ips := ow, logged := lg, wd := w\<rparr>)"
    using commit_ack_outcomes_spec [of ?ctx "if_ops b" "if_tracker b" "s\<lparr>inflight := None\<rparr>"] by auto
  have "accepts_all w" using commit_socks [OF c] assms(3) by (simp add: accepts_all_def)
  with assms(1,2) c show ?thesis
    by (auto simp: finish_inflight_batch_def log_batch_result_def log_def recycle_ops_def pool_push_def
        committed_def Let_def)
qed

lemma drain_committed:
  assumes "sent_batch ops s b s1" "kernel_replies K b es K' bs" "drain_rule_acks_once (deliver_acks bs s1) = (r, s2)"
  shows "r = Inr ()" "owned_ips s2 = own_batch (zip ops es) (owned_ips s)" "committed b s1 s2"
proof -
  obtain t0 where b: "inflight s1 = Some b" "if_ops b = ops"
      "if_tracker b = tracker_prepare (length (if_ops b)) t0" "owned_ips s1 = owned_ips s" "accepts_all (wd s1)"
    using assms(1) by (auto simp: sent_batch_def)
  have k: "kernel_batch K (if_ops b) es K'" "list_all recv_batch bs"
    "answers (if_first_seq b) es (concat (map batch_views bs))"
    using assms(2) by (simp_all add: kernel_replies_def)
  note len = kernel_batch_length [OF k(1)]
  have i: "inflight (deliver_acks bs s1) = Some b" using b(1) by simp
  note d = drain_owned [OF i b(3) deliver_acks_frame(3) k(2,3) len assms(3)]
  show "r = Inr ()" "owned_ips s2 = own_batch (zip ops es) (owned_ips s)" using d b by simp_all
  let ?t = "fold (track_msg (if_first_seq b) (length (if_ops b))) (concat (map batch_views bs)) (if_tracker b)"
  have aa: "list_all (readable_msg (if_first_seq b) (length (if_ops b))) (concat (map batch_views bs))"
    "tr_pending ?t = 0" using answers_answered(2,3) [OF k(3) len [symmetric]] b(3) by simp_all
  have "list_all (list_all (readable_msg (if_first_seq b) (length (if_ops b))) \<circ> batch_views) bs"
    using aa(1) by (auto simp: list_all_iff)
  from drain_acked [OF _ k(2) this, of "wd (deliver_acks bs s1)" RuleSock "if_tracker b"]
  have fin: "finish_inflight_batch ((deliver_acks bs s1)\<lparr>wd := upd_sock RuleSock (\<lambda>s. s\<lparr>rx_script := []\<rparr>) (wd (deliver_acks bs s1)),
      inflight := Some (b\<lparr>if_tracker := ?t\<rparr>)\<rparr>) = (r, s2)"
    using assms(3) b(1) aa(2) by (simp add: drain_rule_acks_once_def)
  have "accepts_all (upd_sock RuleSock (\<lambda>s. s\<lparr>rx_script := []\<rparr>) (wd (deliver_acks bs s1)))"
    using b(5) by (simp add: accepts_all_def deliver_acks_def upd_sock_def)
  with finish_committed [OF _ fin] show "committed b s1 s2"
    by (simp add: committed_def deliver_acks_def)
qed

subsection \<open>Jobs with a plan\<close>

text \<open>
  \<open>job_at rest s\<close>: the job is not waiting for anything and has the operations \<open>rest\<close> left. A slice sends
  the next of them and, once they are answered, the job is at the others; with none left it goes on.
\<close>

locale chunked_job =
  fixes job_at :: "RuleOp list \<Rightarrow> sys \<Rightarrow> bool"
  assumes chunk_sent: "\<lbrakk>job_at rest s; rest \<noteq> []; inflight s = None; accepts_all (wd s); 0 < budget\<rbrakk> \<Longrightarrow>
      \<exists>m budget' s1 b. 0 < m \<and> m \<le> budget \<and> slice_step budget s = (CBreak, budget', s1) \<and>
        sent_batch (take m rest) s b s1 \<and> (\<forall>s2. committed b s1 s2 \<longrightarrow> job_at (drop m rest) s2)"
    and plan_done: "\<lbrakk>job_at [] s; 0 < budget\<rbrakk> \<Longrightarrow> \<exists>budget' s'. slice_step budget s = (CContinue, budget', s')"
begin

definition at_rest :: "RuleOp list \<Rightarrow> sys \<Rightarrow> bool" where
  "at_rest rest s \<longleftrightarrow> job_at rest s \<and> inflight s = None \<and> accepts_all (wd s)"

lemma round_effect:
  assumes "at_rest rest s" "distinct (map op_key rest)" "job_round (s, K, F) (s', K', F')"
  shows "\<exists>m G. 0 < m \<and> rest \<noteq> [] \<and> at_rest (drop m rest) s' \<and> F' = F \<union> G \<and> G \<subseteq> op_key ` set (take m rest) \<and>
    K' = table_after (take m rest) G K \<and> owned_ips s' = owned_after (take m rest) G K (owned_ips s)"
  using assms(3)
proof (cases rule: job_round.cases)
  case (1 budget budget' s1 b es bs)
  have ne: "rest \<noteq> []" using plan_done [of s budget] assms(1) 1 by (auto simp: at_rest_def)
  then obtain m b' where m: "0 < m" "sent_batch (take m rest) s b' s1"
      "\<forall>s2. committed b' s1 s2 \<longrightarrow> job_at (drop m rest) s2"
    using chunk_sent [of rest s budget] assms(1) 1 by (auto simp: at_rest_def)
  then have b: "b' = b" "if_ops b = take m rest" using 1 by (auto simp: sent_batch_def)
  note d = drain_committed [OF m(2) [unfolded b(1)] 1(5,6)]
  have "kernel_batch K (take m rest) es K'" using 1 b by (simp add: kernel_replies_def)
  moreover have "distinct (map op_key (take m rest))" using assms(2) by (simp flip: take_map)
  ultimately have "K' = table_after (take m rest) (refused_keys (take m rest) es) K"
    "owned_ips s' = owned_after (take m rest) (refused_keys (take m rest) es) K (owned_ips s)"
    unfolding d(2) by (rule kernel_batch_exact)+
  moreover have "at_rest (drop m rest) s'"
    using m(3) d(3) b(1) by (simp add: at_rest_def committed_def)
  ultimately show ?thesis
    using m(1) ne 1(1) plan_keys_subset(3) [of "take m rest" es] b(2)
    by (intro exI [of _ m] exI [of _ "refused_keys (take m rest) es"]) (simp only: simp_thms)
qed

lemma rounds_effect:
  assumes "at_rest plan s" "distinct (map op_key plan)" "(job_round ^^ n) (s, K, {}) (s', K', F)"
  shows "\<exists>xs ys. plan = xs @ ys \<and> n \<le> length xs \<and> at_rest ys s' \<and> F \<subseteq> op_key ` set xs \<and>
    K' = table_after xs F K \<and> owned_ips s' = owned_after xs F K (owned_ips s)"
  using assms(3)
proof (induction n arbitrary: s' K' F)
  case 0
  then show ?case using assms(1) by (intro exI [of _ "[]"] exI [of _ plan]) simp
next
  case (Suc n)
  then obtain s1 K1 F1 where r: "(job_round ^^ n) (s, K, {}) (s1, K1, F1)" "job_round (s1, K1, F1) (s', K', F)"
    by auto
  from Suc.IH [OF r(1)] obtain xs ys where x: "plan = xs @ ys" "n \<le> length xs" "at_rest ys s1"
      "F1 \<subseteq> op_key ` set xs" "K1 = table_after xs F1 K" "owned_ips s1 = owned_after xs F1 K (owned_ips s)" by blast
  have dy: "distinct (map op_key ys)" using assms(2) x(1) by simp
  from round_effect [OF x(3) dy r(2)] obtain m G where m: "0 < m" "ys \<noteq> []" "at_rest (drop m ys) s'" "F = F1 \<union> G"
      "G \<subseteq> op_key ` set (take m ys)" "K' = table_after (take m ys) G K1"
      "owned_ips s' = owned_after (take m ys) G K1 (owned_ips s1)" by blast
  have "plan = (xs @ take m ys) @ drop m ys" using x(1) by simp
  then have d: "distinct (map op_key (xs @ take m ys))" using assms(2) by (metis distinct_append map_append)
  have "Suc n \<le> length (xs @ take m ys)" using x(2) m(1,2) by (cases ys; cases m) auto
  moreover have "F \<subseteq> op_key ` set (xs @ take m ys)" using x(4) m(4,5) by auto
  moreover have "K' = table_after (xs @ take m ys) F K"
    "owned_ips s' = owned_after (xs @ take m ys) F K (owned_ips s)"
    unfolding m(4,6,7) x(5,6) by (simp_all only: plan_effect_append [OF d x(4) m(5)])
  ultimately show ?case
    using \<open>plan = (xs @ take m ys) @ drop m ys\<close> m(3)
    by (intro exI [of _ "xs @ take m ys"] exI [of _ "drop m ys"]) blast
qed

lemma never_stuck:
  assumes "at_rest rest s" "rest \<noteq> []"
  shows "keeps_going (s, K, F)"
proof -
  have "\<exists>budget' s1 b. slice_step budget s = (CBreak, budget', s1) \<and> inflight s1 = Some b \<and>
      (\<exists>es K' bs. kernel_replies K b es K' bs) \<and>
      (\<forall>es K' bs. kernel_replies K b es K' bs \<longrightarrow> fst (drain_rule_acks_once (deliver_acks bs s1)) = Inr ())"
    if pos: "0 < budget" and le: "budget \<le> MAINTENANCE_OP_BUDGET" for budget
  proof -
    obtain m budget' s1 b where s1: "m \<le> budget" "slice_step budget s = (CBreak, budget', s1)"
        "sent_batch (take m rest) s b s1"
      using chunk_sent [of rest s budget] assms pos by (auto simp: at_rest_def)
    then have "length (if_ops b) \<le> U32_MAX" using le by (simp add: sent_batch_def)
    from kernel_can_reply [OF this] s1(2,3) drain_committed(1) [OF s1(3)] show ?thesis
      by (auto simp: sent_batch_def) (metis prod.collapse)
  qed
  then show ?thesis unfolding keeps_going_def by blast
qed

end

subsection \<open>The three jobs\<close>

definition awaited :: "u64 option \<Rightarrow> sys \<Rightarrow> bool" where
  "awaited waiting s \<longleftrightarrow>
     (case waiting of
        None \<Rightarrow> True
      | Some wid \<Rightarrow> \<exists>c. completed_batch s = Some c \<and> cb_owner c = OwnerMaintenance \<and> cb_batch_id c = wid)"

definition resync_at :: "RuleOp list \<Rightarrow> sys \<Rightarrow> bool" where
  "resync_at rest s \<longleftrightarrow> (\<exists>ti ci bid m waiting. maintenance s = ResyncApply ti ci bid m waiting \<and>
     awaited waiting s \<and> rest = resync_remaining (target_keys s) (current_keys s) (ti, ci))"

definition shutdown_at :: "RuleOp list \<Rightarrow> sys \<Rightarrow> bool" where
  "shutdown_at rest s \<longleftrightarrow> (\<exists>off bid c waiting. maintenance s = CleanupTracked off bid c waiting \<and>
     awaited waiting s \<and> rest = tracked_remaining (tracked_keys s) off)"

text \<open>The startup cleanup also knows which family comes next, and whether there is one.\<close>

definition startup_at :: "usize \<Rightarrow> bool \<Rightarrow> RuleOp list \<Rightarrow> sys \<Rightarrow> bool" where
  "startup_at nf v6 rest s \<longleftrightarrow> (\<exists>off bid c waiting. maintenance s = StartupCleanupDumpApply off bid c waiting nf \<and>
     awaited waiting s \<and> rest = tracked_remaining (startup_cleanup_keys s) off \<and> opt_ipv6 (opts s) = v6)"

definition family_done :: "usize \<Rightarrow> bool \<Rightarrow> sys \<Rightarrow> bool" where
  "family_done nf v6 s \<longleftrightarrow>
     (if next_startup_cleanup_family nf v6 = None then maintenance s = Idle \<and> resync_requested s
      else \<exists>bid c. maintenance s = StartupCleanupDumpCollect nf None bid c)"

lemma await_batch_ready:
  "awaited waiting s \<Longrightarrow> \<exists>d fin. await_batch waiting (s\<lparr>maintenance := j\<rparr>) = (Inr d, s\<lparr>maintenance := j, completed_batch := fin\<rparr>)"
proof (cases waiting)
  case None
  then show ?thesis by (intro exI [of _ None] exI [of _ "completed_batch s"]) (simp add: await_batch_def)
next
  case (Some wid)
  moreover assume "awaited waiting s"
  ultimately show ?thesis by (auto simp: awaited_def await_batch_def)
qed

lemma awaited_committed:
  "committed b s1 s2 \<Longrightarrow> if_owner b = OwnerMaintenance \<Longrightarrow> awaited (Some (if_batch_id b)) s2"
  by (auto simp: committed_def awaited_def)

lemma chunk_size_bounds: "0 < chunk_size b s" "0 < b \<Longrightarrow> chunk_size (spend d b) s \<le> b"
  by (auto simp: chunk_size_def spend_def split: option.split)

text \<open>The state in which a job fills its chunk, and what happens when that chunk is not empty.\<close>

abbreviation (input) chunk_state :: "CompletedBatch option \<Rightarrow> sys \<Rightarrow> sys" where
  "chunk_state fin s \<equiv> s\<lparr>maintenance := Idle, completed_batch := fin, batch_pool := butlast (batch_pool s)\<rparr>"

lemma chunk_turn:
  assumes "inflight s = None" "accepts_all (wd s)" "rest \<noteq> []" "0 < m" "m \<le> budget"
    and step: "\<And>s3. start_maintenance_batch bid (take m rest) (chunk_state fin s) = (Inr True, s3) \<Longrightarrow>
      slice_step budget s = (CBreak, budget', s3\<lparr>maintenance := j\<rparr>)"
    and job: "\<And>s2. \<lbrakk>maintenance s2 = j; awaited (Some bid) s2; target_keys s2 = target_keys s;
      current_keys s2 = current_keys s; tracked_keys s2 = tracked_keys s;
      startup_cleanup_keys s2 = startup_cleanup_keys s; opts s2 = opts s\<rbrakk> \<Longrightarrow> job_at (drop m rest) s2"
  shows "\<exists>m budget' s1 b. 0 < m \<and> m \<le> budget \<and> slice_step budget s = (CBreak, budget', s1) \<and>
    sent_batch (take m rest) s b s1 \<and> (\<forall>s2. committed b s1 s2 \<longrightarrow> job_at (drop m rest) s2)"
proof -
  have ne: "take m rest \<noteq> []" "accepts_all (wd (chunk_state fin s))" using assms(2-4) by simp_all
  from start_batch_accepted [OF ne, of OwnerMaintenance bid "length (take m rest)" 0] obtain sc w tr b s3 where
    s3: "s3 = (chunk_state fin s)\<lparr>ack_tracker_reuse := tr, apply_scratch := sc, wd := w, inflight := Some b\<rparr>"
      "start_batch OwnerMaintenance bid (length (take m rest)) 0 (take m rest) (chunk_state fin s) = (Inr True, s3)"
      "if_batch_id b = bid" "if_owner b = OwnerMaintenance" "sent_batch (take m rest) (chunk_state fin s) b s3" by blast
  have st: "start_maintenance_batch bid (take m rest) (chunk_state fin s) = (Inr True, s3)"
    using s3(2) ne(1) assms(1) by (simp add: start_maintenance_batch_def)
  have "sent_batch (take m rest) s b (s3\<lparr>maintenance := j\<rparr>)" using s3(1,5) by (simp add: sent_batch_def)
  moreover have "job_at (drop m rest) s2" if c: "committed b (s3\<lparr>maintenance := j\<rparr>) s2" for s2
    using c awaited_committed [OF c s3(4)] s3(1,3) by (intro job) (simp_all add: committed_def)
  ultimately show ?thesis using assms(4,5) step [OF st] by blast
qed

lemma resync_finish:
  assumes "resync_at [] s" "0 < budget"
  shows "\<exists>budget' s'. slice_step budget s = (CContinue, budget', s') \<and> maintenance s' = Idle \<and>
    owned_ips s' = owned_ips s \<and> inflight s' = inflight s \<and> \<not> resync_compensate_pending s'"
proof -
  obtain ti ci bid mt waiting where j: "maintenance s = ResyncApply ti ci bid mt waiting" "awaited waiting s"
      "resync_remaining (target_keys s) (current_keys s) (ti, ci) = []" using assms(1) by (auto simp: resync_at_def)
  obtain d fin where aw: "await_batch waiting (s\<lparr>maintenance := Idle\<rparr>) = (Inr d, s\<lparr>maintenance := Idle, completed_batch := fin\<rparr>)"
    using await_batch_ready [OF j(2)] by blast
  let ?m = "chunk_size (spend d budget) (chunk_state fin s)"
  obtain ti' ci' out where f: "fill_resync_chunk (target_keys s) (current_keys s) ?m (ti, ci, []) = (ti', ci', out)"
    by (metis prod_cases3)
  have "out = []" using fill_resync_chunk_spec(1) [OF chunk_size_bounds(1) f] j(3) by (simp add: resync_remaining_def)
  with j(1) aw f show ?thesis
    by (simp add: slice_step_def resync_apply_branch_def pool_pop_def pool_push_def log_resync_summary_def log_def Let_def)
qed

lemma shutdown_finish:
  assumes "shutdown_at [] s" "0 < budget"
  shows "\<exists>budget' s'. slice_step budget s = (CContinue, budget', s') \<and> maintenance s' = Idle \<and>
    owned_ips s' = owned_ips s \<and> inflight s' = inflight s \<and> shutdown_cleanup_done s'"
proof -
  obtain off bid c waiting where j: "maintenance s = CleanupTracked off bid c waiting" "awaited waiting s"
      "tracked_remaining (tracked_keys s) off = []" using assms(1) by (auto simp: shutdown_at_def)
  obtain d fin where aw: "await_batch waiting (s\<lparr>maintenance := Idle\<rparr>) = (Inr d, s\<lparr>maintenance := Idle, completed_batch := fin\<rparr>)"
    using await_batch_ready [OF j(2)] by blast
  let ?m = "chunk_size (spend d budget) (chunk_state fin s)"
  obtain off' out where f: "fill_tracked_cleanup_chunk (tracked_keys s) ?m (off, []) = (off', out)" by fastforce
  have "out = []" using fill_tracked_spec(1) [OF chunk_size_bounds(1) f] j(3) by (simp add: tracked_remaining_def)
  with j(1) aw f show ?thesis
    by (simp add: slice_step_def cleanup_tracked_branch_def pool_pop_def pool_push_def log_def Let_def)
qed

lemma finish_startup_owned:
  "owned_ips (finish_startup_cleanup bid c s) = owned_ips s" "inflight (finish_startup_cleanup bid c s) = inflight s"
  "startup_cleanup_keys (finish_startup_cleanup bid c s) = startup_cleanup_keys s"
  "resync_requested (finish_startup_cleanup bid c s)"
  by (simp_all add: finish_startup_cleanup_def now_eq log_def Let_def split: option.split)

lemma startup_finish:
  assumes "startup_at nf v6 [] s" "0 < budget"
  shows "\<exists>budget' s'. slice_step budget s = (CContinue, budget', s') \<and>
    owned_ips s' = owned_ips s \<and> inflight s' = inflight s \<and> startup_cleanup_keys s' = [] \<and> family_done nf v6 s'"
proof -
  obtain off bid c waiting where j: "maintenance s = StartupCleanupDumpApply off bid c waiting nf" "awaited waiting s"
      "tracked_remaining (startup_cleanup_keys s) off = []" "opt_ipv6 (opts s) = v6" using assms(1) by (auto simp: startup_at_def)
  obtain d fin where aw: "await_batch waiting (s\<lparr>maintenance := Idle\<rparr>) = (Inr d, s\<lparr>maintenance := Idle, completed_batch := fin\<rparr>)"
    using await_batch_ready [OF j(2)] by blast
  let ?m = "chunk_size (spend d budget) (chunk_state fin s)"
  obtain off' out where f: "fill_tracked_cleanup_chunk (startup_cleanup_keys s) ?m (off, []) = (off', out)" by fastforce
  have "out = []" using fill_tracked_spec(1) [OF chunk_size_bounds(1) f] j(3) by (simp add: tracked_remaining_def)
  with j(1,4) aw f show ?thesis
    by (simp add: slice_step_def dump_apply_branch_def pool_pop_def pool_push_def finish_startup_owned
        finish_startup_cleanup_frame family_done_def Let_def)
qed

interpretation resync: chunked_job resync_at
proof
  fix rest s and budget :: usize
  assume a: "resync_at rest s" "rest \<noteq> []" "inflight s = None" "accepts_all (wd s)" "0 < budget"
  then obtain ti ci bid mt waiting where j: "maintenance s = ResyncApply ti ci bid mt waiting" "awaited waiting s"
      "rest = resync_remaining (target_keys s) (current_keys s) (ti, ci)" by (auto simp: resync_at_def)
  obtain d fin where aw: "await_batch waiting (s\<lparr>maintenance := Idle\<rparr>) = (Inr d, s\<lparr>maintenance := Idle, completed_batch := fin\<rparr>)"
    using await_batch_ready [OF j(2)] by blast
  define m where "m = chunk_size (spend d budget) (chunk_state fin s)"
  have m: "0 < m" "m \<le> budget" using a(5) by (simp_all add: m_def chunk_size_bounds)
  obtain ti' ci' out where f: "fill_resync_chunk (target_keys s) (current_keys s) m (ti, ci, []) = (ti', ci', out)"
    by (metis prod_cases3)
  have out: "out = take m rest" "out \<noteq> []"
    and rest': "resync_remaining (target_keys s) (current_keys s) (ti', ci') = drop m rest"
    using fill_resync_chunk_spec [OF m(1) f] a(2) m(1) j(3) by (simp_all add: resync_remaining_def)
  show "\<exists>m budget' s1 b. 0 < m \<and> m \<le> budget \<and> slice_step budget s = (CBreak, budget', s1) \<and>
        sent_batch (take m rest) s b s1 \<and> (\<forall>s2. committed b s1 s2 \<longrightarrow> resync_at (drop m rest) s2)"
  proof (rule chunk_turn [OF a(3,4,2) m])
    fix s3 assume "start_maintenance_batch (bid + 1) (take m rest) (chunk_state fin s) = (Inr True, s3)"
    then show "slice_step budget s = (CBreak, spend d budget, s3\<lparr>maintenance :=
        ResyncApply ti' ci' (bid + 1) (case d of None \<Rightarrow> mt | Some r \<Rightarrow> add_metrics r mt) (Some (bid + 1))\<rparr>)"
      using j(1) aw f out
      by (simp add: slice_step_def resync_apply_branch_def pool_pop_def m_def Let_def)
  qed (auto simp: resync_at_def rest')
next
  fix s and budget :: usize assume "resync_at [] s" "0 < budget"
  then show "\<exists>budget' s'. slice_step budget s = (CContinue, budget', s')"
    using resync_finish by blast
qed

interpretation shutdown: chunked_job shutdown_at
proof
  fix rest s and budget :: usize
  assume a: "shutdown_at rest s" "rest \<noteq> []" "inflight s = None" "accepts_all (wd s)" "0 < budget"
  then obtain off bid c waiting where j: "maintenance s = CleanupTracked off bid c waiting" "awaited waiting s"
      "rest = tracked_remaining (tracked_keys s) off" by (auto simp: shutdown_at_def)
  obtain d fin where aw: "await_batch waiting (s\<lparr>maintenance := Idle\<rparr>) = (Inr d, s\<lparr>maintenance := Idle, completed_batch := fin\<rparr>)"
    using await_batch_ready [OF j(2)] by blast
  define m where "m = chunk_size (spend d budget) (chunk_state fin s)"
  have m: "0 < m" "m \<le> budget" using a(5) by (simp_all add: m_def chunk_size_bounds)
  obtain off' out where f: "fill_tracked_cleanup_chunk (tracked_keys s) m (off, []) = (off', out)" by fastforce
  have out: "out = take m rest" "out \<noteq> []" and rest': "tracked_remaining (tracked_keys s) off' = drop m rest"
    using fill_tracked_spec [OF m(1) f] a(2) m(1) j(3) by (simp_all add: tracked_remaining_def)
  show "\<exists>m budget' s1 b. 0 < m \<and> m \<le> budget \<and> slice_step budget s = (CBreak, budget', s1) \<and>
        sent_batch (take m rest) s b s1 \<and> (\<forall>s2. committed b s1 s2 \<longrightarrow> shutdown_at (drop m rest) s2)"
  proof (rule chunk_turn [OF a(3,4,2) m])
    fix s3 assume "start_maintenance_batch (bid + 1) (take m rest) (chunk_state fin s) = (Inr True, s3)"
    then show "slice_step budget s = (CBreak, spend d budget, s3\<lparr>maintenance :=
        CleanupTracked off' (bid + 1) (case d of None \<Rightarrow> c | Some r \<Rightarrow> add_summary r c) (Some (bid + 1))\<rparr>)"
      using j(1) aw f out
      by (simp add: slice_step_def cleanup_tracked_branch_def pool_pop_def m_def Let_def)
  qed (auto simp: shutdown_at_def rest')
next
  fix s and budget :: usize assume "shutdown_at [] s" "0 < budget"
  then show "\<exists>budget' s'. slice_step budget s = (CContinue, budget', s')"
    using shutdown_finish by blast
qed

interpretation startup: chunked_job "startup_at nf v6"
  for nf v6
proof
  fix rest s and budget :: usize
  assume a: "startup_at nf v6 rest s" "rest \<noteq> []" "inflight s = None" "accepts_all (wd s)" "0 < budget"
  then obtain off bid c waiting where j: "maintenance s = StartupCleanupDumpApply off bid c waiting nf" "awaited waiting s"
      "rest = tracked_remaining (startup_cleanup_keys s) off" "opt_ipv6 (opts s) = v6" by (auto simp: startup_at_def)
  obtain d fin where aw: "await_batch waiting (s\<lparr>maintenance := Idle\<rparr>) = (Inr d, s\<lparr>maintenance := Idle, completed_batch := fin\<rparr>)"
    using await_batch_ready [OF j(2)] by blast
  define m where "m = chunk_size (spend d budget) (chunk_state fin s)"
  have m: "0 < m" "m \<le> budget" using a(5) by (simp_all add: m_def chunk_size_bounds)
  obtain off' out where f: "fill_tracked_cleanup_chunk (startup_cleanup_keys s) m (off, []) = (off', out)" by fastforce
  have out: "out = take m rest" "out \<noteq> []" and rest': "tracked_remaining (startup_cleanup_keys s) off' = drop m rest"
    using fill_tracked_spec [OF m(1) f] a(2) m(1) j(3) by (simp_all add: tracked_remaining_def)
  show "\<exists>m budget' s1 b. 0 < m \<and> m \<le> budget \<and> slice_step budget s = (CBreak, budget', s1) \<and>
        sent_batch (take m rest) s b s1 \<and> (\<forall>s2. committed b s1 s2 \<longrightarrow> startup_at nf v6 (drop m rest) s2)"
  proof (rule chunk_turn [OF a(3,4,2) m])
    fix s3 assume "start_maintenance_batch (bid + 1) (take m rest) (chunk_state fin s) = (Inr True, s3)"
    then show "slice_step budget s = (CBreak, spend d budget, s3\<lparr>maintenance :=
        StartupCleanupDumpApply off' (bid + 1) (case d of None \<Rightarrow> c | Some r \<Rightarrow> add_summary r c) (Some (bid + 1)) nf\<rparr>)"
      using j(1) aw f out
      by (simp add: slice_step_def dump_apply_branch_def pool_pop_def m_def Let_def)
  qed (auto simp: startup_at_def rest' j(4))
next
  fix s and budget :: usize assume "startup_at nf v6 [] s" "0 < budget"
  then show "\<exists>budget' s'. slice_step budget s = (CContinue, budget', s')"
    using startup_finish by blast
qed

text \<open>Bounded runs that can always be continued until \<open>Q\<close> holds reach it.\<close>

lemma rounds_end:
  assumes "\<And>n t. (job_round ^^ n) t0 t \<Longrightarrow> n \<le> N \<and> (keeps_going t \<or> Q t)"
  shows "\<exists>n t. (job_round ^^ n) t0 t \<and> Q t"
proof (rule ccontr)
  assume no: "\<not> ?thesis"
  have step: "\<exists>t'. job_round t t'" if kg: "keeps_going t" for t
  proof -
    obtain s K F where t: "t = (s, K, F)" by (metis prod_cases3)
    then obtain budget' s1 b es K' bs where "slice_step 1 s = (CBreak, budget', s1)" "inflight s1 = Some b"
        "kernel_replies K b es K' bs" "fst (drain_rule_acks_once (deliver_acks bs s1)) = Inr ()"
      using kg [unfolded t keeps_going_def prod.case, THEN spec, of 1] by auto
    moreover from this(4) obtain s2 where "drain_rule_acks_once (deliver_acks bs s1) = (Inr (), s2)"
      by (metis prod.collapse)
    ultimately show ?thesis unfolding t by (blast intro: job_round.intros [of 1])
  qed
  have "\<exists>t. (job_round ^^ n) t0 t" for n
  proof (induction n)
    case 0
    show ?case by (rule exI [of _ t0]) simp
  next
    case (Suc n)
    then obtain t where t: "(job_round ^^ n) t0 t" by blast
    with assms no have "keeps_going t" by blast
    with step t show ?case by (metis relpowp_Suc_I)
  qed
  with assms [of "Suc N"] show False by fastforce
qed

subsection \<open>What the jobs achieve\<close>

lemma plan_keys_deletions [simp]:
  "added_keys (map (\<lambda>k. del_op k) ks) = {}" "deleted_keys (map (\<lambda>k. del_op k) ks) = set ks"
  "map op_key (map (\<lambda>k. del_op k) ks) = ks"
  by (induction ks) (simp_all add: is_add_def)

lemma plan_keys_diff:
  assumes "sorted_wrt (<) ts" "sorted_wrt (<) cs"
  shows "added_keys (diff_ops ts cs) = set ts - set cs" "deleted_keys (diff_ops ts cs) = set cs - set ts"
proof -
  have "{op \<in> set (diff_ops ts cs). is_add op} = (\<lambda>k. add_op k) ` (set ts - set cs)"
    "{op \<in> set (diff_ops ts cs). \<not> is_add op} = (\<lambda>k. del_op k) ` (set cs - set ts)"
    unfolding diff_ops_set [OF assms] by (auto simp: is_add_def)
  then show "added_keys (diff_ops ts cs) = set ts - set cs" "deleted_keys (diff_ops ts cs) = set cs - set ts"
    by (simp_all add: added_keys_def deleted_keys_def image_image)
qed

lemma diff_ops_length: "length (diff_ops ts cs) \<le> length ts + length cs"
  by (induction ts cs rule: diff_ops.induct) auto

text \<open>The set algebra of a resync: \<open>C\<close> owned, \<open>T\<close> the target, \<open>K\<close> the kernel's rules, \<open>F\<close> refused.\<close>

lemma diff_effect:
  fixes C K T F :: "'a set"
  assumes "C \<subseteq> K"
  defines "K' \<equiv> (K \<union> (T - C - F)) - (C - T - F)" and "C' \<equiv> (C \<union> (T - C - F - K)) - ((C - T) \<inter> K - F)"
  shows "C' \<subseteq> K'" "K' - C' = K - C" "\<forall>k. k \<notin> F \<longrightarrow> (k \<in> K' \<longleftrightarrow> k \<in> T \<or> k \<in> K - C)"
  using assms(1) by (auto simp: K'_def C'_def)

lemma build_result:
  assumes "maintenance s0 = ResyncBuild bid" "slice_step budget s0 = (CContinue, budget', s)" "maintenance s \<noteq> Idle"
  shows "\<exists>m. maintenance s = ResyncApply 0 0 bid m None" "sorted_wrt (<) (target_keys s)"
    "current_keys s = sorted_list_of_set (owned_ips s0)" "owned_ips s = owned_ips s0" "inflight s = inflight s0"
    "accepts_all (wd s) = accepts_all (wd s0)"
proof -
  let ?s = "s0\<lparr>maintenance := Idle\<rparr>"
  obtain r s1 where b: "build_resync_plan ?s = (r, s1)" by fastforce
  have r: "\<exists>m. r = Inr m \<and> s = s1\<lparr>maintenance := ResyncApply 0 0 bid m None\<rparr>"
    using assms b by (cases r) (auto simp: slice_step_def resync_build_branch_def Let_def)
  then show "\<exists>m. maintenance s = ResyncApply 0 0 bid m None" by auto
  obtain w q out where sn: "snapshot_interface_keys_sorted_with_socket_inplace RouteSock (opt_ipv6 (opts s0)) (filters s0)
      (wd s0, target_keys s0) = (q, (w, out))" by (metis surj_pair)
  from sn b r have q: "q = Inr ()"
    "s1 = ?s\<lparr>wd := w, target_keys := out, current_keys := sorted_list_of_set (owned_ips s0)\<rparr>"
    by (cases q; auto simp: build_resync_plan_def)+
  with r show "current_keys s = sorted_list_of_set (owned_ips s0)" "owned_ips s = owned_ips s0"
    "inflight s = inflight s0" by auto
  show "accepts_all (wd s) = accepts_all (wd s0)"
    using snapshot_other [OF sn, of RuleSock] r q(2) by (auto simp: accepts_all_def)
  have "\<exists>xs. out = sort_dedup xs"
    using sn q(1) by (auto simp: snapshot_interface_keys_sorted_with_socket_inplace_def split: prod.splits sum.splits if_splits)
  then have "sorted_wrt (<) out" by (auto simp: sort_dedup_set)
  with r q(2) show "sorted_wrt (<) (target_keys s)" by auto
qed

text \<open>
  C3. A resync brings the kernel's rules in line with the interfaces. Let every owned address have a rule
  when it starts and let the rule socket take what is sent; after the snapshot, every sequence of rounds is at most as long as the plan; each can be continued until the plan is done, and
  then the job is over, the rules that were not the daemon's are untouched, every owned address has a
  rule, and apart from requests the kernel refused, the rules are those for the addresses of the
  snapshot and those that were not the daemon's.
\<close>

theorem resync_converges:
  assumes "maintenance s0 = ResyncBuild bid" "slice_step budget0 s0 = (CContinue, budget1, s)"
    "maintenance s \<noteq> Idle" "inflight s0 = None" "finite (owned_ips s0)" "owned_ips s0 \<subseteq> K"
    "accepts_all (wd s0)" "(job_round ^^ n) (s, K, {}) (s', K', F)"
  shows "n \<le> length (target_keys s) + card (owned_ips s0) \<and>
    (keeps_going (s', K', F) \<or>
     (\<forall>budget > 0. \<exists>budget' s2. slice_step budget s' = (CContinue, budget', s2) \<and> maintenance s2 = Idle \<and>
        owned_ips s2 \<subseteq> K' \<and> K' - owned_ips s2 = K - owned_ips s0 \<and>
        (\<forall>k. k \<notin> F \<longrightarrow> (k \<in> K' \<longleftrightarrow> k \<in> set (target_keys s) \<or> k \<in> K - owned_ips s0))))"
proof -
  note br = build_result [OF assms(1-3)]
  let ?ts = "target_keys s" and ?cs = "current_keys s"
  let ?plan = "diff_ops ?ts ?cs"
  have cs: "sorted_wrt (<) ?cs" "set ?cs = owned_ips s0" "length ?cs = card (owned_ips s0)"
    using br(3) assms(5) by simp_all
  have "resync.at_rest ?plan s"
    using br(1,5,6) assms(4,7) by (auto simp: resync.at_rest_def resync_at_def awaited_def resync_remaining_def)
  moreover have "distinct (map op_key ?plan)"
    using diff_ops_strict [OF br(2) cs(1)] by (simp add: strict_sorted_iff)
  ultimately obtain xs ys where x: "?plan = xs @ ys" "n \<le> length xs" "resync.at_rest ys s'"
      "K' = table_after xs F K" "owned_ips s' = owned_after xs F K (owned_ips s)"
    using resync.rounds_effect [OF _ _ assms(8)] by blast
  have "length ?plan \<le> length ?ts + length ?cs" by (rule diff_ops_length)
  then have n: "n \<le> length ?ts + card (owned_ips s0)" using x(1,2) cs(3) by simp
  show ?thesis
  proof (cases "ys = []")
    case False
    with resync.never_stuck [OF x(3)] n show ?thesis by blast
  next
    case True
    note pk = plan_keys_diff [OF br(2) cs(1), unfolded cs(2)]
    have xs: "added_keys xs = set ?ts - owned_ips s0" "deleted_keys xs = owned_ips s0 - set ?ts"
      using pk x(1) True by simp_all
    have K': "K' = (K \<union> (set ?ts - owned_ips s0 - F)) - (owned_ips s0 - set ?ts - F)"
      and O': "owned_ips s' = (owned_ips s0 \<union> (set ?ts - owned_ips s0 - F - K)) - ((owned_ips s0 - set ?ts) \<inter> K - F)"
      unfolding x(4,5) br(4) table_after_def owned_after_def xs by blast+
    note fin = diff_effect [OF assms(6), where T = "set ?ts" and F = F, folded K' O']
    have at: "resync_at [] s'" using x(3) True by (simp add: resync.at_rest_def)
    have "\<exists>budget' s2. slice_step budget s' = (CContinue, budget', s2) \<and> maintenance s2 = Idle \<and>
        owned_ips s2 \<subseteq> K' \<and> K' - owned_ips s2 = K - owned_ips s0 \<and>
        (\<forall>k. k \<notin> F \<longrightarrow> (k \<in> K' \<longleftrightarrow> k \<in> set ?ts \<or> k \<in> K - owned_ips s0))" if pos: "0 < budget" for budget
    proof -
      obtain budget' s2 where "slice_step budget s' = (CContinue, budget', s2)" "maintenance s2 = Idle"
          "owned_ips s2 = owned_ips s'" using resync_finish [OF at pos] by blast
      with fin show ?thesis by simp
    qed
    with n show ?thesis by (intro conjI disjI2) simp_all
  qed
qed

text \<open>
  C5. A shutdown takes the daemon's rules away: once the cleanup has been prepared, every sequence of
  rounds is at most as long as the set of owned addresses; each can be continued until all deletions
  are answered, and then the cleanup counts as done, nothing is owned any more and exactly the owned
  rules are gone from the kernel, apart from deletions it refused.
\<close>

theorem shutdown_removes_everything:
  assumes "maintenance s0 = Idle" "shutdown_requested s0" "pending s0 = []" "\<not> shutdown_cleanup_done s0"
    "slice_step budget0 s0 = (CContinue, budget1, s)" "owned_ips s0 \<noteq> {}" "finite (owned_ips s0)"
    "inflight s0 = None" "accepts_all (wd s0)" "(job_round ^^ n) (s, K, {}) (s', K', F)"
  shows "n \<le> card (owned_ips s0) \<and>
    (keeps_going (s', K', F) \<or>
     (\<forall>budget > 0. \<exists>budget' s2. slice_step budget s' = (CContinue, budget', s2) \<and> maintenance s2 = Idle \<and>
        shutdown_cleanup_done s2 \<and> owned_ips s2 = {} \<and> K' = K - (owned_ips s0 - F)))"
proof -
  let ?keys = "sorted_list_of_set (owned_ips s0)"
  have "s = s0\<lparr>tracked_keys := ?keys, owned_ips := {}, maintenance := CleanupTracked 0 (batch_id s0) CleanupSummary_default None\<rparr>"
    using assms(1-7) by (simp add: slice_step_def idle_branch_def prepare_shutdown_cleanup_job_def Let_def)
  then have "shutdown.at_rest (map (\<lambda>k. del_op k) ?keys) s" and own: "owned_ips s = {}"
    using assms(8,9) by (simp_all add: shutdown.at_rest_def shutdown_at_def awaited_def tracked_remaining_def)
  moreover have "distinct (map op_key (map (\<lambda>k. del_op k) ?keys))" by (simp del: map_map)
  ultimately obtain xs ys where x: "map (\<lambda>k. del_op k) ?keys = xs @ ys" "n \<le> length xs" "shutdown.at_rest ys s'"
      "K' = table_after xs F K" "owned_ips s' = owned_after xs F K {}"
    using shutdown.rounds_effect [OF _ _ assms(10)] by (metis (no_types, lifting))
  have "length (xs @ ys) = card (owned_ips s0)" unfolding x(1) [symmetric] by simp
  then have n: "n \<le> card (owned_ips s0)" using x(2) by simp
  show ?thesis
  proof (cases "ys = []")
    case False
    with shutdown.never_stuck [OF x(3)] n show ?thesis by blast
  next
    case True
    have xs: "added_keys xs = {}" "deleted_keys xs = owned_ips s0"
      using plan_keys_deletions(1,2) [of ?keys] x(1) True assms(7) by simp_all
    have at: "shutdown_at [] s'" using x(3) True by (simp add: shutdown.at_rest_def)
    have fin: "K' = K - (owned_ips s0 - F)" "owned_ips s' = {}"
      using x(4,5) xs by (simp_all add: table_after_def owned_after_def)
    with n shutdown_finish [OF at] show ?thesis by (intro conjI disjI2) (simp, metis)
  qed
qed

text \<open>
  The rounds of a startup cleanup remove the collected addresses; the first of the three jobs, whose list
  comes from the rule dump, is completed in theory \<open>Startup_Cleanup\<close>.
\<close>

lemma startup_rounds:
  assumes "maintenance s = StartupCleanupDumpApply 0 bid c None nf" "distinct (startup_cleanup_keys s)"
    "inflight s = None" "accepts_all (wd s)" "(job_round ^^ n) (s, K, {}) (s', K', F)"
  shows "n \<le> length (startup_cleanup_keys s) \<and>
    (keeps_going (s', K', F) \<or>
     (\<forall>budget > 0. \<exists>budget' s2. slice_step budget s' = (CContinue, budget', s2) \<and>
        K' = K - (set (startup_cleanup_keys s) - F) \<and> startup_cleanup_keys s2 = [] \<and>
        owned_ips s2 = owned_ips s - (set (startup_cleanup_keys s) \<inter> K - F) \<and>
        family_done nf (opt_ipv6 (opts s)) s2))"
proof -
  let ?keys = "startup_cleanup_keys s" and ?v6 = "opt_ipv6 (opts s)"
  have "startup.at_rest nf ?v6 (map (\<lambda>k. del_op k) ?keys) s"
    using assms(1,3,4) by (simp add: startup.at_rest_def startup_at_def awaited_def tracked_remaining_def)
  moreover have "distinct (map op_key (map (\<lambda>k. del_op k) ?keys))" using assms(2) by (simp del: map_map)
  ultimately obtain xs ys where x: "map (\<lambda>k. del_op k) ?keys = xs @ ys" "n \<le> length xs" "startup.at_rest nf ?v6 ys s'"
      "K' = table_after xs F K" "owned_ips s' = owned_after xs F K (owned_ips s)"
    using startup.rounds_effect [OF _ _ assms(5)] by (metis (no_types, lifting))
  have "length (xs @ ys) = length ?keys" unfolding x(1) [symmetric] by simp
  then have n: "n \<le> length ?keys" using x(2) by simp
  show ?thesis
  proof (cases "ys = []")
    case False
    with startup.never_stuck [OF x(3)] n show ?thesis by blast
  next
    case True
    have xs: "added_keys xs = {}" "deleted_keys xs = set ?keys"
      using plan_keys_deletions(1,2) [of ?keys] x(1) True by simp_all
    have at: "startup_at nf ?v6 [] s'" using x(3) True by (simp add: startup.at_rest_def)
    have fin: "K' = K - (set ?keys - F)" "owned_ips s' = owned_ips s - (set ?keys \<inter> K - F)"
      using x(4,5) xs by (simp_all add: table_after_def owned_after_def)
    with n startup_finish [OF at] show ?thesis by (intro conjI disjI2) (simp, metis)
  qed
qed

theorem shutdown_removes_everything_witness:
  "\<exists>budget s n s' K' F.
     slice_step 1 (sample_sys\<lparr>shutdown_requested := True, owned_ips := {V4 1}\<rparr>) = (CContinue, budget, s) \<and>
     (job_round ^^ n) (s, {V4 1, V4 7}, {}) (s', K', F) \<and> K' = {V4 1, V4 7} - ({V4 1} - F)"
proof -
  let ?s0 = "sample_sys\<lparr>shutdown_requested := True, owned_ips := {V4 1}\<rparr>"
  let ?Q = "\<lambda>(s' :: sys, K', F). K' = {V4 1, V4 7} - ({V4 1} - F)"
  obtain budget s where s: "slice_step 1 ?s0 = (CContinue, budget, s)"
    by (simp add: slice_step_def idle_branch_def)
  have "n \<le> 1 \<and> (keeps_going t \<or> ?Q t)" if "(job_round ^^ n) (s, {V4 1, V4 7}, {}) t" for n t
    using shutdown_removes_everything [OF _ _ _ _ s, of n "{V4 1, V4 7}" "fst t" "fst (snd t)" "snd (snd t)"] that
    by (auto simp: accepts_all_def quiet_world_def split: prod.splits)
  from rounds_end [OF this] s show ?thesis by auto
qed

text \<open>A daemon that owns one address, whose interfaces have none.\<close>

definition sample_resync :: sys where
  "sample_resync = sample_sys\<lparr>maintenance := ResyncBuild 0, owned_ips := {V4 1},
     opts := sample_opts\<lparr>opt_ipv6 := False\<rparr>,
     wd := upd_sock RouteSock (\<lambda>k. k\<lparr>rx_script := [RecvOk [kernel_done 1]]\<rparr>) quiet_world\<rparr>"

lemma sample_resync_built:
  "\<exists>budget s. slice_step 2 sample_resync = (CContinue, budget, s) \<and> maintenance s \<noteq> Idle \<and> target_keys s = []"
proof -
  let ?w = "wd sample_resync"
  have seq: "normalize_seq (seq_cell ?w) = 1"
    by (simp add: sample_resync_def upd_sock_def quiet_world_def normalize_seq_def)
  have "tx_script (socks ?w RouteSock) = []"
    "rx_script (socks ?w RouteSock) = map RecvOk ([[kernel_done 1]] @ (if False then [] else [])) @ []"
    by (simp_all add: sample_resync_def upd_sock_def quiet_world_def)
  moreover have "dump_answer (normalize_seq (seq_cell ?w)) [[kernel_done 1]]"
    unfolding seq by (simp add: dump_answer_def done_batch dump_end_def kernel_done_frame)
  ultimately have "\<exists>w'. snapshot_interface_keys_sorted_with_socket_inplace RouteSock False (filters sample_resync)
      (?w, target_keys sample_resync) = (Inr (), (w', sorted_list_of_set
        (set (keys_of False (filters sample_resync) (normalize_seq (seq_cell ?w)) [[kernel_done 1]]) \<union> (if False then {} else {}))))"
    using snapshot_answer [of ?w RouteSock "[[kernel_done 1]]" False "[]"] by fastforce
  then obtain w' where sn: "snapshot_interface_keys_sorted_with_socket_inplace RouteSock False (filters sample_resync)
      (?w, target_keys sample_resync) = (Inr (), (w', []))"
    unfolding seq by (auto simp: keys_of_def done_batch dump_payload_def kernel_done_frame map_filter_simps)
  have "maintenance sample_resync = ResyncBuild 0" "opt_ipv6 (opts sample_resync) = False"
    by (simp_all add: sample_resync_def)
  with sn show ?thesis by (simp add: slice_step_def resync_build_branch_def build_resync_plan_def Let_def)
qed

theorem resync_converges_witness:
  "\<exists>budget s n s' K' F. slice_step 2 sample_resync = (CContinue, budget, s) \<and>
     (job_round ^^ n) (s, {V4 1, V4 7}, {}) (s', K', F) \<and> (V4 1 \<notin> F \<longrightarrow> V4 1 \<notin> K') \<and> (V4 7 \<notin> F \<longrightarrow> V4 7 \<in> K')"
proof -
  let ?Q = "\<lambda>(s' :: sys, K', F). (V4 1 \<notin> F \<longrightarrow> V4 1 \<notin> K') \<and> (V4 7 \<notin> F \<longrightarrow> V4 7 \<in> K')"
  obtain budget s where s: "slice_step 2 sample_resync = (CContinue, budget, s)" "maintenance s \<noteq> Idle" "target_keys s = []"
    using sample_resync_built by blast
  have m: "maintenance sample_resync = ResyncBuild 0" "inflight sample_resync = None" "owned_ips sample_resync = {V4 1}"
    "accepts_all (wd sample_resync)"
    by (simp_all add: sample_resync_def accepts_all_def upd_sock_def quiet_world_def)
  have "n \<le> 1 \<and> (keeps_going t \<or> ?Q t)" if r: "(job_round ^^ n) (s, {V4 1, V4 7}, {}) t" for n t
  proof -
    obtain s' K' F where t: "t = (s', K', F)" by (metis prod_cases3)
    from resync_converges [OF m(1) s(1,2) m(2) _ _ m(4) r [unfolded t]] show ?thesis
      unfolding t m(3) s(3) by (auto dest: spec [of _ 1])
  qed
  from rounds_end [OF this] s(1) show ?thesis by auto
qed

end
