(* ===== verification/Route_Events.thy ===== *)
theory Route_Events
  imports Event_Loop
begin

text \<open>
  What \<open>handle_route_events\<close> of \<^verbatim>\<open>src/daemon/service/event_loop.rs\<close> makes of the packets on the route
  socket: the loops over receive calls, packets and messages against the list of the events they carry.
\<close>

text \<open>The event an item of a packet carries: an operation, none, or a parse failure.\<close>

definition item_event ::
  "bool \<Rightarrow> IgnoreFilters \<Rightarrow> (AppError, NetlinkMessageView) res \<Rightarrow> (AppError, RuleOp option) res" where
  "item_event v6 f item =
     (case item of
        Inl e \<Rightarrow> Inl e
      | Inr msg \<Rightarrow>
          if uint (nlmsg_type (nv_header msg)) \<in> {uint RTM_NEWADDR, uint RTM_DELADDR}
          then map_sum id (map_option ev_op) (parse_addr_event msg v6 f) else Inr None)"

definition item_update ::
  "bool \<Rightarrow> IgnoreFilters \<Rightarrow> (AppError, NetlinkMessageView) res \<Rightarrow> (IpKey \<times> RuleAction) option" where
  "item_update v6 f item =
     (case item_event v6 f item of Inr (Some op) \<Rightarrow> Some (op_key op, op_action op) | _ \<Rightarrow> None)"

abbreviation (input) route_updates ::
  "bool \<Rightarrow> IgnoreFilters \<Rightarrow> (AppError, NetlinkMessageView) res list \<Rightarrow> (IpKey \<times> RuleAction) list" where
  "route_updates v6 f items \<equiv> List.map_filter (item_update v6 f) items"

abbreviation (input) route_failures ::
  "bool \<Rightarrow> IgnoreFilters \<Rightarrow> (AppError, NetlinkMessageView) res list \<Rightarrow> nat" where
  "route_failures v6 f items \<equiv> length (filter (isl \<circ> item_event v6 f) items)"

definition record_updates ::
  "(IpKey \<times> RuleAction) list \<Rightarrow> (IpKey \<times> RuleAction) list \<Rightarrow> (IpKey \<times> RuleAction) list" where
  "record_updates us p = fold (\<lambda>(k, v). AList.update k v) us p"

definition sat_count :: "nat \<Rightarrow> u64 \<Rightarrow> u64" where
  "sat_count n c = ((\<lambda>c. u64_sat_add c 1) ^^ n) c"

lemma record_updates_simps [simp]:
  "record_updates [] p = p" "record_updates ((k, v) # us) p = record_updates us (AList.update k v p)"
  "record_updates (us @ vs) p = record_updates vs (record_updates us p)"
  by (simp_all add: record_updates_def)

lemma map_of_record_updates: "map_of (record_updates us p) = map_of p ++ map_of (rev us)"
proof (induction us arbitrary: p)
  case (Cons u us)
  obtain k v where "u = (k, v)" by fastforce
  with Cons show ?case
    by (auto simp: update_conv map_add_def map_of_append fun_eq_iff split: option.splits)
qed simp

lemma sat_count_simps [simp]:
  "sat_count 0 c = c" "sat_count (Suc n) c = sat_count n (u64_sat_add c 1)"
  "sat_count (m + n) c = sat_count n (sat_count m c)"
  by (simp_all only: sat_count_def funpow_simps_right funpow_0 comp_def add.commute [of m] funpow_add id_apply)

lemma sat_count_pos: "0 < sat_count n 0 \<longleftrightarrow> 0 < n"
proof -
  have "u64_sat_add c 1 \<noteq> 0" for c
  proof (cases "unat c + 1 < 2 ^ 64")
    case True
    then have "unat (c + 1) = unat c + 1" by (simp add: unat_word_ariths)
    then have "c + 1 \<noteq> 0" by (metis add_eq_0_iff_both_eq_0 one_neq_zero unat_0)
    with True show ?thesis by (simp add: u64_sat_add_def)
  qed (simp add: u64_sat_add_def)
  then have "sat_count (Suc n) c \<noteq> 0" for n c
    by (induction n arbitrary: c) simp_all
  then show ?thesis by (cases n) (simp_all add: word_gt_0 del: sat_count_simps(2))
qed

lemma route_items_eq:
  "\<exists>lg. route_items items (a, s) =
     (a\<lparr>ra_parse_failed := sat_count (route_failures (opt_ipv6 (opts s)) (filters s) items) (ra_parse_failed a),
        ra_touched := ra_touched a \<or> route_updates (opt_ipv6 (opts s)) (filters s) items \<noteq> []\<rparr>,
      s\<lparr>logged := lg, pending := record_updates (route_updates (opt_ipv6 (opts s)) (filters s) items) (pending s)\<rparr>)"
proof (induction items arbitrary: a s)
  case Nil
  show ?case by (intro exI [of _ "logged s"]) (simp add: map_filter_simps)
next
  case (Cons item items)
  show ?case
  proof (cases "item_event (opt_ipv6 (opts s)) (filters s) item")
    case (Inl e)
    then have u: "item_update (opt_ipv6 (opts s)) (filters s) item = None" by (simp add: item_update_def)
    have "route_items (item # items) (a, s) = route_items items (a\<lparr>ra_parse_failed := u64_sat_add (ra_parse_failed a) 1\<rparr>, s)"
      using Inl by (cases item) (auto simp: item_event_def map_sum_def Let_def split: if_splits sum.splits)
    with Cons [of "a\<lparr>ra_parse_failed := u64_sat_add (ra_parse_failed a) 1\<rparr>" s] Inl u show ?thesis
      by (simp add: map_filter_simps)
  next
    case (Inr x)
    show ?thesis
    proof (cases x)
      case None
      then have u: "item_update (opt_ipv6 (opts s)) (filters s) item = None" using Inr by (simp add: item_update_def)
      have "route_items (item # items) (a, s) = route_items items (a, s)"
        using Inr None by (cases item) (auto simp: item_event_def map_sum_def Let_def split: if_splits sum.splits)
      with Cons [of a s] Inr u show ?thesis by (simp add: map_filter_simps)
    next
      case (Some op)
      then have u: "item_update (opt_ipv6 (opts s)) (filters s) item = Some (op_key op, op_action op)"
        using Inr by (simp add: item_update_def)
      have "\<exists>lg. route_items (item # items) (a, s) = route_items items
          (a\<lparr>ra_touched := True\<rparr>, s\<lparr>logged := lg, pending := AList.update (op_key op) (op_action op) (pending s)\<rparr>)"
        using Inr Some
        by (cases item) (auto simp: item_event_def map_sum_def log_def op_key_def Let_def split: if_splits sum.splits)
      then obtain lg where st: "route_items (item # items) (a, s) = route_items items
          (a\<lparr>ra_touched := True\<rparr>, s\<lparr>logged := lg, pending := AList.update (op_key op) (op_action op) (pending s)\<rparr>)" by blast
      from Cons [of "a\<lparr>ra_touched := True\<rparr>" "s\<lparr>logged := lg, pending := AList.update (op_key op) (op_action op) (pending s)\<rparr>"]
      show ?thesis unfolding st by (simp add: map_filter_simps u Inr)
    qed
  qed
qed

text \<open>The accumulator after a number of packets with the given items.\<close>

definition acc_after :: "nat \<Rightarrow> (AppError, NetlinkMessageView) res list \<Rightarrow> sys \<Rightarrow> route_acc \<Rightarrow> route_acc" where
  "acc_after n items s a =
     a\<lparr>ra_packets_left := ra_packets_left a - n, ra_processed := ra_processed a + n,
       ra_parse_failed := sat_count (route_failures (opt_ipv6 (opts s)) (filters s) items) (ra_parse_failed a),
       ra_touched := ra_touched a \<or> route_updates (opt_ipv6 (opts s)) (filters s) items \<noteq> []\<rparr>"

definition pending_after :: "(AppError, NetlinkMessageView) res list \<Rightarrow> sys \<Rightarrow> (IpKey \<times> RuleAction) list" where
  "pending_after items s = record_updates (route_updates (opt_ipv6 (opts s)) (filters s) items) (pending s)"

lemma acc_after_frame [simp]:
  "ra_packets_left (acc_after n items s a) = ra_packets_left a - n"
  "acc_after n items (s\<lparr>logged := lg\<rparr>) a = acc_after n items s a"
  "acc_after n items (s\<lparr>pending := p\<rparr>) a = acc_after n items s a"
  "acc_after n items (s\<lparr>wd := w\<rparr>) a = acc_after n items s a"
  "acc_after n items (s\<lparr>route_slots := m\<rparr>) a = acc_after n items s a"
  by (simp_all add: acc_after_def)

lemma pending_after_frame [simp]:
  "pending_after items (s\<lparr>logged := lg\<rparr>) = pending_after items s"
  "pending_after items (s\<lparr>wd := w\<rparr>) = pending_after items s"
  "pending_after items (s\<lparr>route_slots := m\<rparr>) = pending_after items s"
  "pending_after [] s = pending s"
  by (simp_all add: pending_after_def map_filter_simps)

lemma map_filter_append: "List.map_filter g (xs @ ys) = List.map_filter g xs @ List.map_filter g ys"
  by (simp add: List.map_filter_def)

lemma after_append:
  "acc_after n ys s (acc_after m xs s a) = acc_after (m + n) (xs @ ys) s a"
  "pending_after ys (s\<lparr>pending := pending_after xs s\<rparr>) = pending_after (xs @ ys) s"
  by (simp_all add: acc_after_def pending_after_def map_filter_append)

lemma route_packets_eq:
  "length pkts \<le> ra_packets_left a \<Longrightarrow>
     \<exists>lg. route_packets pkts (a, s) =
       (acc_after (length pkts) (concat (map iter_all pkts)) s a,
        s\<lparr>logged := lg, pending := pending_after (concat (map iter_all pkts)) s\<rparr>)"
proof (induction pkts arbitrary: a s)
  case Nil
  show ?case by (intro exI [of _ "logged s"]) (simp add: acc_after_def map_filter_simps)
next
  case (Cons p pkts)
  obtain lg where it: "route_items (iter_all p)
      (a\<lparr>ra_packets_left := ra_packets_left a - 1, ra_processed := ra_processed a + 1\<rparr>, s) =
    (acc_after 1 (iter_all p) s a, s\<lparr>logged := lg, pending := pending_after (iter_all p) s\<rparr>)"
    using route_items_eq [of "iter_all p" "a\<lparr>ra_packets_left := ra_packets_left a - 1, ra_processed := ra_processed a + 1\<rparr>" s]
    by (auto simp: acc_after_def pending_after_def)
  let ?s1 = "s\<lparr>logged := lg, pending := pending_after (iter_all p) s\<rparr>"
  have le: "length pkts \<le> ra_packets_left (acc_after 1 (iter_all p) s a)" using Cons.prems by simp
  obtain lg' where "route_packets pkts (acc_after 1 (iter_all p) s a, ?s1) =
      (acc_after (length pkts) (concat (map iter_all pkts)) ?s1 (acc_after 1 (iter_all p) s a),
       ?s1\<lparr>logged := lg', pending := pending_after (concat (map iter_all pkts)) ?s1\<rparr>)"
    using Cons.IH [OF le, of ?s1] by blast
  moreover have "acc_after (length pkts) (concat (map iter_all pkts)) ?s1 (acc_after 1 (iter_all p) s a) =
      acc_after (length (p # pkts)) (concat (map iter_all (p # pkts))) s a"
    using after_append(1) [of "length pkts" "concat (map iter_all pkts)" s 1 "iter_all p" a] by simp
  moreover have "pending_after (concat (map iter_all pkts)) ?s1 = pending_after (concat (map iter_all (p # pkts))) s"
    using after_append(2) [where s = "s\<lparr>logged := lg\<rparr>" and xs = "iter_all p" and ys = "concat (map iter_all pkts)"] by simp
  ultimately show ?case using it Cons.prems by auto
qed

text \<open>Receive results that fit the ring, as the socket delivers them.\<close>

definition route_batch :: "usize \<Rightarrow> bytes list \<Rightarrow> bool" where
  "route_batch slots b \<longleftrightarrow>
     b \<noteq> [] \<and> length b \<le> slots \<and> list_all (\<lambda>p. length p \<le> ROUTE_EVENT_BUFFER_SIZE) b"

lemma route_batch_mono: "route_batch m b \<Longrightarrow> m \<le> n \<Longrightarrow> route_batch n b"
  by (simp add: route_batch_def)

lemma sock_recv_route:
  assumes "rx_script (socks w sid) = RecvOk b # rest" "route_batch slots b"
  shows "sock_recv slots sid w = (Inr b, upd_sock sid (\<lambda>s. s\<lparr>rx_script := rest\<rparr>) w)"
proof -
  have "map (take ROUTE_EVENT_BUFFER_SIZE) b = b"
    using assms(2) by (auto simp: route_batch_def list_all_iff intro: map_idI)
  with assms show ?thesis by (simp add: sock_recv_def route_batch_def min_def Let_def)
qed

lemma route_loop_drained:
  assumes "rx_script (socks (wd s) RouteSock) = []"
  shows "route_loop (a, s) = (Inr (), a, s)"
proof -
  have "is_transient_recv_err eagain_error" by (simp add: is_transient_recv_err_def os_error_matches_def eagain_error_def)
  with assms show ?thesis by (subst route_loop.simps) (simp add: sock_recv_def)
qed

lemma route_loop_eq:
  "rx_script (socks (wd s) RouteSock) = map RecvOk bs \<Longrightarrow> list_all (route_batch (route_slots s)) bs \<Longrightarrow>
   length (concat bs) \<le> ra_packets_left a \<Longrightarrow>
   \<exists>full lg w m. route_loop (a, s) =
     (Inr (), (acc_after (length (concat bs)) (concat (map iter_all (concat bs))) s a)\<lparr>ra_ring_full := full\<rparr>,
      s\<lparr>logged := lg, pending := pending_after (concat (map iter_all (concat bs))) s, wd := w, route_slots := m\<rparr>)"
proof (induction bs arbitrary: a s)
  case Nil
  then have "route_loop (a, s) = (Inr (), a, s)" by (simp add: route_loop_drained)
  moreover have "(acc_after 0 [] s a)\<lparr>ra_ring_full := ra_ring_full a\<rparr> = a" by (simp add: acc_after_def map_filter_simps)
  ultimately show ?case
    by (intro exI [of _ "ra_ring_full a"] exI [of _ "logged s"] exI [of _ "wd s"] exI [of _ "route_slots s"]) simp
next
  case (Cons b bs)
  define w1 where "w1 = upd_sock RouteSock (\<lambda>k. k\<lparr>rx_script := map RecvOk bs\<rparr>) (wd s)"
  define full where "full \<longleftrightarrow> ra_ring_full a \<or> length b = route_slots s"
  define m where "m = (if length b = route_slots s \<and> route_slots s < ROUTE_RING_MAX_SLOTS
      then max (route_slots s) (min (route_slots s * 2) ROUTE_RING_MAX_SLOTS) else route_slots s)"
  have m: "route_slots s \<le> m" by (simp add: m_def)
  have b: "b \<noteq> []" "route_batch (route_slots s) b" "length b \<le> ra_packets_left a"
    using Cons.prems by (auto simp: route_batch_def)
  then have left: "0 < ra_packets_left a" by (metis le_zero_eq length_0_conv neq0_conv)
  have r: "sock_recv (route_slots s) RouteSock (wd s) = (Inr b, w1)"
    using sock_recv_route [of "wd s" RouteSock b "map RecvOk bs"] Cons.prems(1) b(2) by (simp add: w1_def)
  let ?a1 = "a\<lparr>ra_ring_full := full\<rparr>" and ?s1 = "s\<lparr>wd := w1, route_slots := m\<rparr>"
  have st: "route_loop (a, s) = route_loop (route_packets b (?a1, ?s1))"
    using r b(1) left
    by (subst route_loop.simps, cases "length b = route_slots s"; cases "route_slots s < ROUTE_RING_MAX_SLOTS")
      (simp_all add: Let_def full_def m_def)
  let ?ib = "concat (map iter_all b)" and ?ir = "concat (map iter_all (concat bs))"
  obtain lg where p: "route_packets b (?a1, ?s1) =
      (acc_after (length b) ?ib ?s1 ?a1, ?s1\<lparr>logged := lg, pending := pending_after ?ib ?s1\<rparr>)"
    using route_packets_eq [of b ?a1 ?s1] b(3) by auto
  let ?s2 = "?s1\<lparr>logged := lg, pending := pending_after ?ib ?s1\<rparr>" and ?a2 = "acc_after (length b) ?ib ?s1 ?a1"
  have rx: "rx_script (socks (wd ?s2) RouteSock) = map RecvOk bs" by (simp add: w1_def upd_sock_def)
  have bt: "list_all (route_batch (route_slots ?s2)) bs"
    using Cons.prems(2) m route_batch_mono by (auto simp: list_all_iff)
  have len: "length (concat bs) \<le> ra_packets_left ?a2" using Cons.prems(3) by simp
  from Cons.IH [OF rx bt len] obtain full' lg' w' m' where l: "route_loop (?a2, ?s2) =
      (Inr (), (acc_after (length (concat bs)) ?ir ?s2 ?a2)\<lparr>ra_ring_full := full'\<rparr>,
       ?s2\<lparr>logged := lg', pending := pending_after ?ir ?s2, wd := w', route_slots := m'\<rparr>)" by blast
  have "(acc_after (length (concat bs)) ?ir ?s2 ?a2)\<lparr>ra_ring_full := full'\<rparr> =
      (acc_after (length (concat (b # bs))) (concat (map iter_all (concat (b # bs)))) s a)\<lparr>ra_ring_full := full'\<rparr>"
    using after_append(1) [of "length (concat bs)" ?ir s "length b" ?ib ?a1] by (simp add: acc_after_def)
  moreover have "pending_after ?ir ?s2 = pending_after (concat (map iter_all (concat (b # bs)))) s"
    using after_append(2) [where s = "?s1\<lparr>logged := lg\<rparr>" and xs = ?ib and ys = ?ir] by simp
  ultimately show ?case unfolding st p l by auto
qed

lemma shrink_ring_frame:
  "shrink_ring a s = s\<lparr>route_slots := route_slots (shrink_ring a s),
     route_ring_calm_streak := route_ring_calm_streak (shrink_ring a s)\<rparr>"
  by (simp add: shrink_ring_def Let_def)

lemma note_parse_failed_frame:
  "note_parse_failed a s =
     s\<lparr>dropped_count := dropped_count (note_parse_failed a s), logged := logged (note_parse_failed a s),
       resync_requested := resync_requested s \<or> 0 < ra_parse_failed a,
       resync_compensate_pending := resync_compensate_pending (note_parse_failed a s)\<rparr>"
  by (simp add: note_parse_failed_def note_event_drop_def log_def Let_def)

lemma handle_route_events_eq:
  assumes "rx_script (socks (wd s) RouteSock) = map RecvOk bs" "list_all (route_batch (route_slots s)) bs"
    "length (concat bs) \<le> budget_current (route_budget s)"
  defines "items \<equiv> concat (map iter_all (concat bs))"
  defines "us \<equiv> route_updates (opt_ipv6 (opts s)) (filters s) items"
  shows "\<exists>s'. handle_route_events s = (Inr (), s') \<and> pending s' = record_updates us (pending s) \<and>
    owned_ips s' = owned_ips s \<and> inflight s' = inflight s \<and> maintenance s' = maintenance s \<and> opts s' = opts s \<and>
    (resync_requested s' \<longleftrightarrow> resync_requested s \<or> list_ex (isl \<circ> item_event (opt_ipv6 (opts s)) (filters s)) items) \<and>
    (quiet_deadline s', max_deadline s') =
      (if us = [] then (quiet_deadline s, max_deadline s)
       else (Some (clock (wd s') + opt_debounce (opts s)),
             (case max_deadline s of None \<Rightarrow> Some (clock (wd s') + opt_debounce_max (opts s)) | d \<Rightarrow> d)))"
proof -
  let ?a = "\<lparr>ra_packets_left = budget_current (route_budget s), ra_processed = 0, ra_budget_hit = False,
    ra_ring_full = False, ra_parse_failed = 0, ra_touched = False\<rparr>"
  obtain full lg w m where l: "route_loop (?a, s) =
     (Inr (), (acc_after (length (concat bs)) items s ?a)\<lparr>ra_ring_full := full\<rparr>,
      s\<lparr>logged := lg, pending := pending_after items s, wd := w, route_slots := m\<rparr>)"
    using route_loop_eq [OF assms(1,2), of ?a] assms(3) unfolding items_def by auto
  define a where "a = (acc_after (length (concat bs)) items s ?a)\<lparr>ra_ring_full := full\<rparr>"
  have a: "ra_touched a \<longleftrightarrow> us \<noteq> []" "0 < ra_parse_failed a \<longleftrightarrow> list_ex (isl \<circ> item_event (opt_ipv6 (opts s)) (filters s)) items"
    by (auto simp: a_def acc_after_def us_def sat_count_pos list_ex_iff filter_empty_conv)
  define s1 where "s1 = s\<lparr>logged := lg, pending := record_updates us (pending s), wd := w, route_slots := m,
    route_budget := RouteBudgetState_update (ra_processed a) (ra_budget_hit a \<or> ra_ring_full a) (route_budget s)\<rparr>"
  have "handle_route_events s = (Inr (), note_parse_failed a (shrink_ring a (note_touched a s1)))"
    using l by (simp add: handle_route_events_def a_def s1_def pending_after_def us_def Let_def)
  moreover obtain m' k where sh: "shrink_ring a (note_touched a s1) = (note_touched a s1)\<lparr>route_slots := m', route_ring_calm_streak := k\<rparr>"
    using shrink_ring_frame [of a "note_touched a s1"] by blast
  moreover obtain d lg' c where "note_parse_failed a ((note_touched a s1)\<lparr>route_slots := m', route_ring_calm_streak := k\<rparr>) =
     (note_touched a s1)\<lparr>route_slots := m', route_ring_calm_streak := k, dropped_count := d, logged := lg',
       resync_requested := resync_requested (note_touched a s1) \<or> 0 < ra_parse_failed a, resync_compensate_pending := c\<rparr>"
    using note_parse_failed_frame [of a "(note_touched a s1)\<lparr>route_slots := m', route_ring_calm_streak := k\<rparr>"] by simp
  ultimately have h: "handle_route_events s = (Inr (), (note_touched a s1)\<lparr>route_slots := m', route_ring_calm_streak := k,
      dropped_count := d, logged := lg', resync_requested := resync_requested (note_touched a s1) \<or> 0 < ra_parse_failed a,
      resync_compensate_pending := c\<rparr>)" by simp
  show ?thesis
    unfolding h using a
    by (cases "us = []"; cases "max_deadline s")
      (simp_all add: note_touched_def now_eq s1_def instant_now_mono Let_def)
qed

text \<open>
  C14. Every address event that is received is recorded: if the packets fit the ring and the drain
  budget, handling the route socket succeeds and maps each address to the action of its last event,
  keeps the other pending addresses, changes neither the owned set nor the batch in flight, asks for a resync exactly when some
  message could not be read, and restarts the quiet deadline (and sets the maximal one, if there is
  none) whenever something was recorded.
\<close>

theorem route_events_recorded:
  assumes "rx_script (socks (wd s) RouteSock) = map RecvOk bs" "list_all (route_batch (route_slots s)) bs"
    "length (concat bs) \<le> budget_current (route_budget s)"
  shows "\<exists>s'. handle_route_events s = (Inr (), s') \<and> owned_ips s' = owned_ips s \<and> inflight s' = inflight s \<and>
    (let items = concat (map iter_all (concat bs));
         us = route_updates (opt_ipv6 (opts s)) (filters s) items
     in map_of (pending s') = map_of (pending s) ++ map_of (rev us) \<and>
        (resync_requested s' \<longleftrightarrow> resync_requested s \<or> list_ex (isl \<circ> item_event (opt_ipv6 (opts s)) (filters s)) items) \<and>
        (quiet_deadline s', max_deadline s') =
          (if us = [] then (quiet_deadline s, max_deadline s)
           else (Some (clock (wd s') + opt_debounce (opts s)),
                 (case max_deadline s of None \<Rightarrow> Some (clock (wd s') + opt_debounce_max (opts s)) | d \<Rightarrow> d))))"
  using handle_route_events_eq [OF assms] by (auto simp: map_of_record_updates Let_def simp del: prod.inject)

text \<open>Reading the route socket leaves the rule socket alone.\<close>

lemma route_packets_wd: "wd (snd (route_packets pkts st)) = wd (snd st)"
proof -
  have it: "wd (snd (route_items items st)) = wd (snd st)" for items st
    using route_items_eq [of items "fst st" "snd st"] by auto
  show ?thesis by (induction pkts st rule: route_packets.induct) (simp_all add: it)
qed

lemma route_loop_other: "route_loop st = (r, a', s') \<Longrightarrow> socks (wd s') RuleSock = socks (wd (snd st)) RuleSock"
proof (induction st arbitrary: r a' s' rule: route_loop.induct)
  case (1 a s)
  obtain q w where r: "sock_recv (route_slots s) RouteSock (wd s) = (q, w)" by fastforce
  have o: "socks w RuleSock = socks (wd s) RuleSock" using sock_recv_frame(7) [OF r] by simp
  show ?case
  proof (cases "0 < ra_packets_left a \<and> (\<exists>pkts. q = Inr pkts \<and> pkts \<noteq> [])")
    case False
    with "1.prems" r o show ?thesis by (subst (asm) route_loop.simps) (auto simp: Let_def split: sum.splits if_splits)
  next
    case True
    then obtain pkts where q: "0 < ra_packets_left a" "q = Inr pkts" "pkts \<noteq> []" by blast
    obtain a1 s1 where u: "(if length pkts = route_slots (s\<lparr>wd := w\<rparr>) then (a\<lparr>ra_ring_full := True\<rparr>,
        (if route_slots (s\<lparr>wd := w\<rparr>) < ROUTE_RING_MAX_SLOTS
         then s\<lparr>wd := w, route_slots := max (route_slots (s\<lparr>wd := w\<rparr>)) (min (route_slots (s\<lparr>wd := w\<rparr>) * 2) ROUTE_RING_MAX_SLOTS)\<rparr>
         else s\<lparr>wd := w\<rparr>)) else (a, s\<lparr>wd := w\<rparr>)) = (a1, s1)" by fastforce
    have "wd s1 = w" using u by (auto split: if_splits)
    moreover have "route_loop (route_packets pkts (a1, s1)) = (r, a', s')"
      using "1.prems" r q u by (subst (asm) route_loop.simps) (simp add: Let_def del: max_def)
    ultimately show ?thesis
      using "1.IH" [OF q(1) r [symmetric] q(2) refl q(3) u [symmetric] refl, of r a' s'] route_packets_wd [of pkts "(a1, s1)"] o
      by simp
  qed
qed

lemma handle_route_events_other:
  assumes "handle_route_events s = (r, s')"
  shows "socks (wd s') RuleSock = socks (wd s) RuleSock"
proof -
  have t: "socks (wd (note_touched a s)) i = socks (wd s) i" for a s i
    by (simp add: note_touched_def now_eq Let_def)
  have p: "wd (note_parse_failed a s) = wd s" "wd (shrink_ring a s) = wd s" for a s
    by (subst note_parse_failed_frame, simp) (subst shrink_ring_frame, simp)
  show ?thesis
    using assms route_loop_other
    by (fastforce simp: handle_route_events_def t p Let_def split: prod.splits sum.splits)
qed

text \<open>A daemon that receives the announcement of one address.\<close>

definition sample_event :: sys where
  "sample_event = sample_sys\<lparr>wd := upd_sock RouteSock (\<lambda>k. k\<lparr>rx_script := [RecvOk [sample_newaddr 1]]\<rparr>) quiet_world\<rparr>"

lemma sample_newaddr_frame:
  "nl_frame (sample_newaddr 1)" "length (sample_newaddr 1) = 40"
  "nv_data (frame_view (sample_newaddr 1)) = IfAddrMsg_bytes sample_ifa @ enc_nlas sample_attrs"
  "nlmsg_type (nv_header (frame_view (sample_newaddr 1))) = RTM_NEWADDR"
proof -
  let ?body = "IfAddrMsg_bytes sample_ifa @ enc_nlas sample_attrs"
  have len: "length ?body = 24" by (simp add: sample_attrs_def nla_align_eq)
  show "nl_frame (sample_newaddr 1)" "nv_data (frame_view (sample_newaddr 1)) = ?body"
    "nlmsg_type (nv_header (frame_view (sample_newaddr 1))) = RTM_NEWADDR"
    using build_netlink_request_frame [of ?body RTM_NEWADDR 2 1] len by (simp_all add: sample_newaddr_def)
  show "length (sample_newaddr 1) = 40"
    using build_netlink_request_eq [of ?body RTM_NEWADDR 2 1] len by (simp add: sample_newaddr_def)
qed

lemma sample_event_simps:
  "rx_script (socks (wd sample_event) RouteSock) = map RecvOk [[sample_newaddr 1]]"
  "list_all (route_batch (route_slots sample_event)) [[sample_newaddr 1]]"
  "length (concat [[sample_newaddr 1]]) \<le> budget_current (route_budget sample_event)"
  "route_updates (opt_ipv6 (opts sample_event)) (filters sample_event) (concat (map iter_all (concat [[sample_newaddr 1]]))) =
     [(V4 0x0A000001, Add)]"
proof -
  show "rx_script (socks (wd sample_event) RouteSock) = map RecvOk [[sample_newaddr 1]]"
    by (simp add: sample_event_def upd_sock_def)
  show "list_all (route_batch (route_slots sample_event)) [[sample_newaddr 1]]"
    by (simp add: sample_event_def route_batch_def sample_newaddr_frame)
  show "length (concat [[sample_newaddr 1]]) \<le> budget_current (route_budget sample_event)"
    by (simp add: sample_event_def RouteBudgetState_default_def)
  have it: "concat (map iter_all (concat [[sample_newaddr 1]])) = [Inr (frame_view (sample_newaddr 1))]"
    using iter_all_frames [of "[sample_newaddr 1]"] sample_newaddr_frame(1) by simp
  have f: "filters sample_event = IgnoreFilters_new [] [] 0"
    by (simp add: sample_event_def sample_sys_def initial_state_def Daemon_new_def sample_opts_def)
  have "item_update v6 (IgnoreFilters_new [] [] 0) (Inr (frame_view (sample_newaddr 1))) = Some (V4 0x0A000001, Add)" for v6
    using parse_addr_event_announced [OF sample_newaddr_frame(3) sample_ok, of v6 "IgnoreFilters_new [] [] 0"]
    by (auto simp: item_update_def item_event_def sample_newaddr_frame(4) sample_announced op_key_def from_ip_eq)
  then show "route_updates (opt_ipv6 (opts sample_event)) (filters sample_event) (concat (map iter_all (concat [[sample_newaddr 1]]))) =
     [(V4 0x0A000001, Add)]"
    unfolding it f by (simp add: map_filter_simps)
qed

theorem route_events_recorded_witness:
  "\<exists>s'. handle_route_events sample_event = (Inr (), s') \<and> map_of (pending s') = [V4 0x0A000001 \<mapsto> Add]"
proof -
  have p: "pending sample_event = []" by (simp add: sample_event_def)
  from route_events_recorded [OF sample_event_simps(1-3)] show ?thesis
    unfolding sample_event_simps(4) p Let_def by auto
qed

end
