(* ===== verification/Event_Delivery.thy ===== *)
theory Event_Delivery
  imports Convergence Route_Events
begin

text \<open>
  From an address event to its rule: the composition of \<open>handle_route_events\<close>, \<open>start_pending_batch\<close>
  and \<open>drain_rule_acks_once\<close> with the kernel in between.
\<close>

lemma map_of_mset_eq:
  assumes "mset xs = mset ys" "distinct (map fst ys)"
  shows "map_of xs = map_of ys"
proof -
  have "distinct (map fst xs)" using assms by (metis mset_eq_imp_distinct_iff mset_map)
  moreover have "set xs = set ys" using assms(1) by (rule mset_eq_setD)
  ultimately show ?thesis using assms(2) by (metis map_of_inject_set)
qed

text \<open>The operations of a map of pending events and the addresses they concern.\<close>

definition update_ops :: "(IpKey \<times> RuleAction) list \<Rightarrow> RuleOp list" where
  "update_ops ps = map (\<lambda>(k, v). \<lparr>op_addr = into_ip k, op_action = v\<rparr>) ps"

lemma update_ops_keys: "map op_key (update_ops ps) = map fst ps"
  by (auto simp: update_ops_def op_key_def)

lemma update_ops_effective_set:
  "added_keys (filter (\<lambda>op. \<not> should_skip owned op) (update_ops ps)) = {k. (k, Add) \<in> set ps} - owned"
  "deleted_keys (filter (\<lambda>op. \<not> should_skip owned op) (update_ops ps)) = {k. (k, Delete) \<in> set ps} \<inter> owned"
proof -
  have u: "update_ops ((k, v) # qs) = \<lparr>op_addr = into_ip k, op_action = v\<rparr> # update_ops qs" "update_ops [] = []" for k v qs
    by (simp_all add: update_ops_def)
  have op: "op_key \<lparr>op_addr = into_ip k, op_action = v\<rparr> = k"
    "is_add \<lparr>op_addr = into_ip k, op_action = v\<rparr> \<longleftrightarrow> v = Add"
    "should_skip owned \<lparr>op_addr = into_ip k, op_action = v\<rparr> \<longleftrightarrow> (v = Add \<longleftrightarrow> k \<in> owned)" for k v
    by (cases v; simp add: should_skip_eq op_key_def is_add_def)+
  show "added_keys (filter (\<lambda>op. \<not> should_skip owned op) (update_ops ps)) = {k. (k, Add) \<in> set ps} - owned"
  proof (induction ps)
    case (Cons p ps)
    obtain k v where "p = (k, v)" by fastforce
    with Cons show ?case by (cases v) (auto simp: u op)
  qed (simp add: u)
  show "deleted_keys (filter (\<lambda>op. \<not> should_skip owned op) (update_ops ps)) = {k. (k, Delete) \<in> set ps} \<inter> owned"
  proof (induction ps)
    case (Cons p ps)
    obtain k v where "p = (k, v)" by fastforce
    with Cons show ?case by (cases v) (auto simp: u op)
  qed (simp add: u)
qed

lemma update_ops_effective:
  assumes "distinct (map fst ps)"
  shows "added_keys (filter (\<lambda>op. \<not> should_skip owned op) (update_ops ps)) = {k. map_of ps k = Some Add} - owned"
    and "deleted_keys (filter (\<lambda>op. \<not> should_skip owned op) (update_ops ps)) = {k. map_of ps k = Some Delete} \<inter> owned"
  using assms by (simp_all add: update_ops_effective_set)

lemma pending_batch_applied:
  assumes "sys_ok s" "hash_order ho" "inflight s = None" "accepts_all (wd s)" "pending s \<noteq> []"
    "length (pending s) \<le> opt_batch_max (opts s)"
  defines "ops \<equiv> filter (\<lambda>op. \<not> should_skip (owned_ips s) op) (update_ops (ho (pending s)))"
  shows "ops = [] \<Longrightarrow> \<exists>s1. start_pending_batch ho s = (Inr False, s1) \<and> owned_ips s1 = owned_ips s"
    and "ops \<noteq> [] \<Longrightarrow> \<exists>s1 b. start_pending_batch ho s = (Inr True, s1) \<and> sent_batch ops s b s1"
proof -
  have len: "length (ho (pending s)) = length (pending s)" by (rule hash_order_length [OF assms(2)])
  have t: "taken_ops ho s = update_ops (ho (pending s))"
    using assms(6) len by (simp add: taken_ops_def update_ops_def min_def)
  have ne: "update_ops (ho (pending s)) \<noteq> []" using assms(5) len by (auto simp: update_ops_def)
  let ?s1 = "pending_taken ho s"
  have s1: "owned_ips ?s1 = owned_ips s" "accepts_all (wd ?s1)"
    using assms(4) by (simp_all add: pending_taken_def pool_pop_def now_eq Let_def)
  show "\<exists>s1. start_pending_batch ho s = (Inr False, s1) \<and> owned_ips s1 = owned_ips s" if "ops = []"
    using that assms(3,5) ne s1(1)
    by (simp add: start_pending_batch_eq t ops_def [symmetric] Let_def pool_push_def)
  show "\<exists>s1 b. start_pending_batch ho s = (Inr True, s1) \<and> sent_batch ops s b s1" if o: "ops \<noteq> []"
  proof -
    let ?s2 = "?s1\<lparr>batch_id := batch_id s + 1\<rparr>" and ?ic = "length (update_ops (ho (pending s)))"
    let ?np = "length (filter (should_skip (owned_ips s)) (update_ops (ho (pending s))))"
    have eq: "start_pending_batch ho s = start_batch OwnerPending (batch_id s + 1) ?ic ?np ops ?s2"
      using o assms(3,5) ne by (simp add: start_pending_batch_eq t ops_def [symmetric] Let_def)
    have "accepts_all (wd ?s2)" using s1(2) by simp
    from start_batch_accepted [OF o this, of OwnerPending "batch_id s + 1" ?ic ?np]
    obtain s3 b where "start_batch OwnerPending (batch_id s + 1) ?ic ?np ops ?s2 = (Inr True, s3)" "sent_batch ops ?s2 b s3"
      by blast
    moreover from this(2) have "sent_batch ops s b s3" using s1(1) by (simp add: sent_batch_def)
    ultimately show ?thesis using eq by auto
  qed
qed

lemma record_updates_distinct:
  "distinct (map fst p) \<Longrightarrow> distinct (map fst (record_updates us p))"
  by (induction us arbitrary: p) (auto simp: distinct_update)

lemma record_updates_length: "length (record_updates us p) \<le> length us + length p"
proof (induction us arbitrary: p)
  case (Cons u us)
  obtain k v where u: "u = (k, v)" by fastforce
  have "length (AList.update k v p) \<le> Suc (length p)" by (induction p) auto
  with Cons [of "AList.update k v p"] u show ?case by simp
qed simp

lemma events_effect:
  fixes u :: "IpKey \<rightharpoonup> RuleAction" and C F K :: "IpKey set"
  assumes "C \<subseteq> K"
  defines "A \<equiv> {k. u k = Some Add} - C" and "D \<equiv> {k. u k = Some Delete} \<inter> C"
  defines "K' \<equiv> (K \<union> (A - F)) - (D - F)" and "C' \<equiv> (C \<union> (A - F - K)) - (D \<inter> K - F)"
  shows "C' \<subseteq> K'" "K' - C' = K - C"
    "\<forall>k. case u k of None \<Rightarrow> k \<in> K' \<longleftrightarrow> k \<in> K | Some Add \<Rightarrow> k \<in> K' \<or> k \<in> F
       | Some Delete \<Rightarrow> k \<notin> K' \<or> k \<in> K - C \<or> k \<in> F"
proof -
  show "C' \<subseteq> K'" "K' - C' = K - C" using assms(1) by (auto simp: K'_def C'_def A_def D_def)
  show "\<forall>k. case u k of None \<Rightarrow> k \<in> K' \<longleftrightarrow> k \<in> K | Some Add \<Rightarrow> k \<in> K' \<or> k \<in> F
       | Some Delete \<Rightarrow> k \<notin> K' \<or> k \<in> K - C \<or> k \<in> F"
    using assms(1) by (auto simp: K'_def A_def D_def split: option.split RuleAction.split)
qed

text \<open>The replies to a batch of events, committed.\<close>

lemma events_committed:
  fixes u :: "IpKey \<rightharpoonup> RuleAction"
  assumes "sent_batch ops s1 b s2" "kernel_replies K b es K' rs" "distinct (map op_key ops)"
    "added_keys ops = {k. u k = Some Add} - owned_ips s1" "deleted_keys ops = {k. u k = Some Delete} \<inter> owned_ips s1"
    "owned_ips s1 \<subseteq> K"
  shows "\<exists>s3. drain_rule_acks_once (deliver_acks rs s2) = (Inr (), s3) \<and> inflight s3 = None \<and>
    owned_ips s3 \<subseteq> K' \<and> K' - owned_ips s3 = K - owned_ips s1 \<and>
    (\<forall>k. case u k of
       None \<Rightarrow> k \<in> K' \<longleftrightarrow> k \<in> K
     | Some Add \<Rightarrow> k \<in> K' \<or> k \<in> refused_keys (if_ops b) es
     | Some Delete \<Rightarrow> k \<notin> K' \<or> k \<in> K - owned_ips s1 \<or> k \<in> refused_keys (if_ops b) es)"
proof -
  have b: "if_ops b = ops" using assms(1) by (simp add: sent_batch_def)
  obtain r s3 where d: "drain_rule_acks_once (deliver_acks rs s2) = (r, s3)" by fastforce
  note dc = drain_committed [OF assms(1,2) d]
  have "kernel_batch K ops es K'" using assms(2) b by (simp add: kernel_replies_def)
  note ex = kernel_batch_exact [OF this assms(3)]
  let ?F = "refused_keys ops es" and ?C = "owned_ips s1"
  have K': "K' = (K \<union> ({k. u k = Some Add} - ?C - ?F)) - ({k. u k = Some Delete} \<inter> ?C - ?F)"
    using ex(1) unfolding table_after_def assms(4,5) .
  have C': "owned_ips s3 = (?C \<union> ({k. u k = Some Add} - ?C - ?F - K)) - ({k. u k = Some Delete} \<inter> ?C \<inter> K - ?F)"
    using dc(2) unfolding ex(2) owned_after_def assms(4,5) .
  note e = events_effect [OF assms(6), where u = u and F = ?F, folded K' C']
  show ?thesis
    using d dc(1,3) e unfolding b by (intro exI [of _ s3]) (simp add: committed_def)
qed

text \<open>
  C4. Address events reach the kernel: with nothing pending or in flight and a rule for every owned
  address, handle packets of the route socket that fit the ring and the budgets, and start the batch. Either every event
  is already satisfied by the owned set and no batch is started, or the batch goes out and, whatever the kernel replies, the next drain commits it:
  an address whose last event was an addition has a rule, one whose last event was a deletion has
  none (unless the rule was never the daemon's), apart from requests the kernel refused; no other
  rule changes, and the rules that are not the daemon's are untouched.
\<close>

theorem address_events_reach_kernel:
  fixes s :: sys
  assumes "sys_ok s" "hash_order ho" "inflight s = None" "pending s = []" "owned_ips s \<subseteq> K"
    "rx_script (socks (wd s) RouteSock) = map RecvOk bs" "list_all (route_batch (route_slots s)) bs"
    "length (concat bs) \<le> budget_current (route_budget s)"
    "handle_route_events s = (Inr (), s1)" "accepts_all (wd s1)"
  defines "us \<equiv> route_updates (opt_ipv6 (opts s)) (filters s) (concat (map iter_all (concat bs)))"
  assumes "length us \<le> opt_batch_max (opts s)"
  shows "(\<exists>s2. start_pending_batch ho s1 = (Inr False, s2) \<and> owned_ips s2 = owned_ips s \<and>
      (\<forall>k. (map_of (rev us) k = Some Add \<longrightarrow> k \<in> owned_ips s) \<and> (map_of (rev us) k = Some Delete \<longrightarrow> k \<notin> owned_ips s))) \<or>
    (\<exists>s2 b. start_pending_batch ho s1 = (Inr True, s2) \<and> inflight s2 = Some b \<and>
      (\<forall>es K' rs. kernel_replies K b es K' rs \<longrightarrow>
        (\<exists>s3. drain_rule_acks_once (deliver_acks rs s2) = (Inr (), s3) \<and> inflight s3 = None \<and>
          owned_ips s3 \<subseteq> K' \<and> K' - owned_ips s3 = K - owned_ips s \<and>
          (\<forall>k. case map_of (rev us) k of
             None \<Rightarrow> k \<in> K' \<longleftrightarrow> k \<in> K
           | Some Add \<Rightarrow> k \<in> K' \<or> k \<in> refused_keys (if_ops b) es
           | Some Delete \<Rightarrow> k \<notin> K' \<or> k \<in> K - owned_ips s \<or> k \<in> refused_keys (if_ops b) es))))"
proof -
  let ?p = "record_updates us []"
  have s1: "pending s1 = ?p" "owned_ips s1 = owned_ips s" "inflight s1 = None" "opts s1 = opts s"
    using handle_route_events_eq [OF assms(6-8)] assms(3,4,9) unfolding us_def by auto
  have ok: "sys_ok s1" using handle_route_events_ok [OF assms(1,9)] by simp
  have dp: "distinct (map fst ?p)" by (rule record_updates_distinct) simp
  have ms: "mset (ho ?p) = mset ?p" using assms(2) by (simp add: hash_order_def)
  have dh: "distinct (map fst (ho ?p))" by (rule hash_order_distinct [OF assms(2) dp])
  have mp: "map_of (ho ?p) = map_of (rev us)"
    using map_of_mset_eq [OF ms dp] map_of_record_updates [of us "[]"] by simp
  define ops where "ops = filter (\<lambda>op. \<not> should_skip (owned_ips s) op) (update_ops (ho ?p))"
  note keys = update_ops_effective [OF dh, of "owned_ips s", folded ops_def, unfolded mp]
  show ?thesis
  proof (cases "ops = []")
    case True
    have none: "(map_of (rev us) k = Some Add \<longrightarrow> k \<in> owned_ips s) \<and> (map_of (rev us) k = Some Delete \<longrightarrow> k \<notin> owned_ips s)" for k
      using keys True by auto
    have "\<exists>s2. start_pending_batch ho s1 = (Inr False, s2) \<and> owned_ips s2 = owned_ips s"
    proof (cases "?p = []")
      case True
      then show ?thesis using s1 by (simp add: start_pending_batch_eq)
    next
      case False
      with pending_batch_applied(1) [OF ok assms(2) s1(3) assms(10)] s1 True assms(12) record_updates_length [of us "[]"]
      show ?thesis by (simp add: ops_def)
    qed
    with none show ?thesis by blast
  next
    case False
    then have "?p \<noteq> []" using ms by (auto simp: ops_def update_ops_def)
    with pending_batch_applied(2) [OF ok assms(2) s1(3) assms(10)] s1 False assms(12) record_updates_length [of us "[]"]
    obtain s2 b where s2: "start_pending_batch ho s1 = (Inr True, s2)" "sent_batch ops s1 b s2"
      by (auto simp: ops_def)
    then have b: "inflight s2 = Some b" "if_ops b = ops" by (simp_all add: sent_batch_def)
    have "distinct (map op_key (update_ops (ho ?p)))" using dh by (simp add: update_ops_keys)
    then have dk: "distinct (map op_key ops)" unfolding ops_def by (rule distinct_map_filter)
    note ec = events_committed [OF s2(2) _ dk, unfolded s1(2), OF _ keys assms(5)]
    with s2(1) b show ?thesis by blast
  qed
qed

theorem address_events_reach_kernel_witness:
  "\<exists>s1 s2 b. handle_route_events sample_event = (Inr (), s1) \<and> start_pending_batch id s1 = (Inr True, s2) \<and>
     inflight s2 = Some b \<and>
     (\<forall>es K' rs. kernel_replies {} b es K' rs \<longrightarrow>
        (\<exists>s3. drain_rule_acks_once (deliver_acks rs s2) = (Inr (), s3) \<and>
          (V4 0x0A000001 \<in> K' \<or> V4 0x0A000001 \<in> refused_keys (if_ops b) es)))"
proof -
  have ok: "sys_ok sample_event" "hash_order id" "inflight sample_event = None" "pending sample_event = []"
    "owned_ips sample_event = {}" using sample_sys_ok by (simp_all add: sample_event_def hash_order_def)
  from handle_route_events_eq [OF sample_event_simps(1-3)] obtain s1 where s1: "handle_route_events sample_event = (Inr (), s1)"
    by blast
  have tx: "accepts_all (wd s1)"
    using handle_route_events_other [OF s1] by (simp add: accepts_all_def sample_event_def upd_sock_def quiet_world_def)
  have bm: "length (route_updates (opt_ipv6 (opts sample_event)) (filters sample_event)
      (concat (map iter_all (concat [[sample_newaddr 1]])))) \<le> opt_batch_max (opts sample_event)"
    unfolding sample_event_simps(4) by (simp add: sample_event_def sample_opts_def)
  have "owned_ips sample_event \<subseteq> {}" using ok(5) by simp
  note this [THEN address_events_reach_kernel [OF ok(1-4) _ sample_event_simps(1-3) s1 tx bm], unfolded sample_event_simps(4) ok(5)]
  moreover have "map_of (rev [(V4 0x0A000001, Add)]) (V4 0x0A000001) = Some Add" by simp
  ultimately obtain s2 b where s2: "start_pending_batch id s1 = (Inr True, s2)" "inflight s2 = Some b"
      "\<And>es K' rs. kernel_replies {} b es K' rs \<Longrightarrow> \<exists>s3. drain_rule_acks_once (deliver_acks rs s2) = (Inr (), s3) \<and>
        (\<forall>k. case map_of (rev [(V4 0x0A000001, Add)]) k of None \<Rightarrow> k \<in> K' \<longleftrightarrow> k \<in> {}
           | Some Add \<Rightarrow> k \<in> K' \<or> k \<in> refused_keys (if_ops b) es
           | Some Delete \<Rightarrow> k \<notin> K' \<or> k \<in> {} - {} \<or> k \<in> refused_keys (if_ops b) es)"
    by (metis (no_types, lifting) empty_iff)
  have "\<exists>s3. drain_rule_acks_once (deliver_acks rs s2) = (Inr (), s3) \<and>
      (V4 0x0A000001 \<in> K' \<or> V4 0x0A000001 \<in> refused_keys (if_ops b) es)" if kr: "kernel_replies {} b es K' rs" for es K' rs
  proof -
    obtain s3 where s3: "drain_rule_acks_once (deliver_acks rs s2) = (Inr (), s3)"
        "\<forall>k. case map_of (rev [(V4 0x0A000001, Add)]) k of None \<Rightarrow> k \<in> K' \<longleftrightarrow> k \<in> {}
           | Some Add \<Rightarrow> k \<in> K' \<or> k \<in> refused_keys (if_ops b) es
           | Some Delete \<Rightarrow> k \<notin> K' \<or> k \<in> {} - {} \<or> k \<in> refused_keys (if_ops b) es"
      using s2(3) [OF kr] by blast
    from spec [OF s3(2), of "V4 0x0A000001"] s3(1) show ?thesis by simp
  qed
  with s1 s2(1,2) show ?thesis by blast
qed

end
