(* ===== verification/Startup_Cleanup.thy ===== *)
theory Startup_Cleanup
  imports Convergence
begin

text \<open>
  The startup cleanup of one address family as a whole: the slices that read the kernel's rule dump
  (\<open>collect_branch\<close>) collect exactly the addresses of the daemon's rules in it, and the rounds that
  follow take them out of the kernel's table.
\<close>

subsection \<open>Reading the dump\<close>

definition rule_target :: "RuleContext \<Rightarrow> int \<Rightarrow> NetlinkMessageView \<Rightarrow> IpAddr option" where
  "rule_target ctx family m =
     (if uint (nlmsg_type (nv_header m)) \<noteq> uint RTM_NEWRULE then None
      else case parse_cleanup_rule_addr m ctx family of Inr (Some a) \<Rightarrow> Some a | _ \<Rightarrow> None)"

definition rule_readable :: "RuleContext \<Rightarrow> int \<Rightarrow> NetlinkMessageView \<Rightarrow> bool" where
  "rule_readable ctx family m \<longleftrightarrow>
     uint (nlmsg_type (nv_header m)) = uint RTM_NEWRULE \<longrightarrow> \<not> isl (parse_cleanup_rule_addr m ctx family)"

definition collect_msg ::
  "RuleContext \<Rightarrow> int \<Rightarrow> NetlinkMessageView \<Rightarrow> IpAddr set \<times> IpKey list \<Rightarrow> IpAddr set \<times> IpKey list" where
  "collect_msg ctx family m st =
     (case rule_target ctx family m of
        None \<Rightarrow> st
      | Some a \<Rightarrow> if a \<in> fst st then st else (insert a (fst st), snd st @ [from_ip a]))"

abbreviation (input) push_key :: "RuleOp \<Rightarrow> IpKey list \<Rightarrow> (AppError + unit) \<times> IpKey list" where
  "push_key \<equiv> \<lambda>target keys. (Inr (), keys @ [from_ip (op_addr target)])"

lemma cleanup_cb_collect:
  "rule_readable ctx family m \<Longrightarrow> cleanup_cb ctx family push_key m st = (Inr (), collect_msg ctx family m st)"
  by (cases st) (auto simp: cleanup_cb_def collect_msg_def rule_target_def rule_readable_def split: sum.splits option.splits)

lemma collect_fold:
  assumes "distinct keys" "set keys = from_ip ` seen" "fold (collect_msg ctx family) ms (seen, keys) = (seen', keys')"
  shows "distinct keys' \<and> set keys' = from_ip ` seen' \<and> seen' = seen \<union> {a. \<exists>m \<in> set ms. rule_target ctx family m = Some a}"
  using assms
proof (induction ms arbitrary: seen keys)
  case (Cons m ms)
  obtain seen1 keys1 where st: "collect_msg ctx family m (seen, keys) = (seen1, keys1)" by fastforce
  have s1: "distinct keys1" "set keys1 = from_ip ` seen1"
    "seen1 = seen \<union> {a. rule_target ctx family m = Some a}"
    using st Cons.prems(1,2) by (auto simp: collect_msg_def image_iff split: option.splits if_splits)
  from Cons.IH [OF s1(1,2)] Cons.prems(3) st have
    "distinct keys' \<and> set keys' = from_ip ` seen' \<and> seen' = seen1 \<union> {a. \<exists>m \<in> set ms. rule_target ctx family m = Some a}"
    by simp
  with s1(3) show ?case by auto
qed simp

lemma step_msgs_readable:
  assumes "\<And>m s. m \<in> set msgs \<Longrightarrow> dump_payload seq m \<Longrightarrow> cb m s = (Inr (), f m s)"
    "list_all (\<lambda>m. \<not> dump_error seq m) msgs"
  shows "step_msgs seq cb (map Inr msgs) d s =
    (Inr (d \<or> list_ex (dump_end seq) msgs), fold f (filter (dump_payload seq) msgs) s)"
  using assms
proof (induction msgs arbitrary: d s)
  case (Cons m msgs)
  then show ?case
    by (cases "nlmsg_seq (nv_header m) = seq")
      (auto simp: dump_payload_def dump_end_def dump_error_def split: sum.splits option.splits)
qed simp

text \<open>A receive result of a rule dump in which every rule can be read.\<close>

definition rule_batch :: "RuleContext \<Rightarrow> int \<Rightarrow> u32 \<Rightarrow> bytes list \<Rightarrow> bool" where
  "rule_batch ctx family seq b \<longleftrightarrow>
     good_batch seq b \<and> list_all (\<lambda>m. dump_payload seq m \<longrightarrow> rule_readable ctx family m) (batch_views b)"

lemma poll_collects:
  assumes "rule_batch ctx family seq b" "rx_script (socks w RuleSock) = RecvOk b # rest"
  shows "poll_cleanup_targets_stream_with_scratch RuleSock ctx family seq push_key (w, seen, keys) =
    (Inr (if list_ex (dump_end seq) (batch_views b) then CleanupDone else CleanupPending),
     (upd_sock RuleSock (\<lambda>s. s\<lparr>rx_script := rest\<rparr>) w,
      fold (collect_msg ctx family) (filter (dump_payload seq) (batch_views b)) (seen, keys)))"
proof -
  have b: "recv_batch b" "b \<noteq> []" "list_all (\<lambda>m. \<not> dump_error seq m) (batch_views b)"
    using assms(1) by (simp_all add: rule_batch_def good_batch_def recv_batch_def)
  have "cleanup_cb ctx family push_key m st = (Inr (), collect_msg ctx family m st)"
    if "m \<in> set (batch_views b)" "dump_payload seq m" for m st
    using assms(1) that by (intro cleanup_cb_collect) (simp add: rule_batch_def list_all_iff)
  from step_msgs_readable [OF this b(3), where d = False]
  show ?thesis
    using b(2) by (simp add: poll_cleanup_targets_stream_with_scratch_def recv_step_def sock_recv_batch [OF b(1) assms(2)]
        step_msgs_pure_world recv_batch_items [OF b(1)] split: prod.split)
qed

subsection \<open>The slices that collect\<close>

primrec run_slices :: "usize list \<Rightarrow> sys \<Rightarrow> sys" where
  "run_slices [] s = s"
| "run_slices (b # bs) s = run_slices bs (snd (snd (slice_step b s)))"

definition collected_job :: "IpKey list \<Rightarrow> usize \<Rightarrow> u64 \<Rightarrow> CleanupSummary \<Rightarrow> MaintenanceJob" where
  "collected_job keys i bid c =
     (if keys = [] then StartupCleanupDumpCollect (i + 1) None bid c else StartupCleanupDumpApply 0 bid c None (i + 1))"

definition collect_batch :: "RuleContext \<Rightarrow> int \<Rightarrow> u32 \<Rightarrow> bytes list \<Rightarrow> IpAddr set \<times> IpKey list \<Rightarrow> IpAddr set \<times> IpKey list" where
  "collect_batch ctx family seq b = fold (collect_msg ctx family) (filter (dump_payload seq) (batch_views b))"

lemma collect_slice:
  assumes "maintenance s = StartupCleanupDumpCollect i (Some seq) bid c"
    "next_startup_cleanup_family i (opt_ipv6 (opts s)) = Some (i, family)"
    "rx_script (socks (wd s) RuleSock) = RecvOk b # rest" "rule_batch (rule_ctx s) family seq b"
    "collect_batch (rule_ctx s) family seq b (cleanup_seen s, startup_cleanup_keys s) = (seen, keys)"
  shows "snd (snd (slice_step budget s)) =
    s\<lparr>wd := upd_sock RuleSock (\<lambda>s. s\<lparr>rx_script := rest\<rparr>) (wd s), cleanup_seen := seen, startup_cleanup_keys := keys,
      maintenance := (if list_ex (dump_end seq) (batch_views b) then collected_job keys i bid c
        else StartupCleanupDumpCollect i (Some seq) bid c)\<rparr>"
  using assms(1,2) poll_collects [OF assms(4,3), of "cleanup_seen s" "startup_cleanup_keys s"] assms(5)
  by (simp add: slice_step_def collect_branch_def collected_job_def collect_batch_def Let_def)

lemma collect_start:
  assumes "maintenance s = StartupCleanupDumpCollect i None bid c"
    "next_startup_cleanup_family i (opt_ipv6 (opts s)) = Some (i, family)" "accepts_all (wd s)"
  defines "seq \<equiv> normalize_seq (seq_cell (wd s))"
  shows "\<exists>w. slice_step budget s = slice_step budget
      (s\<lparr>wd := w, cleanup_seen := {}, maintenance := StartupCleanupDumpCollect i (Some seq) bid c\<rparr>) \<and>
    accepts_all w \<and> rx_script (socks w RuleSock) = rx_script (socks (wd s) RuleSock) \<and>
    tx_log (socks w RuleSock) = tx_log (socks (wd s) RuleSock) @ [build_rule_dump_message family seq]"
proof -
  obtain q cell where n: "next_seq (seq_cell (wd s)) = (q, cell)" by fastforce
  have q: "q = seq" using n by (simp add: seq_def next_seq_def reserve_seq_block_def Let_def)
  obtain w where w: "sock_send RuleSock (build_rule_dump_message family seq) ((wd s)\<lparr>seq_cell := cell\<rparr>) = (Inr (), w)"
      "accepts_all w" "rx_script (socks w RuleSock) = rx_script (socks (wd s) RuleSock)"
      "tx_log (socks w RuleSock) = tx_log (socks (wd s) RuleSock) @ [build_rule_dump_message family seq]"
    using assms(3) by (cases "tx_script (socks (wd s) RuleSock)")
      (auto simp: sock_send_def accepts_all_def upd_sock_def split: sum.splits)
  obtain r w1 seen keys where "poll_cleanup_targets_stream_with_scratch RuleSock (rule_ctx s) family seq push_key
      (w, {}, startup_cleanup_keys s) = (r, w1, seen, keys)" by (metis prod_cases4)
  then have "slice_step budget s = slice_step budget
      (s\<lparr>wd := w, cleanup_seen := {}, maintenance := StartupCleanupDumpCollect i (Some seq) bid c\<rparr>)"
    using assms(1,2) n q w(1)
    by (simp add: slice_step_def collect_branch_def start_cleanup_dump_family_def begin_family_def Let_def
        split: sum.split CleanupDumpPoll.split)
  with w(2-4) show ?thesis by blast
qed

text \<open>The answer to a rule dump request: its batches can be read and only the last one ends it.\<close>

definition rule_dump :: "RuleContext \<Rightarrow> int \<Rightarrow> u32 \<Rightarrow> bytes list list \<Rightarrow> bool" where
  "rule_dump ctx family seq bs \<longleftrightarrow>
     bs \<noteq> [] \<and> list_all (rule_batch ctx family seq) bs \<and>
     list_all (\<lambda>b. \<not> list_ex (dump_end seq) (batch_views b)) (butlast bs) \<and>
     list_ex (dump_end seq) (batch_views (last bs))"

lemma collect_run:
  assumes "maintenance s = StartupCleanupDumpCollect i (Some seq) bid c"
    "next_startup_cleanup_family i (opt_ipv6 (opts s)) = Some (i, family)"
    "rx_script (socks (wd s) RuleSock) = map RecvOk bs" "rule_dump (rule_ctx s) family seq bs"
    "length budgets = length bs" "fold (collect_batch (rule_ctx s) family seq) bs (cleanup_seen s, startup_cleanup_keys s) = (seen, keys)"
  shows "\<exists>w. run_slices budgets s = s\<lparr>wd := w, cleanup_seen := seen, startup_cleanup_keys := keys,
      maintenance := collected_job keys i bid c\<rparr> \<and> accepts_all w = accepts_all (wd s) \<and>
    tx_log (socks w RuleSock) = tx_log (socks (wd s) RuleSock)"
  using assms
proof (induction bs arbitrary: s budgets)
  case Nil
  then show ?case by (simp add: rule_dump_def)
next
  case (Cons b bs)
  obtain bd bds where bd: "budgets = bd # bds" "length bds = length bs" using Cons.prems(5) by (cases budgets) auto
  obtain seen1 keys1 where st: "collect_batch (rule_ctx s) family seq b (cleanup_seen s, startup_cleanup_keys s) = (seen1, keys1)"
    by fastforce
  have rb: "rule_batch (rule_ctx s) family seq b" using Cons.prems(4) by (simp add: rule_dump_def)
  let ?w = "upd_sock RuleSock (\<lambda>s. s\<lparr>rx_script := map RecvOk bs\<rparr>) (wd s)"
  have rx: "rx_script (socks (wd s) RuleSock) = RecvOk b # map RecvOk bs" using Cons.prems(3) by simp
  note sl = collect_slice [OF Cons.prems(1,2) rx rb st, of bd]
  have acc: "accepts_all ?w = accepts_all (wd s)" "tx_log (socks ?w RuleSock) = tx_log (socks (wd s) RuleSock)"
    by (simp_all add: accepts_all_def upd_sock_def)
  show ?case
  proof (cases "bs = []")
    case True
    then have "list_ex (dump_end seq) (batch_views b)" "seen1 = seen" "keys1 = keys" "bds = []"
      using Cons.prems(4,6) st bd(2) by (simp_all add: rule_dump_def)
    with sl bd(1) acc show ?thesis by (intro exI [of _ ?w]) simp
  next
    case False
    then have ne: "\<not> list_ex (dump_end seq) (batch_views b)" and rd: "rule_dump (rule_ctx s) family seq bs"
      using Cons.prems(4) by (simp_all add: rule_dump_def)
    let ?s1 = "s\<lparr>wd := ?w, cleanup_seen := seen1, startup_cleanup_keys := keys1,
      maintenance := StartupCleanupDumpCollect i (Some seq) bid c\<rparr>"
    have s1: "run_slices budgets s = run_slices bds ?s1" using sl ne bd(1) by simp
    have "\<exists>w. run_slices bds ?s1 = ?s1\<lparr>wd := w, cleanup_seen := seen, startup_cleanup_keys := keys,
        maintenance := collected_job keys i bid c\<rparr> \<and> accepts_all w = accepts_all (wd ?s1) \<and>
        tx_log (socks w RuleSock) = tx_log (socks (wd ?s1) RuleSock)"
      using Cons.IH [of ?s1 bds] Cons.prems(2,6) rd bd(2) st by (simp add: upd_sock_def)
    with s1 acc show ?thesis by auto
  qed
qed

text \<open>The addresses of the daemon's rules in the answer.\<close>

definition listed_keys :: "RuleContext \<Rightarrow> int \<Rightarrow> u32 \<Rightarrow> bytes list list \<Rightarrow> IpKey set" where
  "listed_keys ctx family seq bs =
     from_ip ` {a. \<exists>m \<in> set (filter (dump_payload seq) (concat (map batch_views bs))). rule_target ctx family m = Some a}"

lemma fold_collect_batch:
  "fold (collect_batch ctx family seq) bs st =
     fold (collect_msg ctx family) (filter (dump_payload seq) (concat (map batch_views bs))) st"
  by (induction bs arbitrary: st) (simp_all add: collect_batch_def)

lemma family_collected:
  assumes "maintenance s0 = StartupCleanupDumpCollect i None bid c" "startup_cleanup_keys s0 = []"
    "next_startup_cleanup_family i (opt_ipv6 (opts s0)) = Some (i, family)" "accepts_all (wd s0)"
    "rx_script (socks (wd s0) RuleSock) = map RecvOk bs"
    "rule_dump (rule_ctx s0) family (normalize_seq (seq_cell (wd s0))) bs" "length budgets = length bs"
  shows "\<exists>s keys. run_slices budgets s0 = s \<and> startup_cleanup_keys s = keys \<and> distinct keys \<and>
    set keys = listed_keys (rule_ctx s0) family (normalize_seq (seq_cell (wd s0))) bs \<and>
    maintenance s = collected_job keys i bid c \<and> inflight s = inflight s0 \<and> owned_ips s = owned_ips s0 \<and>
    accepts_all (wd s) \<and> opts s = opts s0 \<and>
    tx_log (socks (wd s) RuleSock) = tx_log (socks (wd s0) RuleSock) @
      [build_rule_dump_message family (normalize_seq (seq_cell (wd s0)))]"
proof -
  let ?seq = "normalize_seq (seq_cell (wd s0))" and ?ctx = "rule_ctx s0"
  obtain bd bds where bd: "budgets = bd # bds" using assms(6,7) by (cases budgets) (auto simp: rule_dump_def)
  obtain w where w: "slice_step bd s0 = slice_step bd
      (s0\<lparr>wd := w, cleanup_seen := {}, maintenance := StartupCleanupDumpCollect i (Some ?seq) bid c\<rparr>)"
      "accepts_all w" "rx_script (socks w RuleSock) = map RecvOk bs"
      "tx_log (socks w RuleSock) = tx_log (socks (wd s0) RuleSock) @ [build_rule_dump_message family ?seq]"
    using collect_start [OF assms(1,3,4), of bd] assms(5) by auto
  let ?s1 = "s0\<lparr>wd := w, cleanup_seen := {}, maintenance := StartupCleanupDumpCollect i (Some ?seq) bid c\<rparr>"
  obtain seen keys where f: "fold (collect_batch ?ctx family ?seq) bs ({}, []) = (seen, keys)" by fastforce
  obtain w' where r: "run_slices budgets ?s1 = ?s1\<lparr>wd := w', cleanup_seen := seen, startup_cleanup_keys := keys,
      maintenance := collected_job keys i bid c\<rparr>" "accepts_all w'" "tx_log (socks w' RuleSock) = tx_log (socks w RuleSock)"
    using collect_run [of ?s1 i ?seq bid c family bs budgets seen keys] assms(2,3,6,7) w(2,3) f by auto
  have "run_slices budgets s0 = run_slices budgets ?s1" using w(1) by (simp add: bd)
  moreover have "distinct keys \<and> set keys = listed_keys ?ctx family ?seq bs"
    using collect_fold [OF _ _ f [unfolded fold_collect_batch]] by (simp add: listed_keys_def)
  ultimately show ?thesis using r w(4) by simp
qed

text \<open>
  C13. The startup cleanup of a family removes the rules a previous run left behind. The slices send one dump request
  for the family and, however the kernel's answer is cut into packets, collect exactly the addresses of the rules in
  it with the daemon's priority and table, each once; then every sequence of rounds is at most as long
  as that list, each can be continued until all deletions are answered, and then exactly the listed
  rules are gone from the kernel, apart from deletions it refused. With the list done, or if it was empty, the
  job stands at the next family; when the list is done and no enabled family is left, it ends and asks for a resync.
\<close>

theorem startup_cleanup_removes_listed:
  assumes "maintenance s0 = StartupCleanupDumpCollect i None bid c" "startup_cleanup_keys s0 = []"
    "next_startup_cleanup_family i (opt_ipv6 (opts s0)) = Some (i, family)" "accepts_all (wd s0)" "inflight s0 = None"
    "rx_script (socks (wd s0) RuleSock) = map RecvOk bs"
    "rule_dump (rule_ctx s0) family (normalize_seq (seq_cell (wd s0))) bs" "length budgets = length bs"
    "listed = listed_keys (rule_ctx s0) family (normalize_seq (seq_cell (wd s0))) bs"
    "s = run_slices budgets s0" "(job_round ^^ n) (s, K, {}) (s', K', F)"
  shows "tx_log (socks (wd s) RuleSock) = tx_log (socks (wd s0) RuleSock) @
      [build_rule_dump_message family (normalize_seq (seq_cell (wd s0)))] \<and>
    (if listed = {} then maintenance s = StartupCleanupDumpCollect (i + 1) None bid c
     else n \<le> card listed \<and>
      (keeps_going (s', K', F) \<or>
       (\<forall>budget > 0. \<exists>budget' s2. slice_step budget s' = (CContinue, budget', s2) \<and>
          K' = K - (listed - F) \<and> owned_ips s2 = owned_ips s0 - (listed \<inter> K - F) \<and>
          (if next_startup_cleanup_family (i + 1) (opt_ipv6 (opts s0)) = None
           then maintenance s2 = Idle \<and> resync_requested s2
           else \<exists>bid c. maintenance s2 = StartupCleanupDumpCollect (i + 1) None bid c))))"
proof -
  obtain keys where k: "startup_cleanup_keys s = keys" "distinct keys" "set keys = listed"
      "maintenance s = collected_job keys i bid c" "inflight s = None" "owned_ips s = owned_ips s0" "accepts_all (wd s)"
      "opts s = opts s0" "tx_log (socks (wd s) RuleSock) = tx_log (socks (wd s0) RuleSock) @
      [build_rule_dump_message family (normalize_seq (seq_cell (wd s0)))]"
    using family_collected [OF assms(1-4,6-8)] assms(5,9,10) by auto
  show ?thesis
  proof (cases "listed = {}")
    case True
    with k(3,4,9) show ?thesis by (simp add: collected_job_def)
  next
    case False
    then have m: "maintenance s = StartupCleanupDumpApply 0 bid c None (i + 1)"
      using k(3,4) by (auto simp: collected_job_def)
    have len: "length keys = card listed" using k(2,3) distinct_card by metis
    have d: "distinct (startup_cleanup_keys s)" using k(1,2) by simp
    from startup_rounds [OF m d k(5,7) assms(11)] False k(9) show ?thesis
      unfolding k(1,3,6,8) len family_done_def by (simp only: if_False) blast
  qed
qed

text \<open>A kernel that lists one rule of a previous run, as that run requested it.\<close>

definition sample_rule :: bytes where
  "sample_rule = rule_message \<lparr>ctx_pref = 100, ctx_table_id = 200\<rparr> \<lparr>op_addr = IpV4 1, op_action = Add\<rparr> 1"

definition sample_collect :: sys where
  "sample_collect = sample_sys\<lparr>maintenance := StartupCleanupDumpCollect 0 None 0 CleanupSummary_default,
     wd := upd_sock RuleSock (\<lambda>k. k\<lparr>rx_script := [RecvOk [sample_rule], RecvOk [kernel_done 1]]\<rparr>) quiet_world\<rparr>"

lemma sample_rule_target:
  "rule_target \<lparr>ctx_pref = 100, ctx_table_id = 200\<rparr> AF_INET (frame_view sample_rule) = Some (IpV4 1)"
  "rule_readable \<lparr>ctx_pref = 100, ctx_table_id = 200\<rparr> AF_INET (frame_view sample_rule)"
  "dump_payload 1 (frame_view sample_rule)" "recv_batch [sample_rule]" "batch_views [sample_rule] = [frame_view sample_rule]"
proof -
  let ?v = "frame_view sample_rule"
  have v: "nv_data ?v = rule_body \<lparr>ctx_pref = 100, ctx_table_id = 200\<rparr> (IpV4 1)" "nlmsg_seq (nv_header ?v) = 1"
    "nlmsg_type (nv_header ?v) = RTM_NEWRULE"
    by (simp_all add: sample_rule_def rule_message_frame rule_header_def is_add_def)
  have p: "parse_cleanup_rule_addr ?v \<lparr>ctx_pref = 100, ctx_table_id = 200\<rparr> AF_INET = Inr (Some (IpV4 1))"
    by (simp add: parse_cleanup_own_rule [OF v(1)])
  then show "rule_target \<lparr>ctx_pref = 100, ctx_table_id = 200\<rparr> AF_INET ?v = Some (IpV4 1)"
    "rule_readable \<lparr>ctx_pref = 100, ctx_table_id = 200\<rparr> AF_INET ?v" "dump_payload 1 ?v"
    using v by (simp_all add: rule_target_def rule_readable_def dump_payload_def)
  have "nl_frame sample_rule" "length sample_rule \<le> ROUTE_EVENT_BUFFER_SIZE"
    by (simp_all add: sample_rule_def rule_message_frame) (simp add: rule_message_def)
  from frame_batch [OF this] show "recv_batch [sample_rule]" "batch_views [sample_rule] = [?v]" by simp_all
qed

lemma sample_rule_dump:
  "rule_dump \<lparr>ctx_pref = 100, ctx_table_id = 200\<rparr> AF_INET 1 [[sample_rule], [kernel_done 1]]"
  "listed_keys \<lparr>ctx_pref = 100, ctx_table_id = 200\<rparr> AF_INET 1 [[sample_rule], [kernel_done 1]] = {V4 1}"
proof -
  note st = sample_rule_target
  have k: "\<not> dump_payload 1 (frame_view (kernel_done 1))" "dump_end 1 (frame_view (kernel_done 1))"
    by (simp_all add: dump_payload_def dump_end_def kernel_done_frame)
  have "\<not> dump_error 1 (frame_view sample_rule)" "\<not> dump_end 1 (frame_view sample_rule)"
    using st(3) by (simp_all add: dump_payload_def dump_end_def dump_error_def)
  with st k done_batch(1,3) show "rule_dump \<lparr>ctx_pref = 100, ctx_table_id = 200\<rparr> AF_INET 1 [[sample_rule], [kernel_done 1]]"
    by (simp add: rule_dump_def rule_batch_def good_batch_def done_batch(2))
  show "listed_keys \<lparr>ctx_pref = 100, ctx_table_id = 200\<rparr> AF_INET 1 [[sample_rule], [kernel_done 1]] = {V4 1}"
    using st k by (auto simp: listed_keys_def done_batch(2) from_ip_eq)
qed

theorem startup_cleanup_removes_listed_witness:
  "\<exists>n s' K' F. (job_round ^^ n) (run_slices [1, 1] sample_collect, {V4 1, V4 7}, {}) (s', K', F) \<and>
     K' = {V4 1, V4 7} - ({V4 1} - F)"
proof -
  let ?s0 = sample_collect and ?bs = "[[sample_rule], [kernel_done 1]]"
  let ?Q = "\<lambda>(s' :: sys, K', F). K' = {V4 1, V4 7} - ({V4 1} - F)"
  have seq: "normalize_seq (seq_cell (wd ?s0)) = 1"
    by (simp add: sample_collect_def upd_sock_def quiet_world_def normalize_seq_def)
  have m: "maintenance ?s0 = StartupCleanupDumpCollect 0 None 0 CleanupSummary_default" "startup_cleanup_keys ?s0 = []"
    "next_startup_cleanup_family 0 (opt_ipv6 (opts ?s0)) = Some (0, AF_INET)" "accepts_all (wd ?s0)" "inflight ?s0 = None"
    "rx_script (socks (wd ?s0) RuleSock) = map RecvOk ?bs" "rule_ctx ?s0 = \<lparr>ctx_pref = 100, ctx_table_id = 200\<rparr>"
    by (simp_all add: sample_collect_def accepts_all_def upd_sock_def quiet_world_def next_startup_cleanup_family_eq)
      (simp add: sample_sys_def initial_state_def Daemon_new_def)
  have d: "rule_dump (rule_ctx ?s0) AF_INET (normalize_seq (seq_cell (wd ?s0))) ?bs"
    unfolding seq m(7) by (rule sample_rule_dump)
  have l: "{V4 1} = listed_keys (rule_ctx ?s0) AF_INET (normalize_seq (seq_cell (wd ?s0))) ?bs"
    unfolding seq m(7) by (rule sample_rule_dump(2) [symmetric])
  have "n \<le> 1 \<and> (keeps_going t \<or> ?Q t)" if r: "(job_round ^^ n) (run_slices [1, 1] ?s0, {V4 1, V4 7}, {}) t" for n t
  proof -
    obtain s' K' F where t: "t = (s', K', F)" by (metis prod_cases3)
    have len: "length [1, 1 :: usize] = length ?bs" by simp
    from startup_cleanup_removes_listed [OF m(1-6) d len l refl r [unfolded t]] show ?thesis
      unfolding t by (auto dest: spec [of _ 1])
  qed
  from rounds_end [OF this] show ?thesis by auto
qed

end
