(* ===== verification/Run_Bounds.thy ===== *)
theory Run_Bounds
  imports Invariants
begin

text \<open>
  How often the startup cleanup is tried, and the bounds of a run.

  Every failed startup cleanup is announced in the log with its number and whether it will be tried again.
  \<open>startup_failures\<close> reads these lines back; the invariant \<open>retries_ok\<close> ties them to the retry counter. Every handler
  but the maintenance slice leaves all of this alone (\<open>retry_view\<close>).
\<close>

subsection \<open>The failures in the log\<close>

fun startup_failure :: "log_call \<Rightarrow> (bool \<times> u32) option" where
  "startup_failure (LogLine lv name fs) =
     (if name = ''daemon.startup_cleanup_failed''
      then Some (map_of fs ''retry'' = Some (VBool True), case map_of fs ''attempt'' of Some (VU32 n) \<Rightarrow> n | _ \<Rightarrow> 0)
      else None)"
| "startup_failure (LogEvery lv key interval name fs) = None"

definition startup_failures :: "sys \<Rightarrow> (bool \<times> u32) list" where
  "startup_failures s = List.map_filter startup_failure (logged s)"

text \<open>Three attempts that are repeated and a last one.\<close>

definition all_failures :: "(bool \<times> u32) list" where
  "all_failures = [(True, 1), (True, 2), (True, 3), (False, 4)]"

definition retry_view :: "sys \<Rightarrow> (bool \<times> u32) list \<times> bool \<times> u8 \<times> MaintenanceJob" where
  "retry_view s = (startup_failures s, startup_cleanup_pending s, startup_cleanup_retry_count s, maintenance s)"

text \<open>A startup cleanup is under way or will be: the failures so far are as many as the counter says.\<close>

definition counted :: "sys \<Rightarrow> bool" where
  "counted s \<longleftrightarrow> unat (startup_cleanup_retry_count s) \<le> 3 \<and>
     startup_failures s = take (unat (startup_cleanup_retry_count s)) all_failures"

definition retries_ok :: "sys \<Rightarrow> bool" where
  "retries_ok s \<longleftrightarrow>
     (\<exists>n. startup_failures s = take n all_failures) \<and>
     (startup_cleanup_pending s \<or> startup_job (maintenance s) \<longrightarrow> counted s) \<and>
     \<not> (startup_cleanup_pending s \<and> startup_job (maintenance s))"

lemma retries_ok_view: "retry_view s' = retry_view s \<Longrightarrow> retries_ok s' = retries_ok s"
  by (simp add: retry_view_def retries_ok_def counted_def)

lemma retry_view_update [simp]:
  "retry_view (s\<lparr>wd := w\<rparr>) = retry_view s" "retry_view (s\<lparr>inflight := b\<rparr>) = retry_view s"
  "retry_view (s\<lparr>owned_ips := ow\<rparr>) = retry_view s" "retry_view (s\<lparr>pending := p\<rparr>) = retry_view s"
  "retry_view (s\<lparr>quiet_deadline := q\<rparr>) = retry_view s" "retry_view (s\<lparr>max_deadline := q\<rparr>) = retry_view s"
  "retry_view (s\<lparr>completed_batch := fin\<rparr>) = retry_view s" "retry_view (s\<lparr>batch_pool := bp\<rparr>) = retry_view s"
  "retry_view (s\<lparr>ack_tracker_reuse := tr\<rparr>) = retry_view s" "retry_view (s\<lparr>apply_scratch := sc\<rparr>) = retry_view s"
  "retry_view (s\<lparr>resync_requested := f\<rparr>) = retry_view s" "retry_view (s\<lparr>shutdown_requested := f\<rparr>) = retry_view s"
  "retry_view (s\<lparr>resync_compensate_pending := f\<rparr>) = retry_view s" "retry_view (s\<lparr>dropped_count := n\<rparr>) = retry_view s"
  "retry_view (s\<lparr>route_slots := k\<rparr>) = retry_view s" "retry_view (s\<lparr>route_ring_calm_streak := c\<rparr>) = retry_view s"
  "retry_view (s\<lparr>route_budget := rb\<rparr>) = retry_view s" "retry_view (s\<lparr>batch_id := bid\<rparr>) = retry_view s"
  by (simp_all add: retry_view_def startup_failures_def)

lemma retry_view_log [simp]: "startup_failure c = None \<Longrightarrow> retry_view (log c s) = retry_view s"
  by (simp add: retry_view_def startup_failures_def log_def List.map_filter_def)

lemma other_events [simp]:
  "startup_failure (emit_rule_batch e1) = None" "startup_failure (emit_rule_ack_failed e2) = None"
  "startup_failure (emit_netlink_addr_event e3) = None" "startup_failure (ack_failed_timeout bid q op) = None"
  "startup_failure (rule_op_debug bid q op r x) = None" "startup_failure (startup_cleanup_log sm ms) = None"
  by (simp_all add: emit_rule_batch_def emit_rule_ack_failed_def emit_netlink_addr_event_def ack_failed_timeout_def
      rule_op_debug_def startup_cleanup_log_def)

subsection \<open>Handlers that leave the startup cleanup alone\<close>

lemma retry_view_pool [simp]:
  "retry_view (snd (pool_pop s)) = retry_view s" "retry_view (pool_push ops s) = retry_view s"
  "retry_view (recycle_ops s) = retry_view s"
  by (simp_all add: pool_pop_def pool_push_def recycle_ops_def)

lemma commit_step_view: "retry_view (snd (commit_step bid q t iop cs)) = retry_view (snd cs)"
  by (cases iop; cases cs)
    (simp add: commit_step_def Let_def split: RuleAckClass.split RuleAction.split option.split)

lemma commit_steps_view: "retry_view (snd (fold (commit_step bid q t) iops cs)) = retry_view (snd cs)"
  by (induction iops arbitrary: cs) (simp_all add: commit_step_view)

lemma commit_ack_outcomes_view: "retry_view (snd (commit_ack_outcomes ctx ops t s)) = retry_view s"
proof -
  let ?c0 = "\<lparr>cn_add = 0, cn_del = 0, cn_noop = cc_noop_prefilter ctx, cn_failed = 0\<rparr>"
  obtain c s1 where "fold (commit_step (cc_batch_id ctx) (cc_first_seq ctx) t) (zip [0..<length ops] ops) (?c0, s) = (c, s1)"
    by fastforce
  with commit_steps_view [of "cc_batch_id ctx" "cc_first_seq ctx" t "zip [0..<length ops] ops" "(?c0, s)"] show ?thesis
    by (simp add: commit_ack_outcomes_def now_eq Let_def)
qed

lemma finish_inflight_batch_view: "retry_view (snd (finish_inflight_batch s)) = retry_view s"
proof (cases "inflight s")
  case (Some b)
  let ?ctx = "\<lparr>cc_batch_id = if_batch_id b, cc_first_seq = if_first_seq b, cc_started_at = if_started_at b,
    cc_input_count = if_input_count b, cc_noop_prefilter = if_noop_prefilter b\<rparr>"
  obtain r s1 where c: "commit_ack_outcomes ?ctx (if_ops b) (if_tracker b) (s\<lparr>inflight := None\<rparr>) = (r, s1)" by fastforce
  have "retry_view s1 = retry_view s"
    using commit_ack_outcomes_view [of ?ctx "if_ops b" "if_tracker b" "s\<lparr>inflight := None\<rparr>"] c by simp
  with Some c show ?thesis
    by (cases r) (simp_all add: finish_inflight_batch_def log_batch_result_def Let_def)
qed (simp add: finish_inflight_batch_def)

lemma drain_view: "retry_view (snd (drain_rule_acks_once s)) = retry_view s"
  by (auto simp: drain_rule_acks_once_def finish_inflight_batch_view Let_def split: option.split prod.split sum.split)

lemma signals_view: "retry_view (snd (handle_signals reads s)) = retry_view s"
  by (induction reads s rule: handle_signals.induct) simp_all

lemma fold_log_view:
  "(\<And>x. startup_failure (c x) = None) \<Longrightarrow> retry_view (fold (\<lambda>x s. if P x then s else log (c x) s) xs s) = retry_view s"
  by (induction xs arbitrary: s) simp_all

lemma timeout_view: "retry_view (handle_ack_timeout s) = retry_view s"
proof (cases "inflight s")
  case (Some b)
  have "retry_view (fold (\<lambda>(idx, op) s. if seen_at (if_tracker b) idx then s
      else log (ack_failed_timeout (if_batch_id b) (seq_with_offset (if_first_seq b) idx) op) s) xs s1) = retry_view s1" for xs s1
    using fold_log_view [of "\<lambda>x. ack_failed_timeout (if_batch_id b) (seq_with_offset (if_first_seq b) (fst x)) (snd x)"
        "\<lambda>x. seen_at (if_tracker b) (fst x)" xs s1]
    by (simp add: case_prod_unfold)
  with Some show ?thesis
    by (simp add: handle_ack_timeout_def queue_compensate_resync_def now_eq Let_def)
qed (simp add: handle_ack_timeout_def)

lemma start_batch_view: "retry_view (snd (start_batch owner bid n k ops s)) = retry_view s"
  by (auto simp: start_batch_def now_eq Let_def split: prod.split sum.split)

lemma pending_taken_view: "retry_view (pending_taken ho s) = retry_view s"
  by (simp add: pending_taken_def now_eq Let_def)

lemma flush_view: "retry_view (snd (start_pending_batch ho s)) = retry_view s"
  by (simp add: start_pending_batch_eq start_batch_view pending_taken_view Let_def)

lemma route_items_view: "retry_view (snd (route_items items st)) = retry_view (snd st)"
  by (induction items st rule: route_items.induct) (auto simp: Let_def split: sum.split option.split)

lemma route_packets_view: "retry_view (snd (route_packets pkts st)) = retry_view (snd st)"
  by (induction pkts st rule: route_packets.induct) (simp_all add: route_items_view)

lemma route_loop_view: "retry_view (snd (snd (route_loop st))) = retry_view (snd st)"
proof (induction st rule: route_loop.induct)
  case (1 a s)
  then show ?case
    by (subst route_loop.simps) (auto simp: route_packets_view Let_def split: prod.split sum.split)
qed

lemma note_view [simp]:
  "retry_view (note_touched a s) = retry_view s" "retry_view (shrink_ring a s) = retry_view s"
  "retry_view (note_parse_failed a s) = retry_view s"
  by (simp_all add: note_touched_def shrink_ring_def note_parse_failed_def note_event_drop_def now_eq Let_def)

lemma route_view: "retry_view (snd (handle_route_events s)) = retry_view s"
proof -
  let ?a = "\<lparr>ra_packets_left = budget_current (route_budget s), ra_processed = 0, ra_budget_hit = False,
               ra_ring_full = False, ra_parse_failed = 0, ra_touched = False\<rparr>"
  obtain q a1 s1 where "route_loop (?a, s) = (q, a1, s1)" by (metis prod_cases3)
  with route_loop_view [of "(?a, s)"] show ?thesis
    by (cases q) (simp_all add: handle_route_events_def Let_def)
qed

subsection \<open>The maintenance slice\<close>

lemma counted_update [simp]:
  "counted (s\<lparr>wd := w\<rparr>) = counted s" "counted (s\<lparr>maintenance := job\<rparr>) = counted s"
  "counted (s\<lparr>startup_cleanup_pending := p\<rparr>) = counted s" "counted (s\<lparr>startup_cleanup_retry_deadline := d\<rparr>) = counted s"
  "counted (s\<lparr>startup_cleanup_started_at := t\<rparr>) = counted s" "counted (s\<lparr>startup_cleanup_keys := ks\<rparr>) = counted s"
  "counted (s\<lparr>cleanup_seen := sn\<rparr>) = counted s" "counted (s\<lparr>resync_requested := f\<rparr>) = counted s"
  by (simp_all add: counted_def startup_failures_def)

lemma startup_failures_update [simp]:
  "startup_failures (s\<lparr>wd := w\<rparr>) = startup_failures s" "startup_failures (s\<lparr>maintenance := job\<rparr>) = startup_failures s"
  "startup_failures (s\<lparr>startup_cleanup_pending := p\<rparr>) = startup_failures s"
  "startup_failures (s\<lparr>startup_cleanup_retry_deadline := d\<rparr>) = startup_failures s"
  "startup_failures (s\<lparr>startup_cleanup_started_at := t\<rparr>) = startup_failures s"
  "startup_failures (s\<lparr>startup_cleanup_keys := ks\<rparr>) = startup_failures s"
  "startup_failures (s\<lparr>startup_cleanup_retry_count := n\<rparr>) = startup_failures s"
  "startup_failures (s\<lparr>resync_requested := f\<rparr>) = startup_failures s"
  "startup_failures (s\<lparr>batch_id := bid\<rparr>) = startup_failures s" "startup_failures (s\<lparr>cleanup_seen := sn\<rparr>) = startup_failures s"
  "startup_failures (s\<lparr>tracked_keys := tk\<rparr>) = startup_failures s" "startup_failures (s\<lparr>owned_ips := ow\<rparr>) = startup_failures s"
  "startup_failures (s\<lparr>shutdown_cleanup_done := g\<rparr>) = startup_failures s"
  "startup_failures (s\<lparr>shutdown_cleanup := sc\<rparr>) = startup_failures s"
  by (simp_all add: startup_failures_def)

lemma startup_failures_log:
  "startup_failures (log c s) = startup_failures s @ (case startup_failure c of None \<Rightarrow> [] | Some f \<Rightarrow> [f])"
  by (simp add: startup_failures_def log_def List.map_filter_def split: option.split)

text \<open>Before a step of the startup cleanup: it is not pending, and its failures are counted.\<close>

definition trying :: "sys \<Rightarrow> bool" where
  "trying s \<longleftrightarrow> counted s \<and> \<not> startup_cleanup_pending s"

lemma trying_job: "trying s \<Longrightarrow> retries_ok (s\<lparr>maintenance := job\<rparr>)"
  by (auto simp: trying_def retries_ok_def counted_def)

lemma trying_view: "retry_view s' = retry_view s \<Longrightarrow> trying s' = trying s"
  by (simp add: trying_def counted_def retry_view_def)

lemma log_startup_fields [simp]:
  "startup_cleanup_pending (log c s) = startup_cleanup_pending s" "maintenance (log c s) = maintenance s"
  "startup_cleanup_retry_count (log c s) = startup_cleanup_retry_count s"
  by (simp_all add: log_def)

lemma schedule_retry_fields:
  fixes s e p
  defines "s' \<equiv> schedule_startup_cleanup_retry e p s" and "n \<equiv> u8_sat_inc (startup_cleanup_retry_count s)"
  shows "startup_failures s' = startup_failures s @ [(n \<le> 3, ucast n)]" "startup_cleanup_retry_count s' = n"
    "startup_cleanup_pending s' \<longleftrightarrow> n \<le> 3" "maintenance s' = Idle"
  by (simp_all add: s'_def n_def schedule_startup_cleanup_retry_def now_eq Let_def startup_failures_log)

lemma retry_scheduled:
  assumes "trying s"
  shows "retries_ok (schedule_startup_cleanup_retry e p s)"
proof -
  let ?n = "startup_cleanup_retry_count s"
  have "unat ?n \<le> 3" and f: "startup_failures s = take (unat ?n) all_failures"
    using assms by (simp_all add: trying_def counted_def)
  then have "unat ?n = unat (0 :: u8) \<or> unat ?n = unat (1 :: u8) \<or> unat ?n = unat (2 :: u8) \<or> unat ?n = unat (3 :: u8)" by auto
  then have "?n = 0 \<or> ?n = 1 \<or> ?n = 2 \<or> ?n = 3" unfolding word_unat_eq_iff .
  then have "\<exists>m. startup_failures s @ [(u8_sat_inc ?n \<le> 3, ucast (u8_sat_inc ?n))] = take m all_failures \<and>
      (u8_sat_inc ?n \<le> 3 \<longrightarrow> m = unat (u8_sat_inc ?n) \<and> m \<le> 3)"
    using f
    by (elim disjE)
      (rule exI [of _ 1] exI [of _ 2] exI [of _ 3] exI [of _ 4], simp add: all_failures_def u8_sat_inc_def word_le_nat_alt)+
  then show ?thesis unfolding retries_ok_def counted_def schedule_retry_fields by auto
qed

lemma startup_finished:
  assumes "trying s"
  shows "retries_ok (finish_startup_cleanup bid c s)"
proof -
  let ?s' = "finish_startup_cleanup bid c s"
  have "startup_failures ?s' = startup_failures s" "startup_cleanup_pending ?s' = startup_cleanup_pending s" "maintenance ?s' = Idle"
    by (simp_all add: finish_startup_cleanup_def now_eq Let_def startup_failures_log split: option.split)
  with assms show ?thesis by (auto simp: retries_ok_def trying_def counted_def)
qed

lemma start_maintenance_view: "retry_view (snd (start_maintenance_batch bid ops s)) = retry_view s"
  by (simp add: start_maintenance_batch_def start_batch_view)

lemma await_view: "retry_view (snd (await_batch wt s)) = retry_view s"
  by (auto simp: await_batch_def split: option.split)

lemma trying_log_free [simp]:
  "trying (s\<lparr>wd := w\<rparr>) = trying s" "trying (s\<lparr>cleanup_seen := sn\<rparr>) = trying s" "trying (s\<lparr>startup_cleanup_keys := ks\<rparr>) = trying s"
  "trying (s\<lparr>maintenance := job\<rparr>) = trying s"
  by (simp_all add: trying_def)

fun retries_after :: "branch \<Rightarrow> bool" where
  "retries_after (CReturn e, b, s) \<longleftrightarrow> True"
| "retries_after (_, b, s) \<longleftrightarrow> retries_ok s"

lemma collect_retries: "trying s \<Longrightarrow> retries_after (collect_branch i q bid c b s)"
  by (auto simp: collect_branch_def Let_def trying_job retry_scheduled startup_finished
      split: option.split prod.split sum.split CleanupDumpPoll.split)

lemma dump_apply_retries:
  assumes "trying s"
  shows "retries_after (dump_apply_branch off bid c wt nf b s)"
proof -
  obtain q s1 where aw: "await_batch wt s = (q, s1)" by fastforce
  have s1: "trying s1" using assms trying_view [OF await_view [of wt s]] aw by simp
  show ?thesis
  proof (cases q)
    case (Inl u)
    with aw s1 show ?thesis by (simp add: dump_apply_branch_def trying_job)
  next
    case (Inr d)
    let ?s2 = "snd (pool_pop s1)" and ?c = "case d of None \<Rightarrow> c | Some r \<Rightarrow> add_summary r c"
    have s2: "trying ?s2" using s1 trying_view [of ?s2 s1] by simp
    obtain off' chunk where f: "fill_tracked_cleanup_chunk (startup_cleanup_keys ?s2)
        (chunk_size (spend d b) ?s2) (off, []) = (off', chunk)" by fastforce
    obtain q' s' where sm: "start_maintenance_batch (bid + 1) chunk ?s2 = (q', s')" by fastforce
    have s': "trying s'" using s2 trying_view [OF start_maintenance_view [of "bid + 1" chunk ?s2]] sm by simp
    have fin: "retries_ok (pool_push [] (finish_startup_cleanup bid ?c (?s2\<lparr>startup_cleanup_keys := []\<rparr>)))"
      "retries_ok (pool_push [] (?s2\<lparr>startup_cleanup_keys := [], batch_id := bid,
         maintenance := StartupCleanupDumpCollect nf None bid ?c\<rparr>))"
      using s2 startup_finished trying_job [of "?s2\<lparr>startup_cleanup_keys := [], batch_id := bid\<rparr>"]
        trying_view [of "?s2\<lparr>startup_cleanup_keys := [], batch_id := bid\<rparr>" "?s2\<lparr>startup_cleanup_keys := []\<rparr>"]
      by (simp_all add: retries_ok_view [OF retry_view_pool(2)])
    show ?thesis
      using aw Inr f sm s' fin
      by (cases q') (simp_all add: dump_apply_branch_def pool_pop_def Let_def retry_scheduled trying_job)
  qed
qed

text \<open>The other jobs change neither the failures nor whether the startup cleanup is pending.\<close>

definition retry_core :: "sys \<Rightarrow> (bool \<times> u32) list \<times> bool \<times> u8" where
  "retry_core s = (startup_failures s, startup_cleanup_pending s, startup_cleanup_retry_count s)"

lemma retry_core_view: "retry_view s' = retry_view s \<Longrightarrow> retry_core s' = retry_core s"
  by (simp add: retry_core_def retry_view_def)

lemma retry_core_job [simp]: "retry_core (s\<lparr>maintenance := job\<rparr>) = retry_core s"
  by (simp add: retry_core_def)

lemma retries_ok_core:
  "retries_ok s \<Longrightarrow> retry_core s' = retry_core s \<Longrightarrow> \<not> startup_job (maintenance s') \<Longrightarrow> retries_ok s'"
  by (auto simp: retries_ok_def retry_core_def counted_def)

lemma idle_retries:
  assumes "retries_ok s" "maintenance s = Idle"
  shows "retries_after (idle_branch b s)"
proof -
  have core: "retries_ok s'" if "retry_core s' = retry_core s" "\<not> startup_job (maintenance s')" for s'
    using retries_ok_core [OF assms(1) that] .
  have start: "retries_ok (s\<lparr>startup_cleanup_pending := False, startup_cleanup_retry_deadline := None, wd := w,
      startup_cleanup_started_at := t, startup_cleanup_keys := [], maintenance := job\<rparr>)"
    if "startup_cleanup_pending s" for w t job
    using assms(1) that by (auto simp: retries_ok_def)
  show ?thesis
    using assms(2) start
    by (auto simp: idle_branch_def prepare_shutdown_cleanup_job_def now_eq Let_def retry_core_def
        intro!: core split: option.split)
qed

lemma resync_build_retries:
  assumes "retries_ok s" "maintenance s = Idle"
  shows "retries_after (resync_build_branch bid b s)"
proof -
  obtain r s1 where bp: "build_resync_plan s = (r, s1)" by fastforce
  have "retry_core s1 = retry_core s"
    using bp by (auto simp: build_resync_plan_def Let_def retry_core_def startup_failures_def split: prod.splits sum.splits)
  then have "retries_ok s'" if "retry_core s' = retry_core s1" "\<not> startup_job (maintenance s')" for s'
    using retries_ok_core [OF assms(1)] that by simp
  then show ?thesis
    using bp by (cases r) (simp_all add: resync_build_branch_def Let_def retry_core_def startup_failures_log)
qed

lemma chunk_started_core:
  assumes "await_batch wt s = (q, s1)"
  shows "retry_core s1 = retry_core s" "retry_core (snd (pool_pop s1)) = retry_core s"
    "retry_core (snd (start_maintenance_batch bid chunk (snd (pool_pop s1)))) = retry_core s"
proof -
  have 1: "retry_view s1 = retry_view s" using await_view [of wt s] assms by simp
  show "retry_core s1 = retry_core s" "retry_core (snd (pool_pop s1)) = retry_core s"
    "retry_core (snd (start_maintenance_batch bid chunk (snd (pool_pop s1)))) = retry_core s"
    by (rule retry_core_view, simp add: 1 start_maintenance_view)+
qed

lemma retry_core_update [simp]:
  "retry_core (pool_push ops s) = retry_core s" "retry_core (s\<lparr>batch_id := bid\<rparr>) = retry_core s"
  "retry_core (s\<lparr>resync_compensate_pending := f\<rparr>) = retry_core s" "retry_core (s\<lparr>shutdown_cleanup_done := g\<rparr>) = retry_core s"
  "retry_core (s\<lparr>shutdown_cleanup := sc\<rparr>) = retry_core s" "maintenance (pool_push ops s) = maintenance s"
  by (simp_all add: retry_core_def startup_failures_def pool_push_def)

lemma retry_core_log [simp]: "startup_failure c = None \<Longrightarrow> retry_core (log c s) = retry_core s"
  by (rule retry_core_view) simp

lemma resync_apply_retries:
  assumes "retries_ok s"
  shows "retries_after (resync_apply_branch ti ci bid m wt b s)"
proof -
  obtain q s1 where aw: "await_batch wt s = (q, s1)" by fastforce
  note core = retries_ok_core [OF assms]
  show ?thesis
  proof (cases q)
    case (Inl u)
    with aw chunk_started_core [OF aw] show ?thesis by (simp add: resync_apply_branch_def core)
  next
    case (Inr d)
    obtain s2 where pop: "pool_pop s1 = ([], s2)" by (simp add: pool_pop_def)
    obtain ti' ci' chunk where f: "fill_resync_chunk (target_keys s2) (current_keys s2)
        (chunk_size (spend d b) s2) (ti, ci, []) = (ti', ci', chunk)" by (metis prod_cases3)
    obtain q' s' where sm: "start_maintenance_batch (bid + 1) chunk s2 = (q', s')" by fastforce
    have "retry_core s' = retry_core s" "retry_core s2 = retry_core s"
      using chunk_started_core(2) [OF aw] chunk_started_core(3) [OF aw, of "bid + 1" chunk] sm pop by simp_all
    then show ?thesis
      using aw Inr f sm unfolding resync_apply_branch_def
      by (cases q') (simp_all add: pop log_resync_summary_def Let_def core)
  qed
qed

lemma cleanup_tracked_retries:
  assumes "retries_ok s"
  shows "retries_after (cleanup_tracked_branch off bid c wt b s)"
proof -
  obtain q s1 where aw: "await_batch wt s = (q, s1)" by fastforce
  note core = retries_ok_core [OF assms]
  show ?thesis
  proof (cases q)
    case (Inl u)
    with aw chunk_started_core [OF aw] show ?thesis by (simp add: cleanup_tracked_branch_def core)
  next
    case (Inr d)
    obtain s2 where pop: "pool_pop s1 = ([], s2)" by (simp add: pool_pop_def)
    obtain off' chunk where f: "fill_tracked_cleanup_chunk (tracked_keys s2)
        (chunk_size (spend d b) s2) (off, []) = (off', chunk)" by fastforce
    obtain q' s' where sm: "start_maintenance_batch (bid + 1) chunk s2 = (q', s')" by fastforce
    have "retry_core s' = retry_core s" "retry_core s2 = retry_core s"
      using chunk_started_core(2) [OF aw] chunk_started_core(3) [OF aw, of "bid + 1" chunk] sm pop by simp_all
    then show ?thesis
      using aw Inr f sm unfolding cleanup_tracked_branch_def
      by (cases q') (simp_all add: pop Let_def core)
  qed
qed

lemma slice_step_retries:
  assumes "retries_ok s"
  shows "retries_after (slice_step b s)"
proof -
  have idle: "retries_ok (s\<lparr>maintenance := Idle\<rparr>)" using assms by (rule retries_ok_core) simp_all
  have trying: "trying (s\<lparr>maintenance := Idle\<rparr>)" if "startup_job (maintenance s)"
    using assms that by (auto simp: retries_ok_def trying_def)
  show ?thesis
    using idle_retries [OF idle] resync_build_retries [OF idle] resync_apply_retries [OF idle]
      cleanup_tracked_retries [OF idle] collect_retries dump_apply_retries trying
    by (cases "maintenance s") (simp_all add: slice_step_def)
qed

interpretation retry_slices: slice_invariant retries_ok retries_ok
proof
  show "(c = CContinue \<longrightarrow> retries_ok s') \<and> (c = CBreak \<longrightarrow> retries_ok s')"
    if "retries_ok s" "slice_step b s = (c, b', s')" for s b c b' s'
    using slice_step_retries [OF that(1), of b] that(2) by (cases c) simp_all
  show "retries_ok (s\<lparr>wd := w\<rparr>)" if "retries_ok s" for s w
    using that retries_ok_view [of "s\<lparr>wd := w\<rparr>" s] by simp
qed

interpretation retries: daemon_invariant retries_ok
proof (unfold_locales, goal_cases)
  case (1 s w)
  then show ?case using retries_ok_view [of "s\<lparr>wd := w\<rparr>" s] by simp
next
  case (2 s u s')
  then show ?case using retries_ok_view [OF route_view [of s]] by simp
next
  case (3 s u s')
  then show ?case using retries_ok_view [OF drain_view [of s]] by simp
next
  case (4 s reads u s')
  then show ?case using retries_ok_view [OF signals_view [of reads s]] by simp
next
  case (5 s)
  then show ?case by (simp add: retries_ok_view [OF timeout_view])
next
  case (6 s ho b s')
  then show ?case using retries_ok_view [OF flush_view [of ho s]] by simp
next
  case (7 s u s')
  from 7(1,3) show ?case by (rule retry_slices.kept_slice)
qed

subsection \<open>The bounds of a run\<close>

lemma initial_retries_ok: "retries_ok (initial_state (Daemon_new options) w)"
  by (simp add: retries_ok_def counted_def startup_failures_def initial_state_def Daemon_new_def List.map_filter_def)

text \<open>
  C7. The running daemon stays within its bounds. Along every run the pending events have distinct addresses and
  a quiet deadline, and from any time at or after it they are due for a flush; the batch in flight has a
  consistent tracker and a deadline five seconds after its start. The startup cleanup fails at most four times: the
  failures in the log are numbered from 1, the first three announce a retry and the fourth does not, and while
  a startup cleanup is pending or under way there are as many of them as the counter says, three at most. The receive ring
  keeps between 8 and 32 slots, the drain budget its bounds and the buffer pool at most 8 buffers.
\<close>

theorem run_stays_in_bounds:
  assumes "hash_order ho" "event_loop ho se inps (initial_state (Daemon_new options) w) = (Inr x, s)"
  shows "distinct (map fst (pending s)) \<and>
    (pending s \<noteq> [] \<longrightarrow> (\<exists>q. quiet_deadline s = Some q \<and> (\<forall>t \<ge> q. should_flush_pending s t False))) \<and>
    (\<forall>b. inflight s = Some b \<longrightarrow> tracker_ok (length (if_ops b)) (if_tracker b) \<and>
       if_ack_deadline b = if_started_at b + ACK_WAIT_TIMEOUT) \<and>
    (\<exists>n. startup_failures s = take n [(True, 1), (True, 2), (True, 3), (False, 4)] \<and>
       (startup_cleanup_pending s \<or> startup_job (maintenance s) \<longrightarrow> n = unat (startup_cleanup_retry_count s) \<and> n \<le> 3)) \<and>
    ROUTE_RING_MIN_SLOTS \<le> route_slots s \<and> route_slots s \<le> ROUTE_RING_MAX_SLOTS \<and>
    route_budget_ok (route_budget s) \<and> length (batch_pool s) \<le> 8 \<and> finite (owned_ips s)"
proof -
  have ok: "sys_ok s" using running.inv_run [OF initial_state_ok assms] .
  have "retries_ok s" using retries.inv_run [OF initial_retries_ok assms] .
  then have "\<exists>n. startup_failures s = take n [(True, 1), (True, 2), (True, 3), (False, 4)] \<and>
       (startup_cleanup_pending s \<or> startup_job (maintenance s) \<longrightarrow> n = unat (startup_cleanup_retry_count s) \<and> n \<le> 3)"
    unfolding retries_ok_def counted_def all_failures_def by blast
  moreover have "pending s \<noteq> [] \<longrightarrow> (\<exists>q. quiet_deadline s = Some q \<and> (\<forall>t \<ge> q. should_flush_pending s t False))"
    using ok by (auto simp: sys_ok_def should_flush_pending_def)
  ultimately show ?thesis using ok by (simp add: sys_ok_def inflight_ok_def)
qed

text \<open>
  A world in which the first request on the rule socket is refused and the clock jumps a second ahead after the
  failure, which ends the maintenance slice.
\<close>

definition failing_world :: world where
  "failing_world = upd_sock RuleSock (\<lambda>k. k\<lparr>tx_script := [Inl \<lparr>raw_os_error = Some 1, io_kind = OtherKind, io_text = []\<rparr>]\<rparr>)
     (quiet_world\<lparr>times := [0, 0, 0, 0, 0, 0, 0, 0, secs 1]\<rparr>)"

lemma failing_turn:
  "\<exists>s. event_loop id None [EpollEvents [] None] (initial_state (Daemon_new sample_opts) failing_world) = (Inr False, s) \<and>
     startup_cleanup_pending s \<and> startup_cleanup_retry_count s = 1"
proof -
  have "next_startup_cleanup_family 0 True = Some (0, AF_INET)"
    by (simp add: next_startup_cleanup_family_def next_family_loop.simps)
  then show ?thesis
    by (simp add: event_loop_def next_deadline_def arm_timer_def loop_turn_def drive_reactor_def drive_maintenance_slice_def
      slice_loop.simps slice_step_def idle_branch_def collect_branch_def initial_state_def Daemon_new_def
      sample_opts_def now_eq instant_now_def failing_world_def quiet_world_def upd_sock_def next_seq_def reserve_seq_block_def
      start_cleanup_dump_family_def sock_send_def schedule_startup_cleanup_retry_def log_def Let_def
      should_flush_pending_def loop_exit_def min_deadline_def u8_sat_inc_def)
qed

theorem run_stays_in_bounds_witness:
  "\<exists>s. event_loop id None [EpollEvents [] None] (initial_state (Daemon_new sample_opts) failing_world) = (Inr False, s) \<and>
     startup_failures s = [(True, 1)] \<and> route_slots s \<le> ROUTE_RING_MAX_SLOTS"
proof -
  obtain s where s: "event_loop id None [EpollEvents [] None] (initial_state (Daemon_new sample_opts) failing_world) = (Inr False, s)"
    "startup_cleanup_pending s" "startup_cleanup_retry_count s = 1" using failing_turn by blast
  have "hash_order (id :: (IpKey \<times> RuleAction) list \<Rightarrow> _)" by (simp add: hash_order_def)
  from run_stays_in_bounds [OF this s(1)] s show ?thesis by auto
qed

end
