(* ===== verification/Setup.thy ===== *)
theory Setup
  imports Socket
begin

unbundle bit_operations_syntax

text \<open>
  Opening descriptors: \<open>open_route\<close>, \<open>open_rule\<close> and the socket options of \<^verbatim>\<open>src/netlink/socket.rs\<close>, and
  \<open>setup_signalfd\<close>, \<open>setup_timerfd\<close>, \<open>setup_epoll\<close> of \<^verbatim>\<open>src/daemon/service/lifecycle.rs\<close>.

  The state is the process's side of the kernel: the open descriptors, their status flags, the blocked
  signals and the calls made so far. Which calls fail, and how, is an argument: \<open>os_fail n\<close> is the failure
  of the \<open>n\<close>-th call. A new descriptor is the lowest number that is not open, as the system promises.
\<close>

datatype syscall =
    SysSocket
  | SysBind int u32
  | SysSetsockopt int int int int
  | SysGetfl int
  | SysSetfl int int
  | SysClose int
  | SysSigemptyset
  | SysSigaddset int
  | SysSigprocmask "int list"
  | SysSignalfd "int list"
  | SysTimerfd
  | SysEpollCreate
  | SysEpollAdd int int u64

record os =
  os_fail :: "nat \<Rightarrow> io_error option"
  os_calls :: "syscall list"
  os_open :: "int list"
  os_flags :: "int \<Rightarrow> int"
  os_blocked :: "int set"

abbreviation (input) O_RDWR :: int where "O_RDWR \<equiv> 2"
abbreviation (input) O_NONBLOCK :: int where "O_NONBLOCK \<equiv> 2048"
abbreviation (input) SOL_SOCKET :: int where "SOL_SOCKET \<equiv> 1"
abbreviation (input) SO_RCVBUF :: int where "SO_RCVBUF \<equiv> 8"
abbreviation (input) SOL_NETLINK :: int where "SOL_NETLINK \<equiv> 270"
abbreviation (input) NETLINK_EXT_ACK :: int where "NETLINK_EXT_ACK \<equiv> 11"
abbreviation (input) ROUTE_SOCKET_RECV_BUF :: int where "ROUTE_SOCKET_RECV_BUF \<equiv> 4 * 1024 * 1024"
abbreviation (input) EPOLL_TAG_ROUTE :: u64 where "EPOLL_TAG_ROUTE \<equiv> 1"
abbreviation (input) EPOLL_TAG_SIGNAL :: u64 where "EPOLL_TAG_SIGNAL \<equiv> 2"
abbreviation (input) EPOLL_TAG_TIMER :: u64 where "EPOLL_TAG_TIMER \<equiv> 3"
abbreviation (input) EPOLL_TAG_RULE :: u64 where "EPOLL_TAG_RULE \<equiv> 4"

subsection \<open>Calls\<close>

definition call :: "syscall \<Rightarrow> (os, io_error, unit) est" where
  "call c st =
     (case os_fail st (length (os_calls st)) of Some e \<Rightarrow> Inl e | None \<Rightarrow> Inr (), st\<lparr>os_calls := os_calls st @ [c]\<rparr>)"

definition lowest_free :: "int list \<Rightarrow> int" where
  "lowest_free fds = hd (filter (\<lambda>fd. fd \<notin> set fds) (map int [0..<Suc (length fds)]))"

definition new_fd :: "syscall \<Rightarrow> int \<Rightarrow> (os, io_error, int) est" where
  "new_fd c flags st =
     (case call c st of
        (Inl e, st) \<Rightarrow> (Inl e, st)
      | (Inr _, st) \<Rightarrow>
          let fd = lowest_free (os_open st)
          in (Inr fd, st\<lparr>os_open := fd # os_open st, os_flags := (os_flags st)(fd := flags)\<rparr>))"

text \<open>The results of closing are ignored; the descriptor is released in any case.\<close>

definition close_fd :: "int \<Rightarrow> os \<Rightarrow> os" where
  "close_fd fd st = (snd (call (SysClose fd) st))\<lparr>os_open := filter (\<lambda>x. x \<noteq> fd) (os_open st)\<rparr>"

definition map_error :: "('e \<Rightarrow> 'f) \<Rightarrow> ('s, 'e, 'a) est \<Rightarrow> ('s, 'f, 'a) est" where
  "map_error f m st = (case m st of (Inl e, st) \<Rightarrow> (Inl (f e), st) | (Inr a, st) \<Rightarrow> (Inr a, st))"

subsection \<open>Netlink sockets\<close>

definition set_sockopt_i32 :: "int \<Rightarrow> int \<Rightarrow> int \<Rightarrow> int \<Rightarrow> (os, io_error, unit) est" where
  "set_sockopt_i32 fd level name v = map_error map_required_syscall_io (call (SysSetsockopt fd level name v))"

definition set_fd_nonblocking :: "int \<Rightarrow> (os, io_error, unit) est" where
  "set_fd_nonblocking fd st =
     (case call (SysGetfl fd) st of
        (Inl e, st) \<Rightarrow> (Inl (map_required_syscall_io e), st)
      | (Inr _, st) \<Rightarrow>
          let flags = os_flags st fd OR O_NONBLOCK in
          (case call (SysSetfl fd flags) st of
             (Inl e, st) \<Rightarrow> (Inl (map_required_syscall_io e), st)
           | (Inr _, st) \<Rightarrow> (Inr (), st\<lparr>os_flags := (os_flags st)(fd := flags)\<rparr>)))"

definition set_common_recv_opts :: "int \<Rightarrow> (os, io_error, unit) est" where
  "set_common_recv_opts fd =
     (if fd < 0 then (\<lambda>st. (Inl (io_error_new InvalidInput ''invalid socket fd''), st))
      else est_bind (set_sockopt_i32 fd SOL_SOCKET SO_RCVBUF ROUTE_SOCKET_RECV_BUF) (\<lambda>_. set_fd_nonblocking fd))"

definition set_route_recv_opts :: "int \<Rightarrow> (os, io_error, unit) est" where
  "set_route_recv_opts fd = set_common_recv_opts fd"

definition set_rule_recv_opts :: "int \<Rightarrow> (os, io_error, unit) est" where
  "set_rule_recv_opts fd =
     est_bind (set_common_recv_opts fd) (\<lambda>_. set_sockopt_i32 fd SOL_NETLINK NETLINK_EXT_ACK 1)"

definition open_route :: "bool \<Rightarrow> (os, io_error, int) est" where
  "open_route ipv6_enabled st =
     (case new_fd SysSocket O_RDWR st of
        (Inl e, st) \<Rightarrow> (Inl (map_required_syscall_io e), st)
      | (Inr fd, st) \<Rightarrow>
          let groups = route_addr_groups ipv6_enabled in
          (case call (SysBind fd groups) st of
             (Inl e, st) \<Rightarrow> (Inl (map_required_syscall_io e), close_fd fd st)
           | (Inr _, st) \<Rightarrow>
               (case set_route_recv_opts fd st of
                  (Inl e, st) \<Rightarrow> (Inl e, st)
                | (Inr _, st) \<Rightarrow> (Inr fd, st))))"

definition open_rule :: "(os, io_error, int) est" where
  "open_rule st =
     (case new_fd SysSocket O_RDWR st of
        (Inl e, st) \<Rightarrow> (Inl (map_required_syscall_io e), st)
      | (Inr fd, st) \<Rightarrow>
          (case call (SysBind fd 0) st of
             (Inl e, st) \<Rightarrow> (Inl (map_required_syscall_io e), close_fd fd st)
           | (Inr _, st) \<Rightarrow>
               (case set_rule_recv_opts fd st of
                  (Inl e, st) \<Rightarrow> (Inl e, st)
                | (Inr _, st) \<Rightarrow> (Inr fd, st))))"

text \<open>\<open>Drop\<close> of a socket.\<close>

definition drop_socket :: "int \<Rightarrow> os \<Rightarrow> os" where
  "drop_socket fd st = (if fd \<ge> 0 then close_fd fd st else st)"

subsection \<open>Signals, timer, epoll\<close>

definition required_call :: "syscall \<Rightarrow> (os, AppError, unit) est" where
  "required_call c = map_error from_required_syscall_io (call c)"

definition setup_signalfd :: "(os, AppError, int) est" where
  "setup_signalfd =
     est_bind (required_call SysSigemptyset) (\<lambda>_.
     est_bind (required_call (SysSigaddset SIGTERM)) (\<lambda>_.
     est_bind (required_call (SysSigaddset SIGINT)) (\<lambda>_.
     est_bind (required_call (SysSigaddset SIGUSR1)) (\<lambda>_.
     let sigs = [SIGTERM, SIGINT, SIGUSR1] in
     est_bind (required_call (SysSigprocmask sigs)) (\<lambda>_.
     est_bind (\<lambda>st. (Inr (), st\<lparr>os_blocked := os_blocked st \<union> set sigs\<rparr>)) (\<lambda>_.
       map_error from_required_syscall_io (new_fd (SysSignalfd sigs) O_NONBLOCK)))))))"

definition setup_timerfd :: "(os, AppError, int) est" where
  "setup_timerfd = map_error from_required_syscall_io (new_fd SysTimerfd O_NONBLOCK)"

definition epoll_add :: "int \<Rightarrow> int \<Rightarrow> u64 \<Rightarrow> (os, AppError, unit) est" where
  "epoll_add epoll_fd fd tag = required_call (SysEpollAdd epoll_fd fd tag)"

text \<open>One registration: on failure the epoll descriptor is closed.\<close>

definition add_or_close :: "int \<Rightarrow> int \<Rightarrow> u64 \<Rightarrow> (os, AppError, unit) est" where
  "add_or_close epoll_fd fd tag st =
     (case epoll_add epoll_fd fd tag st of
        (Inl err, st) \<Rightarrow> (Inl err, close_fd epoll_fd st)
      | (Inr _, st) \<Rightarrow> (Inr (), st))"

definition setup_epoll :: "int \<Rightarrow> int \<Rightarrow> int \<Rightarrow> int \<Rightarrow> (os, AppError, int) est" where
  "setup_epoll route_fd rule_fd signal_fd timer_fd =
     est_bind (map_error from_required_syscall_io (new_fd SysEpollCreate 0)) (\<lambda>epoll_fd.
     est_bind (add_or_close epoll_fd route_fd EPOLL_TAG_ROUTE) (\<lambda>_.
     est_bind (add_or_close epoll_fd rule_fd EPOLL_TAG_RULE) (\<lambda>_.
     est_bind (add_or_close epoll_fd signal_fd EPOLL_TAG_SIGNAL) (\<lambda>_.
     est_bind (add_or_close epoll_fd timer_fd EPOLL_TAG_TIMER) (\<lambda>_.
       (\<lambda>st. (Inr epoll_fd, st)))))))"

subsection \<open>What is open afterwards\<close>

lemma lowest_free_fresh: "lowest_free fds \<notin> set fds" "0 \<le> lowest_free fds"
proof -
  have "\<not> set (map int [0..<Suc (length fds)]) \<subseteq> set fds"
  proof
    assume "set (map int [0..<Suc (length fds)]) \<subseteq> set fds"
    then have "card (set (map int [0..<Suc (length fds)])) \<le> card (set fds)" by (rule card_mono [OF finite_set])
    also have "\<dots> \<le> length fds" by (rule card_length)
    finally show False by (simp add: card_image inj_on_def del: upt_Suc)
  qed
  then have "filter (\<lambda>fd. fd \<notin> set fds) (map int [0..<Suc (length fds)]) \<noteq> []"
    by (auto simp: filter_empty_conv simp del: upt_Suc)
  from hd_in_set [OF this] show "lowest_free fds \<notin> set fds" "0 \<le> lowest_free fds"
    by (auto simp: lowest_free_def simp del: upt_Suc)
qed

lemma call_cases:
  obtains e where "os_fail st (length (os_calls st)) = Some e" "call c st = (Inl e, st\<lparr>os_calls := os_calls st @ [c]\<rparr>)"
  | "os_fail st (length (os_calls st)) = None" "call c st = (Inr (), st\<lparr>os_calls := os_calls st @ [c]\<rparr>)"
  by (cases "os_fail st (length (os_calls st))") (simp_all add: call_def)

lemma filter_fresh: "fd \<notin> set xs \<Longrightarrow> filter (\<lambda>x. x \<noteq> fd) xs = xs"
  by (auto simp: filter_id_conv)

lemma close_fd_open [simp]: "os_open (close_fd fd st) = filter (\<lambda>x. x \<noteq> fd) (os_open st)"
  by (simp add: close_fd_def)

lemma close_fd_calls [simp]: "os_calls (close_fd fd st) = os_calls st @ [SysClose fd]" "os_fail (close_fd fd st) = os_fail st"
  by (simp_all add: close_fd_def call_def)

lemmas os_defs = new_fd_def call_def map_error_def est_bind_def Let_def

lemmas socket_defs = set_rule_recv_opts_def set_route_recv_opts_def set_common_recv_opts_def set_sockopt_i32_def
  set_fd_nonblocking_def os_defs

definition socket_calls :: "int \<Rightarrow> u32 \<Rightarrow> syscall list" where
  "socket_calls fd groups =
     [SysSocket, SysBind fd groups, SysSetsockopt fd SOL_SOCKET SO_RCVBUF ROUTE_SOCKET_RECV_BUF, SysGetfl fd,
      SysSetfl fd (O_RDWR OR O_NONBLOCK)]"

text \<open>The outcome of opening a socket: ready, or failed with the descriptor closed unless an option could not be set.\<close>

definition opened :: "u32 \<Rightarrow> syscall list \<Rightarrow> os \<Rightarrow> (io_error + int) \<times> os \<Rightarrow> bool" where
  "opened groups extra st out =
     (let fd = lowest_free (os_open st) in
      case out of
        (Inr fd', st') \<Rightarrow>
          fd' = fd \<and> os_open st' = fd # os_open st \<and> os_flags st' = (os_flags st)(fd := O_RDWR OR O_NONBLOCK) \<and>
          os_calls st' = os_calls st @ socket_calls fd groups @ extra
      | (Inl e, st') \<Rightarrow>
          os_open st' =
            (if os_fail st (length (os_calls st)) = None \<and> os_fail st (length (os_calls st) + 1) = None
             then fd # os_open st else os_open st))"

lemma open_route_opened: "opened (route_addr_groups ipv6) [] st (open_route ipv6 st)"
  using lowest_free_fresh [of "os_open st"]
  by (simp add: opened_def socket_calls_def open_route_def socket_defs filter_fresh split: option.splits)

lemma open_rule_opened: "opened 0 [SysSetsockopt (lowest_free (os_open st)) SOL_NETLINK NETLINK_EXT_ACK 1] st (open_rule st)"
  using lowest_free_fresh [of "os_open st"]
  by (simp add: opened_def socket_calls_def open_rule_def socket_defs filter_fresh split: option.splits)

text \<open>
  C26. A socket that is opened is ready, and a failure closes it only as far as the code reaches. On success the
  route and the rule socket are new non-blocking descriptors, bound to their groups, with the receive buffer
  and, for rules, the extended acknowledgements set, by exactly these calls; when creating or binding fails
  nothing stays open; when setting an option fails the descriptor stays open.
\<close>

theorem sockets_opened:
  "opened (route_addr_groups ipv6) [] st (open_route ipv6 st) \<and>
   opened 0 [SysSetsockopt (lowest_free (os_open st)) SOL_NETLINK NETLINK_EXT_ACK 1] st (open_rule st)"
  using open_route_opened open_rule_opened by simp

lemma setup_signalfd_open:
  "case setup_signalfd st of
     (Inr fd, st') \<Rightarrow> fd = lowest_free (os_open st) \<and> os_open st' = fd # os_open st \<and>
       os_blocked st' = os_blocked st \<union> {SIGTERM, SIGINT, SIGUSR1} \<and>
       (\<exists>cs. os_calls st' = os_calls st @ cs @ [SysSignalfd [SIGTERM, SIGINT, SIGUSR1]])
   | (Inl e, st') \<Rightarrow> os_open st' = os_open st"
  by (simp add: setup_signalfd_def required_call_def os_defs split: option.splits)

lemma setup_timerfd_open:
  "case setup_timerfd st of
     (Inr fd, st') \<Rightarrow> fd = lowest_free (os_open st) \<and> os_open st' = fd # os_open st
   | (Inl e, st') \<Rightarrow> os_open st' = os_open st"
  by (simp add: setup_timerfd_def os_defs split: option.splits)

lemma setup_epoll_open:
  "case setup_epoll route_fd rule_fd signal_fd timer_fd st of
     (Inr ep, st') \<Rightarrow>
       ep = lowest_free (os_open st) \<and> os_open st' = ep # os_open st \<and>
       os_calls st' = os_calls st @ SysEpollCreate #
         map2 (SysEpollAdd ep) [route_fd, rule_fd, signal_fd, timer_fd] [1, 4, 2, 3]
   | (Inl e, st') \<Rightarrow> os_open st' = os_open st"
  using lowest_free_fresh [of "os_open st"]
  by (simp add: setup_epoll_def add_or_close_def epoll_add_def required_call_def os_defs filter_fresh split: option.splits)

text \<open>
  The epoll instance watches all four descriptors or does not exist: on success exactly the route, rule,
  signal and timer descriptors are registered, each with its own tag; on failure, of whichever call, nothing new stays open.
\<close>

theorem epoll_all_or_nothing:
  "case setup_epoll route_fd rule_fd signal_fd timer_fd st of
     (Inr ep, st') \<Rightarrow>
       ep = lowest_free (os_open st) \<and> os_open st' = ep # os_open st \<and>
       os_calls st' = os_calls st @ SysEpollCreate #
         map2 (SysEpollAdd ep) [route_fd, rule_fd, signal_fd, timer_fd] [1, 4, 2, 3]
   | (Inl e, st') \<Rightarrow> os_open st' = os_open st"
  by (rule setup_epoll_open)

subsection \<open>Openers\<close>

text \<open>
  What the run relies on in the five functions that open its descriptors: success adds one descriptor, the
  lowest free one. Those that open something that is not a socket also promise that a failure leaves nothing new open.
\<close>

locale fd_opener =
  fixes open_fd :: "(os, 'e, int) est"
  assumes opens: "open_fd st = (Inr fd, st') \<Longrightarrow> fd = lowest_free (os_open st) \<and> os_open st' = fd # os_open st"
begin

lemma opened_fd:
  assumes "open_fd st = (Inr fd, st')"
  shows "os_open st' = fd # os_open st" "fd \<notin> set (os_open st)" "0 \<le> fd"
  using opens [OF assms] lowest_free_fresh [of "os_open st"] by simp_all

lemma close_undoes: "open_fd st = (Inr fd, st') \<Longrightarrow> os_open (drop_socket fd st') = os_open st"
  using opened_fd [of st fd st'] by (simp add: drop_socket_def filter_fresh)

end

locale clean_opener = fd_opener +
  assumes failure_keeps: "open_fd st = (Inl e, st') \<Longrightarrow> os_open st' = os_open st"
begin

lemma open_after:
  assumes "open_fd st = (r, st')"
  obtains fd where "r = Inr fd" "os_open st' = fd # os_open st" "fd \<notin> set (os_open st)" "0 \<le> fd"
  | e where "r = Inl e" "os_open st' = os_open st"
proof (cases r)
  case (Inl e)
  with assms failure_keeps that(2) show ?thesis by simp
next
  case (Inr fd)
  with assms opened_fd that(1) show ?thesis by simp
qed

end

interpretation op_route: fd_opener "open_route ipv6"
  for ipv6
proof
  show "fd = lowest_free (os_open st) \<and> os_open st' = fd # os_open st"
    if "open_route ipv6 st = (Inr fd, st')" for st fd st'
    using open_route_opened [of ipv6 st] that by (simp add: opened_def Let_def)
qed

interpretation op_rule: fd_opener open_rule
proof
  show "fd = lowest_free (os_open st) \<and> os_open st' = fd # os_open st"
    if "open_rule st = (Inr fd, st')" for st fd st'
    using open_rule_opened [of st] that by (simp add: opened_def Let_def)
qed

interpretation op_signal: clean_opener setup_signalfd
proof
  show "fd = lowest_free (os_open st) \<and> os_open st' = fd # os_open st"
    if "setup_signalfd st = (Inr fd, st')" for st fd st'
    using setup_signalfd_open [of st] that by simp
  show "os_open st' = os_open st" if "setup_signalfd st = (Inl e, st')" for st e st'
    using setup_signalfd_open [of st] that by simp
qed

interpretation op_timer: clean_opener setup_timerfd
proof
  show "fd = lowest_free (os_open st) \<and> os_open st' = fd # os_open st"
    if "setup_timerfd st = (Inr fd, st')" for st fd st'
    using setup_timerfd_open [of st] that by simp
  show "os_open st' = os_open st" if "setup_timerfd st = (Inl e, st')" for st e st'
    using setup_timerfd_open [of st] that by simp
qed

interpretation op_epoll: clean_opener "setup_epoll route_fd rule_fd signal_fd timer_fd"
  for route_fd rule_fd signal_fd timer_fd
proof
  show "fd = lowest_free (os_open st) \<and> os_open st' = fd # os_open st"
    if "setup_epoll route_fd rule_fd signal_fd timer_fd st = (Inr fd, st')" for st fd st'
    using setup_epoll_open [where route_fd = route_fd and rule_fd = rule_fd and signal_fd = signal_fd and timer_fd = timer_fd and st = st]
      that by simp
  show "os_open st' = os_open st"
    if "setup_epoll route_fd rule_fd signal_fd timer_fd st = (Inl e, st')" for st e st'
    using setup_epoll_open [where route_fd = route_fd and rule_fd = rule_fd and signal_fd = signal_fd and timer_fd = timer_fd and st = st]
      that by simp
qed

end
