(* ===== verification/Cli.thy ===== *)
theory Cli
  imports Path Errors
begin

text \<open>
  \<^verbatim>\<open>src/cli.rs\<close>: the command line.

  Arguments are their bytes. Each parser takes the arguments that are left; parsing ends with a command, an
  error, or the end of the process after a usage text or the version has been printed (\<open>CliExit\<close>, with
  the text that was asked for).
\<close>

datatype CleanupMode = ModeTracked | ModeDump
datatype PbrAction = PbrApply | PbrCleanup | PbrStatus
datatype PbrFamily = Ipv4 | Ipv6

fun as_i32 :: "PbrFamily \<Rightarrow> int" where
  "as_i32 Ipv4 = AF_INET"
| "as_i32 Ipv6 = AF_INET6"

record PbrRequest =
  pbr_action :: PbrAction
  pbr_family :: PbrFamily
  pbr_mark :: u32
  pbr_mask :: u32
  pbr_table :: u32
  pbr_pref :: u32

datatype Command =
    Run bool
  | Stop
  | Resync
  | CleanupCmd CleanupMode
  | Pbr PbrRequest
  | Status

record Cli =
  cli_config :: string
  cli_work_dir :: string
  cli_command :: Command

record RuntimePaths =
  rp_config :: string
  rp_work_dir :: string

definition into_parts :: "Cli \<Rightarrow> RuntimePaths \<times> Command" where
  "into_parts c = (\<lparr>rp_config = cli_config c, rp_work_dir = cli_work_dir c\<rparr>, cli_command c)"

definition DEFAULT_CONFIG_FILE :: string where "DEFAULT_CONFIG_FILE = ''addrsyncd.toml''"
definition DEFAULT_WORK_DIR :: string where "DEFAULT_WORK_DIR = ''.''"

datatype usage = UsageMain | UsageVersion | UsageRun | UsageCleanup | UsagePbr

text \<open>
  The printed texts, line by line. A backslash at the end of a line of a Rust string literal drops the
  line break and the blanks that follow it, so the lines of \<open>print_usage\<close> begin at the margin.
\<close>

definition CARGO_PKG_VERSION :: string where "CARGO_PKG_VERSION = ''0.1.0''"

definition print_usage :: "string list" where
  "print_usage =
     [''addrsyncd '' @ CARGO_PKG_VERSION @ '' - Address to ip-rule sync daemon'', [], ''USAGE:'',
      ''addrsyncd [OPTIONS] <COMMAND>'', [], ''OPTIONS:'',
      ''-c, --config <PATH>    Config file [default: '' @ DEFAULT_CONFIG_FILE @ '']'',
      ''-d, --work-dir <PATH>  Working directory [default: '' @ DEFAULT_WORK_DIR @ '']'',
      ''-h, --help             Show this help'', ''-v, --version          Show version'', [], ''COMMANDS:'',
      ''run [--daemon]                   Start the daemon'',
      ''stop                             Stop a running daemon'',
      ''resync                           Signal a full resync'',
      ''cleanup [--mode tracked|dump]    Cleanup stale rules'',
      ''pbr <apply|cleanup|status> ...   Manage Flux policy routing'',
      ''status                           Print daemon status'']"

definition print_run_usage :: "string list" where
  "print_run_usage =
     [''USAGE:'', ''  addrsyncd [OPTIONS] run [--daemon]'', [], ''OPTIONS:'',
      ''  --daemon    Start in background mode'']"

definition print_cleanup_usage :: "string list" where
  "print_cleanup_usage =
     [''USAGE:'', ''  addrsyncd [OPTIONS] cleanup [--mode tracked|dump]'', [], ''OPTIONS:'',
      ''  --mode <tracked|dump>    Cleanup source mode (default: dump)'']"

definition print_pbr_usage :: "string list" where
  "print_pbr_usage =
     [''USAGE:'',
      ''  addrsyncd [OPTIONS] pbr <apply|cleanup|status> --family <4|6> --mark <MARK> --mask <MASK> --table <ID> --pref <PREF>'',
      [], ''OPTIONS:'', ''  --family <4|6>    Address family'',
      ''  --mark <MARK>     fwmark value (decimal or 0x hex)'', ''  --mask <MASK>     fwmark mask (decimal or 0x hex)'',
      ''  --table <ID>      Routing table id'', ''  --pref <PREF>     Rule priority'']"

fun usage_lines :: "usage \<Rightarrow> string list" where
  "usage_lines UsageMain = print_usage"
| "usage_lines UsageVersion = [''addrsyncd '' @ CARGO_PKG_VERSION]"
| "usage_lines UsageRun = print_run_usage"
| "usage_lines UsageCleanup = print_cleanup_usage"
| "usage_lines UsagePbr = print_pbr_usage"

datatype 'a cli_out = CliOk 'a | CliErr AppError | CliExit usage

fun cli_bind :: "'a cli_out \<Rightarrow> ('a \<Rightarrow> 'b cli_out) \<Rightarrow> 'b cli_out" where
  "cli_bind (CliOk a) k = k a"
| "cli_bind (CliErr e) k = CliErr e"
| "cli_bind (CliExit u) k = CliExit u"

lemma cli_bind_ok_iff: "cli_bind m k = CliOk b \<longleftrightarrow> (\<exists>a. m = CliOk a \<and> k a = CliOk b)"
  by (cases m) simp_all

abbreviation (input) msg_err :: "string \<Rightarrow> 'a cli_out" where
  "msg_err m \<equiv> CliErr (Message m)"

definition render_arg :: "string \<Rightarrow> string" where
  "render_arg arg = str_of_bytes (utf8_lossy (as_bytes arg))"

text \<open>A text in single quotes, as the messages show arguments.\<close>

definition squoted :: "string \<Rightarrow> string" where
  "squoted s = [CHR 0x27] @ s @ [CHR 0x27]"

subsection \<open>run, cleanup\<close>

fun parse_run_command :: "string list \<Rightarrow> bool \<Rightarrow> Command cli_out" where
  "parse_run_command [] daemon = CliOk (Run daemon)"
| "parse_run_command (a # args) daemon =
     (if a = ''--daemon'' then parse_run_command args True
      else if a = ''-h'' \<or> a = ''--help'' then CliExit UsageRun
      else msg_err (''run: unknown option '' @ squoted (render_arg a)))"

fun parse_cleanup_command :: "string list \<Rightarrow> CleanupMode \<Rightarrow> Command cli_out" where
  "parse_cleanup_command [] mode = CliOk (CleanupCmd mode)"
| "parse_cleanup_command (a # args) mode =
     (if a = ''--mode'' then
        (case args of
           [] \<Rightarrow> msg_err ''cleanup: --mode requires a value (tracked|dump)''
         | v # rest \<Rightarrow>
             if v = ''tracked'' then parse_cleanup_command rest ModeTracked
             else if v = ''dump'' then parse_cleanup_command rest ModeDump
             else msg_err (''cleanup: unknown mode '' @ squoted (render_arg v) @ '' (expected tracked|dump)''))
      else if a = ''-h'' \<or> a = ''--help'' then CliExit UsageCleanup
      else msg_err (''cleanup: unknown option '' @ squoted (render_arg a)))"

subsection \<open>pbr\<close>

definition parse_pbr_family :: "string \<Rightarrow> PbrFamily cli_out" where
  "parse_pbr_family arg =
     (if arg = ''4'' \<or> arg = ''ipv4'' then CliOk Ipv4
      else if arg = ''6'' \<or> arg = ''ipv6'' then CliOk Ipv6
      else msg_err (''pbr: invalid --family '' @ squoted (render_arg arg) @ '' (expected 4|6)''))"

definition parse_u32_arg :: "string \<Rightarrow> string \<Rightarrow> u32 cli_out" where
  "parse_u32_arg arg msg =
     (let raw = render_arg arg;
          parsed = (if starts_with raw ''0x'' \<or> starts_with raw ''0X'' then parse_radix 16 (2 ^ 32) (drop 2 raw)
                    else parse_radix 10 (2 ^ 32) raw)
      in case parsed of Some n \<Rightarrow> CliOk (of_nat n) | None \<Rightarrow> msg_err (msg @ '': '' @ raw))"

definition next_required :: "string list \<Rightarrow> string \<Rightarrow> string cli_out" where
  "next_required args msg = (case args of [] \<Rightarrow> msg_err msg | a # _ \<Rightarrow> CliOk a)"

record pbr_opts =
  po_family :: "PbrFamily option"
  po_mark :: "u32 option"
  po_mask :: "u32 option"
  po_table :: "u32 option"
  po_pref :: "u32 option"

fun parse_pbr_options :: "string list \<Rightarrow> pbr_opts \<Rightarrow> pbr_opts cli_out" where
  "parse_pbr_options [] p = CliOk p"
| "parse_pbr_options (a # args) p =
     (if a = ''--family'' then
        cli_bind (next_required args ''pbr: --family requires a value (4|6)'') (\<lambda>v.
        cli_bind (parse_pbr_family v) (\<lambda>f. parse_pbr_options (tl args) (p\<lparr>po_family := Some f\<rparr>)))
      else if a = ''--mark'' then
        cli_bind (next_required args ''pbr: --mark requires a value'') (\<lambda>v.
        cli_bind (parse_u32_arg v ''pbr: invalid --mark'') (\<lambda>n. parse_pbr_options (tl args) (p\<lparr>po_mark := Some n\<rparr>)))
      else if a = ''--mask'' then
        cli_bind (next_required args ''pbr: --mask requires a value'') (\<lambda>v.
        cli_bind (parse_u32_arg v ''pbr: invalid --mask'') (\<lambda>n. parse_pbr_options (tl args) (p\<lparr>po_mask := Some n\<rparr>)))
      else if a = ''--table'' then
        cli_bind (next_required args ''pbr: --table requires a value'') (\<lambda>v.
        cli_bind (parse_u32_arg v ''pbr: invalid --table'') (\<lambda>n. parse_pbr_options (tl args) (p\<lparr>po_table := Some n\<rparr>)))
      else if a = ''--pref'' then
        cli_bind (next_required args ''pbr: --pref requires a value'') (\<lambda>v.
        cli_bind (parse_u32_arg v ''pbr: invalid --pref'') (\<lambda>n. parse_pbr_options (tl args) (p\<lparr>po_pref := Some n\<rparr>)))
      else if a = ''-h'' \<or> a = ''--help'' then CliExit UsagePbr
      else msg_err (''pbr: unknown option '' @ squoted (render_arg a)))"

definition required :: "'a option \<Rightarrow> string \<Rightarrow> 'a cli_out" where
  "required v msg = (case v of Some x \<Rightarrow> CliOk x | None \<Rightarrow> msg_err msg)"

definition pbr_request :: "PbrAction \<Rightarrow> pbr_opts \<Rightarrow> Command cli_out" where
  "pbr_request action p =
     cli_bind (required (po_family p) ''pbr: --family is required'') (\<lambda>family.
     cli_bind (required (po_mark p) ''pbr: --mark is required'') (\<lambda>fwmark.
     cli_bind (required (po_mask p) ''pbr: --mask is required'') (\<lambda>fwmask.
     cli_bind (required (po_table p) ''pbr: --table is required'') (\<lambda>table.
     cli_bind (required (po_pref p) ''pbr: --pref is required'') (\<lambda>pref.
       if fwmask = 0 then msg_err ''pbr: --mask must be non-zero''
       else if table = 0 \<or> pref = 0 then msg_err ''pbr: --table and --pref must be positive''
       else CliOk (Pbr \<lparr>pbr_action = action, pbr_family = family, pbr_mark = fwmark, pbr_mask = fwmask,
              pbr_table = table, pbr_pref = pref\<rparr>))))))"

definition parse_pbr_command :: "string list \<Rightarrow> Command cli_out" where
  "parse_pbr_command args =
     (case args of
        [] \<Rightarrow> msg_err ''pbr: action required (apply|cleanup|status)''
      | a # rest \<Rightarrow>
          cli_bind
            (if a = ''apply'' then CliOk PbrApply
             else if a = ''cleanup'' then CliOk PbrCleanup
             else if a = ''status'' then CliOk PbrStatus
             else if a = ''-h'' \<or> a = ''--help'' then CliExit UsagePbr
             else msg_err (''pbr: unknown action '' @ squoted (render_arg a) @ '' (expected apply|cleanup|status)''))
            (\<lambda>action.
               cli_bind (parse_pbr_options rest \<lparr>po_family = None, po_mark = None, po_mask = None, po_table = None, po_pref = None\<rparr>)
                 (pbr_request action)))"

subsection \<open>Global options and the subcommand\<close>

fun parse_globals :: "string list \<Rightarrow> string \<times> string \<Rightarrow> (string \<times> string \<times> string list) cli_out" where
  "parse_globals [] (config, work_dir) = CliOk (config, work_dir, [])"
| "parse_globals (a # args) (config, work_dir) =
     (if a = ''-c'' \<or> a = ''--config'' then
        (case args of
           [] \<Rightarrow> msg_err ''-c/--config requires a value''
         | v # rest \<Rightarrow> parse_globals rest (v, work_dir))
      else if a = ''-d'' \<or> a = ''--work-dir'' then
        (case args of
           [] \<Rightarrow> msg_err ''-d/--work-dir requires a value''
         | v # rest \<Rightarrow> parse_globals rest (config, v))
      else if a = ''-h'' \<or> a = ''--help'' then CliExit UsageMain
      else if a = ''-v'' \<or> a = ''--version'' then CliExit UsageVersion
      else CliOk (config, work_dir, a # args))"

definition no_options :: "string \<Rightarrow> Command \<Rightarrow> string list \<Rightarrow> Command cli_out" where
  "no_options name c rest =
     (case rest of
        [] \<Rightarrow> CliOk c
      | a # _ \<Rightarrow> msg_err (name @ '': unknown option '' @ squoted (render_arg a)))"

definition parse_command :: "string list \<Rightarrow> Command cli_out" where
  "parse_command args =
     (case args of
        [] \<Rightarrow> msg_err ''subcommand required (run|stop|resync|cleanup|pbr|status)''
      | sub # rest \<Rightarrow>
          if sub = ''run'' then parse_run_command rest False
          else if sub = ''stop'' then no_options ''stop'' Stop rest
          else if sub = ''resync'' then no_options ''resync'' Resync rest
          else if sub = ''cleanup'' then parse_cleanup_command rest ModeDump
          else if sub = ''pbr'' then parse_pbr_command rest
          else if sub = ''status'' then no_options ''status'' Status rest
          else msg_err (''unknown subcommand '' @ squoted (render_arg sub) @ '' (expected run|stop|resync|cleanup|pbr|status)''))"

definition parse_args :: "string list \<Rightarrow> Cli cli_out" where
  "parse_args args =
     cli_bind (parse_globals (tl args) (DEFAULT_CONFIG_FILE, DEFAULT_WORK_DIR)) (\<lambda>(config, work_dir, rest).
     cli_bind (parse_command rest) (\<lambda>c. CliOk \<lparr>cli_config = config, cli_work_dir = work_dir, cli_command = c\<rparr>))"

subsection \<open>Printing a command line\<close>

definition fmt_u32 :: "u32 \<Rightarrow> string" where
  "fmt_u32 n = fmt_nat (unat n)"

fun print_command :: "Command \<Rightarrow> string list" where
  "print_command (Run daemon) = ''run'' # (if daemon then [''--daemon''] else [])"
| "print_command Stop = [''stop'']"
| "print_command Resync = [''resync'']"
| "print_command (CleanupCmd mode) =
     [''cleanup'', ''--mode'', case mode of ModeTracked \<Rightarrow> ''tracked'' | ModeDump \<Rightarrow> ''dump'']"
| "print_command (Pbr r) =
     [''pbr'', case pbr_action r of PbrApply \<Rightarrow> ''apply'' | PbrCleanup \<Rightarrow> ''cleanup'' | PbrStatus \<Rightarrow> ''status'',
      ''--family'', case pbr_family r of Ipv4 \<Rightarrow> ''4'' | Ipv6 \<Rightarrow> ''6'',
      ''--mark'', fmt_u32 (pbr_mark r), ''--mask'', fmt_u32 (pbr_mask r),
      ''--table'', fmt_u32 (pbr_table r), ''--pref'', fmt_u32 (pbr_pref r)]"
| "print_command Status = [''status'']"

definition print_cli :: "Cli \<Rightarrow> string list" where
  "print_cli c = [''addrsyncd'', ''-c'', cli_config c, ''-d'', cli_work_dir c] @ print_command (cli_command c)"

fun command_ok :: "Command \<Rightarrow> bool" where
  "command_ok (Pbr r) \<longleftrightarrow> pbr_mask r \<noteq> 0 \<and> pbr_table r \<noteq> 0 \<and> pbr_pref r \<noteq> 0"
| "command_ok _ \<longleftrightarrow> True"

lemma render_arg_ascii: "is_ascii (as_bytes s) \<Longrightarrow> render_arg s = s"
  by (simp add: render_arg_def utf8_lossy_ascii)

lemma is_ascii_fmt_nat: "is_ascii (as_bytes (fmt_nat n))"
proof -
  have "of_nat (of_char c) < (0x80 :: u8)" if "is_digit c" for c
  proof -
    have "of_nat (of_char c) \<le> (57 :: u8)"
      using that by (simp add: is_digit_def word_le_nat_alt unat_of_nat)
    then show ?thesis by (rule le_less_trans) simp
  qed
  then show ?thesis using fmt_nat_char [of _ n] by (auto simp: is_ascii_def as_bytes_def list_all_iff)
qed

lemma parse_u32_fmt [simp]: "parse_u32_arg (fmt_u32 n) msg = CliOk n"
proof -
  have "unat n < 2 ^ 32" using unat_less_2p [of n] by simp
  then show ?thesis
    using parse_radix_fmt_nat [of "unat n" "2 ^ 32"]
    by (simp add: parse_u32_arg_def fmt_u32_def render_arg_ascii is_ascii_fmt_nat fmt_nat_not_hex)
qed

lemma parse_command_print: "command_ok c \<Longrightarrow> parse_command (print_command c) = CliOk c"
proof (cases c)
  case (Pbr r)
  assume "command_ok c"
  with Pbr show ?thesis
    by (cases r; cases "pbr_action r"; cases "pbr_family r")
      (simp_all add: parse_command_def parse_pbr_command_def next_required_def parse_pbr_family_def pbr_request_def required_def)
qed (simp_all add: parse_command_def no_options_def split: CleanupMode.split)

lemma parse_args_print:
  assumes "command_ok (cli_command c)"
  shows "parse_args (print_cli c) = CliOk c"
proof -
  have "\<exists>sub rest. print_command (cli_command c) = sub # rest \<and>
      sub \<notin> {''-c'', ''--config'', ''-d'', ''--work-dir'', ''-h'', ''--help'', ''-v'', ''--version''}"
    by (cases "cli_command c") simp_all
  then have "parse_globals (print_command (cli_command c)) st = CliOk (fst st, snd st, print_command (cli_command c))" for st
    by (cases st) auto
  then show ?thesis
    using parse_command_print [OF assms] by (simp add: parse_args_def print_cli_def)
qed

text \<open>
  C31. Every command can be given on the command line and is understood as meant: writing out a configuration
  path, a working directory and any command with valid values (any 32-bit numbers, in decimal) and parsing the
  arguments gives the same paths and the same command back.
\<close>

theorem cli_roundtrip:
  assumes "command_ok (cli_command c)"
  shows "parse_args (print_cli c) = CliOk c"
  using assms by (rule parse_args_print)

theorem cli_roundtrip_witness:
  "parse_args [''addrsyncd'', ''-c'', ''a.toml'', ''-d'', ''/w'', ''cleanup'', ''--mode'', ''tracked''] =
     CliOk \<lparr>cli_config = ''a.toml'', cli_work_dir = ''/w'', cli_command = CleanupCmd ModeTracked\<rparr>"
  using cli_roundtrip [of "\<lparr>cli_config = ''a.toml'', cli_work_dir = ''/w'', cli_command = CleanupCmd ModeTracked\<rparr>"]
  by (simp add: print_cli_def)

end
