(* ===== verification/Control.thy ===== *)
theory Control
  imports Config Cli
begin

text \<open>
  \<^verbatim>\<open>src/control.rs\<close>: starting, stopping and finding the background daemon.

  What the operating system answers is an argument: the directory \<^verbatim>\<open>/proc\<close> and the files under it
  (\<open>procfs\<close>), the results of single system calls, and scripts of results for the calls inside loops. A
  command gives its result and the lines it printed. Sleeping moves the clock forward by at least the time
  asked for.
\<close>

abbreviation (input) START_WAIT_TIMEOUT :: nat where "START_WAIT_TIMEOUT \<equiv> secs 10"
abbreviation (input) STOP_WAIT_TIMEOUT :: nat where "STOP_WAIT_TIMEOUT \<equiv> secs 5"
abbreviation (input) STOP_POLL_INITIAL :: nat where "STOP_POLL_INITIAL \<equiv> millis 20"
abbreviation (input) STOP_POLL_MAX :: nat where "STOP_POLL_MAX \<equiv> millis 250"
abbreviation (input) READY_SIGNAL_BYTE :: u8 where "READY_SIGNAL_BYTE \<equiv> 1"
abbreviation (input) RESYNC_SIGNAL :: int where "RESYNC_SIGNAL \<equiv> 10"
abbreviation (input) STOP_SIGNAL :: int where "STOP_SIGNAL \<equiv> 15"

record DaemonProcess =
  dp_pid :: int
  dp_start_ticks :: "nat option"

text \<open>The environment variable before, the descriptor and the variable after.\<close>

definition take_ready_fd_from_env :: "string option \<Rightarrow> int option \<times> string option" where
  "take_ready_fd_from_env var =
     (case var of
        None \<Rightarrow> (None, None)
      | Some raw \<Rightarrow>
          (case parse_i32 raw of
             None \<Rightarrow> (None, None)
           | Some fd \<Rightarrow> if fd < 0 then (None, None) else (Some fd, None)))"

text \<open>
  \<open>write\<close> gives the number of bytes or sets the error number, \<open>close\<close> may set it again; the code reads it
  after both. \<open>stale\<close> is the error number from before.
\<close>

definition notify_ready_fd :: "io_error \<Rightarrow> (io_error, nat) res \<Rightarrow> io_error option \<Rightarrow> (AppError, unit) res" where
  "notify_ready_fd stale write_res close_res =
     (let errno = (case write_res of Inl e \<Rightarrow> e | Inr _ \<Rightarrow> stale);
          errno = (case close_res of Some e \<Rightarrow> e | None \<Rightarrow> errno)
      in if write_res \<noteq> Inr 1 then Inl (Io errno)
         else if close_res \<noteq> None then Inl (Io errno)
         else Inr ())"

subsection \<open>Reading /proc\<close>

record procfs =
  pf_self :: int
  pf_entries :: "(io_error, (io_error, string option) res list) res"
  pf_cmdline :: "int \<Rightarrow> (io_error, bytes) res"
  pf_cwd :: "int \<Rightarrow> (io_error, string) res"
  pf_stat :: "int \<Rightarrow> (io_error, string) res"

fun split_zero :: "bytes \<Rightarrow> bytes \<Rightarrow> bytes list" where
  "split_zero cur [] = [rev cur]"
| "split_zero cur (b # bs) = (if b = 0 then rev cur # split_zero [] bs else split_zero (b # cur) bs)"

definition read_cmdline_args :: "procfs \<Rightarrow> int \<Rightarrow> string list option" where
  "read_cmdline_args pf pid =
     (case pf_cmdline pf pid of
        Inl _ \<Rightarrow> None
      | Inr cmdline \<Rightarrow>
          if cmdline = [] then None
          else
            let args = map (\<lambda>part. str_of_bytes (utf8_lossy part)) (filter (\<lambda>part. part \<noteq> []) (split_zero [] cmdline))
            in if args = [] then None else Some args)"

text \<open>The two loops of \<open>parse_run_work_dir\<close>: up to \<open>run\<close>, and after it.\<close>

fun scan_globals :: "string list \<Rightarrow> string \<Rightarrow> (string \<times> string list) option" where
  "scan_globals [] work_dir = None"
| "scan_globals (a # args) work_dir =
     (if a = ''-d'' \<or> a = ''--work-dir'' then
        (case args of [] \<Rightarrow> None | v # rest \<Rightarrow> scan_globals rest v)
      else if a = ''-c'' \<or> a = ''--config'' then
        (case args of [] \<Rightarrow> None | v # rest \<Rightarrow> scan_globals rest work_dir)
      else if a = ''run'' then Some (work_dir, args)
      else None)"

definition run_work_dir :: "string list \<Rightarrow> string option" where
  "run_work_dir args =
     (case scan_globals (tl args) ''.'' of
        None \<Rightarrow> None
      | Some (work_dir, rest) \<Rightarrow> if list_all (\<lambda>a. a = ''--daemon'') rest then Some work_dir else None)"

definition resolve_daemon_work_dir :: "procfs \<Rightarrow> int \<Rightarrow> string \<Rightarrow> string option" where
  "resolve_daemon_work_dir pf pid raw =
     (if is_absolute raw then Some (normalize_path raw)
      else case pf_cwd pf pid of Inl _ \<Rightarrow> None | Inr cwd \<Rightarrow> Some (normalize_path (path_join cwd raw)))"

definition parse_run_work_dir :: "procfs \<Rightarrow> int \<Rightarrow> string list \<Rightarrow> string option" where
  "parse_run_work_dir pf pid args =
     (case run_work_dir args of None \<Rightarrow> None | Some raw \<Rightarrow> resolve_daemon_work_dir pf pid raw)"

definition is_addrsyncd_argv0 :: "string \<Rightarrow> bool" where
  "is_addrsyncd_argv0 argv0 =
     (case file_name argv0 of
        None \<Rightarrow> False
      | Some name \<Rightarrow> name = ''addrsyncd'' \<or> starts_with name ''addrsyncd-'')"

text \<open>\<open>rsplit_once\<close> with the text after the last occurrence, and \<open>split_whitespace\<close>.\<close>

fun after_last :: "string \<Rightarrow> string \<Rightarrow> string option" where
  "after_last sep [] = None"
| "after_last sep (c # cs) =
     (case after_last sep cs of
        Some r \<Rightarrow> Some r
      | None \<Rightarrow> if starts_with (c # cs) sep then Some (drop (length sep) (c # cs)) else None)"

function split_ws :: "string \<Rightarrow> string \<Rightarrow> string list" where
  "split_ws cur [] = (if cur = [] then [] else [rev cur])"
| "split_ws cur (c # cs) =
     (let n = leading_enc ws_encodings (c # cs) in
      if n = 0 then split_ws (c # cur) cs
      else (if cur = [] then [] else [rev cur]) @ split_ws [] (drop n (c # cs)))"
  by pat_completeness auto
termination by (relation "measure (\<lambda>(cur, s). length s)") auto

definition parse_proc_stat_start_ticks :: "string \<Rightarrow> nat option" where
  "parse_proc_stat_start_ticks raw =
     (case after_last '') '' raw of
        None \<Rightarrow> None
      | Some after_comm \<Rightarrow>
          let fields = split_ws [] after_comm
          in if 19 < length fields then parse_unsigned (2 ^ 64) (fields ! 19) else None)"

definition process_start_ticks :: "procfs \<Rightarrow> int \<Rightarrow> nat option" where
  "process_start_ticks pf pid =
     (case pf_stat pf pid of Inl _ \<Rightarrow> None | Inr raw \<Rightarrow> parse_proc_stat_start_ticks raw)"

definition is_same_process_alive :: "procfs \<Rightarrow> int \<Rightarrow> nat option \<Rightarrow> bool" where
  "is_same_process_alive pf pid expected_start_ticks =
     (case process_start_ticks pf pid of
        None \<Rightarrow> False
      | Some current_ticks \<Rightarrow>
          (case expected_start_ticks of Some expected \<Rightarrow> current_ticks = expected | None \<Rightarrow> True))"

text \<open>The test of one entry, in the order of the code's \<open>continue\<close> statements.\<close>

definition daemon_entry :: "procfs \<Rightarrow> string \<Rightarrow> (io_error, string option) res \<Rightarrow> DaemonProcess option" where
  "daemon_entry pf target entry =
     (case entry of
        Inl _ \<Rightarrow> None
      | Inr None \<Rightarrow> None
      | Inr (Some raw_pid) \<Rightarrow>
          (case parse_i32 raw_pid of
             None \<Rightarrow> None
           | Some pid \<Rightarrow>
               if pid \<le> 1 \<or> pid = pf_self pf then None
               else
                 (case read_cmdline_args pf pid of
                    None \<Rightarrow> None
                  | Some args \<Rightarrow>
                      (case args of
                         [] \<Rightarrow> None
                       | argv0 # _ \<Rightarrow>
                           if \<not> is_addrsyncd_argv0 argv0 then None
                           else
                             (case parse_run_work_dir pf pid args of
                                None \<Rightarrow> None
                              | Some dir \<Rightarrow>
                                  if components dir \<noteq> components target then None
                                  else Some \<lparr>dp_pid = pid, dp_start_ticks = process_start_ticks pf pid\<rparr>)))))"

fun first_some :: "('a \<Rightarrow> 'b option) \<Rightarrow> 'a list \<Rightarrow> 'b option" where
  "first_some f [] = None"
| "first_some f (x # xs) = (case f x of Some y \<Rightarrow> Some y | None \<Rightarrow> first_some f xs)"

definition find_running_daemon_normalized :: "procfs \<Rightarrow> string \<Rightarrow> (AppError, DaemonProcess option) res" where
  "find_running_daemon_normalized pf target =
     (case pf_entries pf of
        Inl e \<Rightarrow> Inl (Io e)
      | Inr entries \<Rightarrow> Inr (first_some (daemon_entry pf target) entries))"

text \<open>The current directory and the answer of \<open>canonicalize\<close> are arguments.\<close>

definition normalize_work_dir ::
  "(io_error, string) res \<Rightarrow> (string \<Rightarrow> (io_error, string) res) \<Rightarrow> string \<Rightarrow> (AppError, string) res" where
  "normalize_work_dir current_dir canonicalize path =
     (if path = [] then Inl (Config ''work_dir must not be empty'')
      else
        res_bind (if is_absolute path then Inr path
                  else case current_dir of Inl e \<Rightarrow> Inl (AppError_from_io e) | Inr cwd \<Rightarrow> Inr (path_join cwd path)) (\<lambda>resolved.
          Inr (normalize_path (case canonicalize resolved of Inr c \<Rightarrow> c | Inl _ \<Rightarrow> resolved))))"

subsection \<open>Stopping\<close>

definition not_running_message :: "bool \<Rightarrow> string" where
  "not_running_message relative_hint =
     (if relative_hint then ''addrsyncd not running (tip: use absolute --work-dir)'' else ''addrsyncd not running'')"

definition send_signal :: "(io_error, unit) res \<Rightarrow> (AppError, unit) res" where
  "send_signal kill_res = (case kill_res of Inr _ \<Rightarrow> Inr () | Inl e \<Rightarrow> Inl (Io e))"

fun is_not_running_error :: "AppError \<Rightarrow> bool" where
  "is_not_running_error (Io e) = os_error_matches e (\<lambda>code. code = ESRCH)"
| "is_not_running_error _ = False"

definition sleep :: "nat \<Rightarrow> world \<Rightarrow> world" where
  "sleep d w = w\<lparr>clock := clock w + d\<rparr>"

text \<open>The interval after \<open>k\<close> rounds of doubling with the cap.\<close>

primrec poll_interval :: "nat \<Rightarrow> nat" where
  "poll_interval 0 = STOP_POLL_INITIAL"
| "poll_interval (Suc k) = min (poll_interval k * 2) STOP_POLL_MAX"

lemma poll_interval_pos [simp]: "0 < poll_interval k"
  by (induction k) simp_all

text \<open>
  The wait loop from round \<open>k\<close> on; \<open>alive n\<close> is the answer of the \<open>n\<close>-th look at the process. The result
  is the round in which it was gone, or nothing at the deadline.
\<close>

function stop_wait :: "nat \<Rightarrow> (nat \<Rightarrow> bool) \<Rightarrow> nat \<Rightarrow> world \<Rightarrow> nat option \<times> world" where
  "stop_wait deadline alive k w =
     (let (t, w) = instant_now w in
      if t < deadline then
        if \<not> alive k then (Some k, w) else stop_wait deadline alive (Suc k) (sleep (poll_interval k) w)
      else (None, w))"
  by pat_completeness auto
termination
proof (relation "measure (\<lambda>(d, alive, k, w). d - clock w)")
  fix deadline :: nat and alive :: "nat \<Rightarrow> bool" and k :: nat and w :: world and p t w'
  assume p: "p = instant_now w" "(t, w') = p" and lt: "t < deadline"
  then have c: "clock w' = t" "clock w \<le> t" using instant_now_mono [of w] by (metis snd_conv fst_conv)+
  show "((deadline, alive, Suc k, sleep (poll_interval k) w'), deadline, alive, k, w)
      \<in> measure (\<lambda>(d, alive, k, w). d - clock w)"
    using c lt poll_interval_pos [of k] by (simp add: sleep_def del: poll_interval.simps poll_interval_pos)
qed simp

declare stop_wait.simps [simp del]

text \<open>
  \<open>looks\<close> gives the contents of \<^verbatim>\<open>/proc\<close> at each look of the wait loop.
\<close>

definition stop_background ::
  "(io_error, string) res \<Rightarrow> (string \<Rightarrow> (io_error, string) res) \<Rightarrow> procfs \<Rightarrow> (io_error, unit) res \<Rightarrow> (nat \<Rightarrow> procfs) \<Rightarrow>
   string \<Rightarrow> world \<Rightarrow> (AppError + unit) \<times> string list \<times> world" where
  "stop_background current_dir canonicalize pf kill_res looks work_dir w =
     (let relative_hint = (\<not> is_absolute work_dir) in
      case res_bind (normalize_work_dir current_dir canonicalize work_dir) (find_running_daemon_normalized pf) of
        Inl e \<Rightarrow> (Inl e, [], w)
      | Inr None \<Rightarrow> (Inr (), [not_running_message relative_hint], w)
      | Inr (Some proc) \<Rightarrow>
          let stopped = ''addrsyncd stopped pid='' @ fmt_int (dp_pid proc) in
          case send_signal kill_res of
            Inl err \<Rightarrow> if is_not_running_error err then (Inr (), [stopped], w) else (Inl err, [], w)
          | Inr _ \<Rightarrow>
              let (t, w) = instant_now w;
                  (r, w) = stop_wait (t + STOP_WAIT_TIMEOUT)
                             (\<lambda>k. is_same_process_alive (looks k) (dp_pid proc) (dp_start_ticks proc)) 0 w
              in case r of
                   Some _ \<Rightarrow> (Inr (), [stopped], w)
                 | None \<Rightarrow> (Inl (Message ''stop timeout''), [], w))"

definition signal_resync ::
  "(io_error, string) res \<Rightarrow> (string \<Rightarrow> (io_error, string) res) \<Rightarrow> procfs \<Rightarrow> (io_error, unit) res \<Rightarrow> string \<Rightarrow>
   (AppError + unit) \<times> string list" where
  "signal_resync current_dir canonicalize pf kill_res work_dir =
     (let relative_hint = (\<not> is_absolute work_dir) in
      case res_bind (normalize_work_dir current_dir canonicalize work_dir) (find_running_daemon_normalized pf) of
        Inl e \<Rightarrow> (Inl e, [])
      | Inr None \<Rightarrow> (Inl (Message (not_running_message relative_hint)), [])
      | Inr (Some proc) \<Rightarrow>
          (case send_signal kill_res of
             Inl err \<Rightarrow> (Inl err, [])
           | Inr _ \<Rightarrow> (Inr (), [''resync signal sent pid='' @ fmt_int (dp_pid proc)])))"

definition print_status ::
  "(io_error, string) res \<Rightarrow> (string \<Rightarrow> (io_error, string) res) \<Rightarrow> procfs \<Rightarrow> Options outcome \<Rightarrow>
   ((AppError + unit) \<times> string list) option" where
  "print_status current_dir canonicalize pf loaded =
     (case loaded of
        Panics \<Rightarrow> None
      | Fails err \<Rightarrow> Some (Inr (), [''stopped(config invalid: '' @ AppError_display err @ '')''])
      | Returns options \<Rightarrow>
          Some (case res_bind (normalize_work_dir current_dir canonicalize (opt_work_dir options)) (find_running_daemon_normalized pf) of
                  Inl e \<Rightarrow> (Inl e, [])
                | Inr (Some proc) \<Rightarrow> (Inr (), [''running pid='' @ fmt_int (dp_pid proc)])
                | Inr None \<Rightarrow> (Inr (), [''stopped''])))"

subsection \<open>Starting\<close>

text \<open>
  The launcher's open descriptors are a set; \<open>pipe\<close> adds two and \<open>close\<close> removes one. The results of
  \<open>fcntl\<close> are arguments: the flags that were read and the error of the write, if any.
\<close>

abbreviation (input) FD_CLOEXEC :: int where "FD_CLOEXEC \<equiv> 1"

definition set_cloexec :: "(io_error, int) res \<Rightarrow> io_error option \<Rightarrow> bool \<Rightarrow> (AppError, int) res" where
  "set_cloexec getfd setfd_err enabled =
     (case getfd of
        Inl e \<Rightarrow> Inl (Io e)
      | Inr flags \<Rightarrow>
          let next = (if enabled then flags OR FD_CLOEXEC else flags AND NOT FD_CLOEXEC)
          in case setfd_err of Some e \<Rightarrow> Inl (Io e) | None \<Rightarrow> Inr next)"

definition close_fd_quietly :: "int \<Rightarrow> int set \<Rightarrow> int set" where
  "close_fd_quietly fd fds = (if fd \<ge> 0 then fds - {fd} else fds)"

record pipe_script =
  ps_pipe :: "(io_error, int \<times> int) res"
  ps_getfd0 :: "(io_error, int) res"
  ps_setfd0 :: "io_error option"
  ps_getfd1 :: "(io_error, int) res"
  ps_setfd1 :: "io_error option"

definition create_ready_pipe :: "pipe_script \<Rightarrow> int set \<Rightarrow> (AppError + int \<times> int) \<times> int set" where
  "create_ready_pipe ps fds =
     (case ps_pipe ps of
        Inl e \<Rightarrow> (Inl (Io e), fds)
      | Inr (r, w) \<Rightarrow>
          let fds = insert r (insert w fds) in
          case set_cloexec (ps_getfd0 ps) (ps_setfd0 ps) True of
            Inl err \<Rightarrow> (Inl err, close_fd_quietly w (close_fd_quietly r fds))
          | Inr _ \<Rightarrow>
              (case set_cloexec (ps_getfd1 ps) (ps_setfd1 ps) False of
                 Inl err \<Rightarrow> (Inl err, close_fd_quietly w (close_fd_quietly r fds))
               | Inr _ \<Rightarrow> (Inr (r, w), fds)))"

text \<open>
  The loop that waits for the ready byte: answers of \<open>try_wait\<close> (none left: still running) and of \<open>read\<close>
  (none left or no bytes: the pipe is closed).
\<close>

fun ready_loop ::
  "nat \<Rightarrow> (io_error, string option) res list \<Rightarrow> (io_error, bytes) res list \<Rightarrow> world \<Rightarrow> (AppError + unit) \<times> world" where
  "ready_loop deadline children reads w =
     (case (case children of [] \<Rightarrow> Inr None | c # _ \<Rightarrow> c) of
        Inl e \<Rightarrow> (Inl (AppError_from_io e), w)
      | Inr (Some status) \<Rightarrow> (Inl (Message (''daemon exited early while starting: '' @ status)), w)
      | Inr None \<Rightarrow>
          (case wait_readable deadline w of
             (Inl e, w) \<Rightarrow> (Inl e, w)
           | (Inr False, w) \<Rightarrow> (Inl (Message ''start timeout''), w)
           | (Inr True, w) \<Rightarrow>
               (case reads of
                  [] \<Rightarrow> (Inl (Message ''ready pipe closed before daemon signaled ready''), w)
                | Inr [] # _ \<Rightarrow> (Inl (Message ''ready pipe closed before daemon signaled ready''), w)
                | Inr (b # _) # _ \<Rightarrow>
                    if b = READY_SIGNAL_BYTE then (Inr (), w)
                    else (Inl (Message (''invalid ready signal byte: '' @ fmt_nat (unat b))), w)
                | Inl e # rest \<Rightarrow>
                    if os_error_matches e (\<lambda>code. code = EINTR \<or> code = EAGAIN \<or> code = EWOULDBLOCK)
                    then ready_loop deadline (tl children) rest w
                    else (Inl (Io e), w))))"

declare ready_loop.simps [simp del]

definition wait_child_ready_signal ::
  "(io_error, string option) res list \<Rightarrow> (io_error, bytes) res list \<Rightarrow> nat \<Rightarrow> world \<Rightarrow> (AppError + unit) \<times> world" where
  "wait_child_ready_signal children reads timeout w =
     (let (t, w) = instant_now w in ready_loop (t + timeout) children reads w)"

record start_script =
  ss_create_dir :: "io_error option"
  ss_open :: "io_error option"
  ss_clone :: "io_error option"
  ss_pipe :: pipe_script
  ss_exe :: "(io_error, string) res"
  ss_spawn :: "(io_error, nat) res"
  ss_children :: "(io_error, string option) res list"
  ss_reads :: "(io_error, bytes) res list"

text \<open>The arguments of the process that is started.\<close>

definition daemon_argv :: "string \<Rightarrow> Options \<Rightarrow> string \<Rightarrow> string list" where
  "daemon_argv exe options work_dir = [exe, ''-c'', opt_config_path options, ''-d'', work_dir, ''run'']"

text \<open>The question mark on a call that can only fail with an \<open>io::Error\<close>.\<close>

definition io_step :: "io_error option \<Rightarrow> (AppError, unit) res" where
  "io_step err = (case err of Some e \<Rightarrow> Inl (AppError_from_io e) | None \<Rightarrow> Inr ())"

text \<open>The first half: a running daemon, or the working directory for a new one with its log file opened.\<close>

definition prepare_start ::
  "(io_error, string) res \<Rightarrow> (string \<Rightarrow> (io_error, string) res) \<Rightarrow> procfs \<Rightarrow> start_script \<Rightarrow> Options \<Rightarrow>
   (AppError, DaemonProcess + string) res" where
  "prepare_start current_dir canonicalize pf ss options =
     res_bind (normalize_work_dir current_dir canonicalize (opt_work_dir options)) (\<lambda>work_dir.
     res_bind (find_running_daemon_normalized pf work_dir) (\<lambda>running.
       case running of
         Some proc \<Rightarrow> Inr (Inl proc)
       | None \<Rightarrow>
           res_bind (io_step (if path_parent (opt_log_file options) = None then None else ss_create_dir ss)) (\<lambda>_.
           res_bind (io_step (ss_open ss)) (\<lambda>_.
           res_bind (io_step (ss_clone ss)) (\<lambda>_. Inr (Inr work_dir))))))"

text \<open>After the process is started: both ends of the pipe are closed, before and after the wait.\<close>

definition await_daemon ::
  "start_script \<Rightarrow> nat \<Rightarrow> int \<times> int \<Rightarrow> int set \<times> world \<Rightarrow> (AppError + unit) \<times> string list \<times> int set \<times> world" where
  "await_daemon ss pid ready st =
     (case st of (fds, w) \<Rightarrow>
        let fds = close_fd_quietly (snd ready) fds;
            (ready_result, w) = wait_child_ready_signal (ss_children ss) (ss_reads ss) START_WAIT_TIMEOUT w;
            fds = close_fd_quietly (fst ready) fds
        in (ready_result, (if isl ready_result then [] else [''addrsyncd started pid='' @ fmt_nat pid]), fds, w))"

definition launch_daemon ::
  "start_script \<Rightarrow> Options \<Rightarrow> string \<Rightarrow> int set \<times> world \<Rightarrow> (AppError + unit) \<times> string list \<times> string list option \<times> int set \<times> world" where
  "launch_daemon ss options work_dir st =
     (case create_ready_pipe (ss_pipe ss) (fst st) of
        (Inl e, fds) \<Rightarrow> (Inl e, [], None, fds, snd st)
      | (Inr ready, fds) \<Rightarrow>
          (case ss_exe ss of
             Inl e \<Rightarrow> (Inl (AppError_from_io e), [], None, fds, snd st)
           | Inr exe \<Rightarrow>
               (case ss_spawn ss of
                  Inl err \<Rightarrow> (Inl (Io err), [], None, close_fd_quietly (snd ready) (close_fd_quietly (fst ready) fds), snd st)
                | Inr pid \<Rightarrow>
                    let (r, out, fds, w) = await_daemon ss pid ready (fds, snd st)
                    in (r, out, Some (daemon_argv exe options work_dir), fds, w))))"

definition start_background ::
  "(io_error, string) res \<Rightarrow> (string \<Rightarrow> (io_error, string) res) \<Rightarrow> procfs \<Rightarrow> start_script \<Rightarrow> Options \<Rightarrow>
   int set \<times> world \<Rightarrow> (AppError + unit) \<times> string list \<times> string list option \<times> int set \<times> world" where
  "start_background current_dir canonicalize pf ss options st =
     (case prepare_start current_dir canonicalize pf ss options of
        Inl e \<Rightarrow> (Inl e, [], None, st)
      | Inr (Inl proc) \<Rightarrow> (Inr (), [''addrsyncd already running pid='' @ fmt_int (dp_pid proc)], None, st)
      | Inr (Inr work_dir) \<Rightarrow> launch_daemon ss options work_dir st)"

subsection \<open>The two command-line parsers\<close>

lemma scan_globals_iff:
  "scan_globals args dir = Some (dir', rest) \<longleftrightarrow> (\<exists>cfg'. parse_globals args (cfg, dir) = CliOk (cfg', dir', ''run'' # rest))"
  by (induction args dir arbitrary: cfg rule: scan_globals.induct) (auto split: list.splits)

lemma parse_run_command_ok:
  "list_all (\<lambda>a. a = ''--daemon'') rest \<longleftrightarrow> (\<exists>d'. parse_run_command rest d = CliOk (Run d'))"
  by (induction rest arbitrary: d) auto

lemma parse_run_only: "parse_run_command rest d = CliOk c \<Longrightarrow> \<exists>d'. c = Run d'"
  by (induction rest arbitrary: d) (auto split: if_splits)

lemma parse_command_run:
  "parse_command args = CliOk (Run d) \<longleftrightarrow> (\<exists>rest. args = ''run'' # rest \<and> parse_run_command rest False = CliOk (Run d))"
proof -
  have c: "parse_cleanup_command xs m \<noteq> CliOk (Run d)" for xs m
    by (induction xs m rule: parse_cleanup_command.induct) (auto split: list.splits)
  have p: "parse_pbr_command xs \<noteq> CliOk (Run d)" for xs
    by (auto simp: parse_pbr_command_def pbr_request_def cli_bind_ok_iff split: list.splits if_splits)
  show ?thesis using c p by (auto simp: parse_command_def no_options_def split: list.splits)
qed

text \<open>
  C32. The program recognises itself: the parser that reads the arguments of a running process out of
  \<^verbatim>\<open>/proc\<close> finds a working directory in them exactly when the command-line parser takes the same arguments
  for \<open>run\<close>, and it is the directory the command line selects.
\<close>

theorem run_parsers_agree:
  "run_work_dir args = Some dir \<longleftrightarrow>
     (\<exists>c d. parse_args args = CliOk c \<and> cli_command c = Run d \<and> cli_work_dir c = dir)"
proof -
  have l: "run_work_dir args = Some dir \<longleftrightarrow>
      (\<exists>rest. scan_globals (tl args) ''.'' = Some (dir, rest) \<and> list_all (\<lambda>a. a = ''--daemon'') rest)"
    by (auto simp: run_work_dir_def split: option.splits)
  have r: "(\<exists>c d. parse_args args = CliOk c \<and> cli_command c = Run d \<and> cli_work_dir c = dir) \<longleftrightarrow>
      (\<exists>cfg rest d. parse_globals (tl args) (DEFAULT_CONFIG_FILE, ''.'') = CliOk (cfg, dir, ''run'' # rest) \<and>
         parse_run_command rest False = CliOk (Run d))" (is "?L \<longleftrightarrow> ?R")
  proof
    assume ?L
    then show ?R by (auto simp: parse_args_def cli_bind_ok_iff parse_command_run DEFAULT_WORK_DIR_def)
  next
    assume ?R
    then obtain cfg rest d where g: "parse_globals (tl args) (DEFAULT_CONFIG_FILE, ''.'') = CliOk (cfg, dir, ''run'' # rest)"
      and "parse_run_command rest False = CliOk (Run d)" by blast
    then have "parse_command (''run'' # rest) = CliOk (Run d)" by (simp add: parse_command_run)
    with g have "parse_args args = CliOk \<lparr>cli_config = cfg, cli_work_dir = dir, cli_command = Run d\<rparr>"
      by (simp add: parse_args_def DEFAULT_WORK_DIR_def)
    then show ?L by auto
  qed
  show ?thesis
    unfolding l r scan_globals_iff [of _ _ _ _ DEFAULT_CONFIG_FILE] using parse_run_command_ok [of _ False] by blast
qed

subsection \<open>Waiting for the daemon to stop\<close>

text \<open>The world before the \<open>k\<close>-th look, and the reading of the clock that decides whether it takes place.\<close>

primrec look_world :: "world \<Rightarrow> nat \<Rightarrow> world" where
  "look_world w 0 = w"
| "look_world w (Suc k) = sleep (poll_interval k) (snd (instant_now (look_world w k)))"

definition look_time :: "world \<Rightarrow> nat \<Rightarrow> nat" where
  "look_time w k = fst (instant_now (look_world w k))"

lemma stop_wait_looks:
  "w0 = look_world w k \<Longrightarrow> stop_wait deadline alive k w0 = (r, w') \<Longrightarrow>
     \<exists>n \<ge> k. (\<forall>j \<in> {k..<n}. look_time w j < deadline \<and> alive j) \<and>
       (if look_time w n < deadline then \<not> alive n \<and> r = Some n else r = None) \<and>
       w' = snd (instant_now (look_world w n))"
proof (induction deadline alive k w0 rule: stop_wait.induct)
  case (1 deadline alive k w0)
  obtain t w1 where nw: "instant_now w0 = (t, w1)" by fastforce
  show ?case
  proof (cases "t < deadline \<and> alive k")
    case True
    then have next_look: "stop_wait deadline alive (Suc k) (sleep (poll_interval k) w1) = (r, w')"
      using "1.prems"(2) nw by (simp add: stop_wait.simps [of deadline alive k])
    have "sleep (poll_interval k) w1 = look_world w (Suc k)" using "1.prems"(1) nw by simp
    from "1.IH" [OF nw [symmetric] refl _ _ this next_look] True obtain n where
      n: "Suc k \<le> n" "\<forall>j \<in> {Suc k..<n}. look_time w j < deadline \<and> alive j"
      "(if look_time w n < deadline then \<not> alive n \<and> r = Some n else r = None) \<and> w' = snd (instant_now (look_world w n))"
      by blast
    have "look_time w k < deadline \<and> alive k" using True nw "1.prems"(1) by (simp add: look_time_def)
    with n(1,2) have "\<forall>j \<in> {k..<n}. look_time w j < deadline \<and> alive j" by (metis atLeastLessThan_iff le_neq_implies_less Suc_leI)
    with n(1,3) show ?thesis by (intro exI [of _ n]) simp
  next
    case False
    then show ?thesis
      using "1.prems" nw
      by (intro exI [of _ k]) (auto simp: stop_wait.simps [of deadline alive k] look_time_def split: if_splits)
  qed
qed

lemma look_time_lower: "clock w + sum poll_interval {0..<k} \<le> look_time w k"
proof -
  have "clock w + sum poll_interval {0..<k} \<le> clock (look_world w k)"
  proof (induction k)
    case (Suc k)
    then show ?case using instant_now_mono [of "look_world w k"] by (simp add: sleep_def)
  qed simp
  then show ?thesis using instant_now_mono(1) [of "look_world w k"] by (simp add: look_time_def)
qed

lemma look_time_exact:
  assumes "times w = []"
  shows "look_time w 0 = clock w" "look_time w (Suc k) = look_time w k + poll_interval k"
proof -
  have t: "times (look_world w k) = []" for k
    using assms by (induction k) (simp_all add: sleep_def instant_now_def)
  show "look_time w 0 = clock w" "look_time w (Suc k) = look_time w k + poll_interval k"
    using t [of k] t [of 0] by (simp_all add: look_time_def sleep_def instant_now_def)
qed

lemma poll_interval_le: "poll_interval k \<le> STOP_POLL_MAX"
  by (cases k) simp_all

lemma poll_interval_late: "4 \<le> k \<Longrightarrow> poll_interval k = STOP_POLL_MAX"
proof (induction k rule: nat_induct_at_least)
  case base
  have "poll_interval (Suc (Suc (Suc (Suc 0)))) = STOP_POLL_MAX" by simp
  moreover have "(4 :: nat) = Suc (Suc (Suc (Suc 0)))" by simp
  ultimately show ?case by (simp only:)
qed simp

lemma poll_sum: "secs 5 \<le> sum poll_interval {0..<23}"
proof -
  have "sum poll_interval {0..<Suc (Suc (Suc (Suc 0)))} = millis 300" by simp
  moreover have "(4 :: nat) = Suc (Suc (Suc (Suc 0)))" by simp
  ultimately have "sum poll_interval {0..<4} = millis 300" by (simp only:)
  moreover have "sum poll_interval {4..<23} = sum (\<lambda>_. STOP_POLL_MAX) {4..<23 :: nat}"
    by (intro sum.cong) (simp_all add: poll_interval_late)
  moreover have "sum poll_interval {0..<23} = sum poll_interval {0..<4} + sum poll_interval {4..<23}"
    by (rule sum.atLeastLessThan_concat [symmetric]) simp_all
  ultimately show ?thesis by simp
qed

lemma stop_looks_bounded: "sum poll_interval {0..<n} < secs 5 \<Longrightarrow> n < 23"
proof (rule ccontr)
  assume a: "sum poll_interval {0..<n} < secs 5" "\<not> n < 23"
  then have "sum poll_interval {0..<23} \<le> sum poll_interval {0..<n}" by (intro sum_mono2) auto
  with a(1) poll_sum show False by simp
qed

text \<open>
  C34. Stopping waits as long as it may and claims no more than it saw. After the signal was delivered the clock is
  read before every look at the process; looks follow each other, with the sleeps in between, as long as the
  reading is before the five-second deadline and the process is still the same. Success is reported exactly when a
  look finds it gone or replaced by another process, at the first such look, and the timeout exactly when a reading
  has reached the deadline after only looks that found it. There are at most 23 looks, and if no time passes but in the
  sleeps the wait ends less than one poll interval of 250 milliseconds after the deadline.
\<close>

theorem stop_reports_what_it_saw:
  assumes "res_bind (normalize_work_dir cd canon dir) (find_running_daemon_normalized pf) = Inr (Some proc)"
    "instant_now w = (t, w1)"
  shows "\<exists>n \<le> 23. (\<forall>j < n. look_time w1 j < t + STOP_WAIT_TIMEOUT \<and> is_same_process_alive (looks j) (dp_pid proc) (dp_start_ticks proc)) \<and>
    (if look_time w1 n < t + STOP_WAIT_TIMEOUT
     then n < 23 \<and> \<not> is_same_process_alive (looks n) (dp_pid proc) (dp_start_ticks proc) \<and>
       stop_background cd canon pf (Inr ()) looks dir w =
         (Inr (), [''addrsyncd stopped pid='' @ fmt_int (dp_pid proc)], snd (instant_now (look_world w1 n)))
     else stop_background cd canon pf (Inr ()) looks dir w =
         (Inl (Message ''stop timeout''), [], snd (instant_now (look_world w1 n)))) \<and>
    (times w = [] \<longrightarrow> look_time w1 n < t + STOP_WAIT_TIMEOUT + STOP_POLL_MAX)"
proof -
  let ?d = "t + STOP_WAIT_TIMEOUT" and ?alive = "\<lambda>k. is_same_process_alive (looks k) (dp_pid proc) (dp_start_ticks proc)"
  have t: "clock w1 = t" using instant_now_mono [of w] assms(2) by simp
  obtain q w2 where q: "stop_wait ?d ?alive 0 (look_world w1 0) = (q, w2)" by fastforce
  obtain n where n: "\<forall>j < n. look_time w1 j < ?d \<and> ?alive j"
    "if look_time w1 n < ?d then \<not> ?alive n \<and> q = Some n else q = None" "w2 = snd (instant_now (look_world w1 n))"
    using stop_wait_looks [OF refl q] by (auto simp: atLeast0LessThan lessThan_iff)
  have eq: "stop_background cd canon pf (Inr ()) looks dir w =
      (case q of Some _ \<Rightarrow> (Inr (), [''addrsyncd stopped pid='' @ fmt_int (dp_pid proc)], w2)
       | None \<Rightarrow> (Inl (Message ''stop timeout''), [], w2))"
    using assms q by (cases q) (simp_all add: stop_background_def send_signal_def Let_def)
  have few: "k < 23" if "look_time w1 k < ?d" for k
    using that look_time_lower [of w1 k] t by (intro stop_looks_bounded) simp
  have "n \<le> 23" using n(1) few [of "n - 1"] by (cases n) auto
  moreover have "look_time w1 n < ?d + STOP_POLL_MAX" if "times w = []"
  proof -
    have w1: "times w1 = []" using that assms(2) by (auto simp: instant_now_def)
    show ?thesis
      using look_time_exact [OF w1] t n(1) poll_interval_le [of "n - 1"] by (cases n) (auto intro: add_less_le_mono)
  qed
  ultimately show ?thesis using n few [of n] eq by (intro exI [of _ n]) auto
qed

subsection \<open>The started daemon is found\<close>

text \<open>The contents of \<^verbatim>\<open>/proc/<pid>/cmdline\<close> for an argument vector.\<close>

definition cmdline_bytes :: "string list \<Rightarrow> bytes" where
  "cmdline_bytes argv = concat (map (\<lambda>a. as_bytes a @ [0]) argv)"

lemma split_zero_append: "0 \<notin> set bs \<Longrightarrow> split_zero cur (bs @ 0 # r) = (rev cur @ bs) # split_zero [] r"
  by (induction bs arbitrary: cur) auto

lemma split_zero_cmdline: "list_all (\<lambda>a. 0 \<notin> set (as_bytes a)) argv \<Longrightarrow> split_zero [] (cmdline_bytes argv) = map as_bytes argv @ [[]]"
  by (induction argv) (simp_all add: cmdline_bytes_def split_zero_append)

text \<open>An argument that reaches \<^verbatim>\<open>/proc\<close> and comes back: not empty, valid UTF-8, no zero byte.\<close>

definition plain_arg :: "string \<Rightarrow> bool" where
  "plain_arg a \<longleftrightarrow> a \<noteq> [] \<and> utf8_lossy (as_bytes a) = as_bytes a \<and> 0 \<notin> set (as_bytes a)"

lemma plain_arg_ascii: "a \<noteq> [] \<Longrightarrow> is_ascii (as_bytes a) \<Longrightarrow> 0 \<notin> set (as_bytes a) \<Longrightarrow> plain_arg a"
  by (simp add: plain_arg_def utf8_lossy_ascii)

lemma read_cmdline_args_argv:
  assumes "pf_cmdline pf pid = Inr (cmdline_bytes argv)" "argv \<noteq> []" "list_all plain_arg argv"
  shows "read_cmdline_args pf pid = Some argv"
proof -
  have z: "split_zero [] (cmdline_bytes argv) = map as_bytes argv @ [[]]"
    using assms(3) by (intro split_zero_cmdline) (auto simp: plain_arg_def list_all_iff)
  have f: "filter (\<lambda>part. part \<noteq> []) (map as_bytes argv @ [[]]) = map as_bytes argv"
    using assms(3) by (auto simp: plain_arg_def list_all_iff filter_id_conv)
  have m: "map (\<lambda>part. str_of_bytes (utf8_lossy part)) (map as_bytes argv) = argv"
    using assms(3) by (auto simp: plain_arg_def list_all_iff intro: map_idI)
  have ne: "cmdline_bytes argv \<noteq> []" using assms(2) by (cases argv) (simp_all add: cmdline_bytes_def)
  show ?thesis using assms(1,2) ne by (simp only: read_cmdline_args_def z f m Let_def sum.case if_False)
qed

lemma parse_i32_fmt: "0 \<le> pid \<Longrightarrow> pid < 2 ^ 31 \<Longrightarrow> parse_i32 (fmt_int pid) = Some pid"
proof -
  assume p: "0 \<le> pid" "pid < 2 ^ 31"
  have "\<not> starts_with (fmt_nat (nat pid)) ''-''"
    using fmt_nat_char [of "CHR ''-''" "nat pid"] by (cases "fmt_nat (nat pid)") (auto simp: starts_with_def is_digit_def)
  moreover have "nat pid < 2 ^ 31" using p by (simp add: nat_less_iff)
  ultimately show ?thesis
    using p parse_radix_fmt_nat [of "nat pid" "2 ^ 31"] by (simp add: parse_i32_def parse_signed_def fmt_int_def)
qed

lemma normalized_work_dir:
  assumes "normalize_work_dir (Inr cwd) canon dir = Inr d" "is_absolute cwd" "\<And>p c. canon p = Inr c \<Longrightarrow> is_absolute c"
  shows "is_absolute d \<and> normalize_path d = d"
proof -
  have join: "is_absolute (path_join cwd p)" for p
    using assms(2) by (cases cwd) (auto simp: path_join_def starts_with_def)
  obtain q where "is_absolute q" "d = normalize_path q"
    using assms join by (auto simp: normalize_work_dir_def res_bind_Inr_iff split: if_splits sum.splits)
  then show ?thesis
    using normalize_path_idem by simp
qed

lemma daemon_entry_argv:
  assumes "is_absolute dir" "normalize_path dir = dir" "pf_cmdline pf pid = Inr (cmdline_bytes (daemon_argv exe options dir))"
    "list_all plain_arg (daemon_argv exe options dir)" "is_addrsyncd_argv0 exe" "1 < pid" "pid < 2 ^ 31" "pid \<noteq> pf_self pf"
  shows "daemon_entry pf dir (Inr (Some (fmt_int pid))) = Some \<lparr>dp_pid = pid, dp_start_ticks = process_start_ticks pf pid\<rparr>"
proof -
  have "run_work_dir (daemon_argv exe options dir) = Some dir" by (simp add: run_work_dir_def daemon_argv_def)
  then have "parse_run_work_dir pf pid (daemon_argv exe options dir) = Some dir"
    using assms(1,2) by (simp add: parse_run_work_dir_def resolve_daemon_work_dir_def)
  moreover have "read_cmdline_args pf pid = Some (daemon_argv exe options dir)"
    using assms(3,4) by (intro read_cmdline_args_argv) (simp_all add: daemon_argv_def)
  moreover have "\<exists>rest. daemon_argv exe options dir = exe # rest" by (simp add: daemon_argv_def)
  ultimately show ?thesis
    using assms(5-8) parse_i32_fmt [of pid] by (auto simp: daemon_entry_def)
qed

lemma first_some_append: "(\<And>x. x \<in> set xs \<Longrightarrow> f x = None) \<Longrightarrow> first_some f (xs @ ys) = first_some f ys"
  by (induction xs) simp_all

text \<open>
  C33. The daemon that was started is the one that is found. Take the arguments \<open>run --daemon\<close> starts the
  background process with, none of them empty and all valid UTF-8; when a process with these arguments is listed
  in \<^verbatim>\<open>/proc\<close>, under an executable called addrsyncd, and no entry before it belongs to a daemon with the same
  working directory, then the lookup returns it, and every later \<open>resync\<close> and \<open>status\<close> whose working directory
  normalises to the same path, wherever its own current directory is, addresses that process.
\<close>

theorem spawned_daemon_found:
  assumes "prepare_start (Inr cwd) canon pf ss options = Inr (Inr dir)" "is_absolute cwd"
    "\<And>p c. canon p = Inr c \<Longrightarrow> is_absolute c"
    "pf_entries pf' = Inr (earlier @ Inr (Some (fmt_int pid)) # later)"
    "\<And>e. e \<in> set earlier \<Longrightarrow> daemon_entry pf' dir e = None"
    "pf_cmdline pf' pid = Inr (cmdline_bytes (daemon_argv exe options dir))"
    "list_all plain_arg (daemon_argv exe options dir)" "is_addrsyncd_argv0 exe"
    "1 < pid" "pid < 2 ^ 31" "pid \<noteq> pf_self pf'"
    "normalize_work_dir cwd' canon' (opt_work_dir options') = Inr dir"
  shows "find_running_daemon_normalized pf' dir = Inr (Some \<lparr>dp_pid = pid, dp_start_ticks = process_start_ticks pf' pid\<rparr>) \<and>
    signal_resync cwd' canon' pf' (Inr ()) (opt_work_dir options') = (Inr (), [''resync signal sent pid='' @ fmt_int pid]) \<and>
    print_status cwd' canon' pf' (Returns options') = Some (Inr (), [''running pid='' @ fmt_int pid])"
proof -
  have "normalize_work_dir (Inr cwd) canon (opt_work_dir options) = Inr dir"
    using assms(1) by (auto simp: prepare_start_def res_bind_Inr_iff split: option.splits)
  then have "is_absolute dir" "normalize_path dir = dir" using normalized_work_dir assms(2,3) by blast+
  then have "daemon_entry pf' dir (Inr (Some (fmt_int pid))) = Some \<lparr>dp_pid = pid, dp_start_ticks = process_start_ticks pf' pid\<rparr>"
    using assms(6-11) by (rule daemon_entry_argv)
  then have found: "find_running_daemon_normalized pf' dir = Inr (Some \<lparr>dp_pid = pid, dp_start_ticks = process_start_ticks pf' pid\<rparr>)"
    using assms(4) first_some_append [of earlier "daemon_entry pf' dir", OF assms(5)]
    by (simp add: find_running_daemon_normalized_def)
  then show ?thesis
    using assms(12) by (simp add: signal_resync_def print_status_def send_signal_def)
qed

subsection \<open>An example\<close>

text \<open>An empty \<^verbatim>\<open>/proc\<close>, and one with the daemon in it.\<close>

definition empty_procfs :: procfs where
  "empty_procfs = \<lparr>pf_self = 7, pf_entries = Inr [], pf_cmdline = (\<lambda>_. Inr []), pf_cwd = (\<lambda>_. Inr ''/''), pf_stat = (\<lambda>_. Inr [])\<rparr>"

definition sample_procfs :: procfs where
  "sample_procfs = empty_procfs\<lparr>pf_entries := Inr [Inr (Some (fmt_int 42))],
     pf_cmdline := (\<lambda>_. Inr (cmdline_bytes (daemon_argv ''/addrsyncd'' sample_options ''/e'')))\<rparr>"

definition sample_start :: start_script where
  "sample_start = \<lparr>ss_create_dir = None, ss_open = None, ss_clone = None,
     ss_pipe = \<lparr>ps_pipe = Inr (3, 4), ps_getfd0 = Inr 0, ps_setfd0 = None, ps_getfd1 = Inr 0, ps_setfd1 = None\<rparr>,
     ss_exe = Inr ''/addrsyncd'', ss_spawn = Inr 9, ss_children = [], ss_reads = []\<rparr>"

lemma sample_dir: "is_absolute ''/e''" "normalize_path ''/e'' = ''/e''"
  "normalize_work_dir (Inr ''/'') (\<lambda>_. Inr ''/e'') ''/e'' = Inr ''/e''"
proof -
  have c: "components ''/e'' = [RootDir, NormalPart ''e'']" by (simp add: components_def starts_with_def skipped_def)
  show a: "is_absolute ''/e''" by (simp add: starts_with_def)
  show n: "normalize_path ''/e'' = ''/e''" using normalize_path_stack(1) [OF a] by (simp add: c abs_text_def)
  show "normalize_work_dir (Inr ''/'') (\<lambda>_. Inr ''/e'') ''/e'' = Inr ''/e''" by (simp add: normalize_work_dir_def a n)
qed

lemma sample_argv:
  "list_all plain_arg (daemon_argv ''/addrsyncd'' sample_options ''/e'')" "is_addrsyncd_argv0 ''/addrsyncd''"
proof -
  show "list_all plain_arg (daemon_argv ''/addrsyncd'' sample_options ''/e'')"
    by (simp add: daemon_argv_def sample_options_def plain_arg_ascii is_ascii_def as_bytes_def)
  show "is_addrsyncd_argv0 ''/addrsyncd''"
    by (simp add: is_addrsyncd_argv0_def file_name_def components_def starts_with_def skipped_def)
qed

lemma sample_prepared: "prepare_start (Inr ''/'') (\<lambda>_. Inr ''/e'') empty_procfs sample_start sample_options = Inr (Inr ''/e'')"
  using sample_dir(3)
  by (simp add: prepare_start_def sample_options_def find_running_daemon_normalized_def
      empty_procfs_def sample_start_def io_step_def)

lemma sample_found:
  "res_bind (normalize_work_dir (Inr ''/'') (\<lambda>_. Inr ''/e'') ''/e'') (find_running_daemon_normalized sample_procfs) =
     Inr (Some \<lparr>dp_pid = 42, dp_start_ticks = None\<rparr>)"
proof -
  have "daemon_entry sample_procfs ''/e'' (Inr (Some (fmt_int 42))) = Some \<lparr>dp_pid = 42, dp_start_ticks = None\<rparr>"
    using daemon_entry_argv [OF sample_dir(1,2) _ sample_argv, of sample_procfs 42]
    by (simp add: sample_procfs_def empty_procfs_def process_start_ticks_def parse_proc_stat_start_ticks_def)
  then show ?thesis by (simp add: sample_dir(3) find_running_daemon_normalized_def sample_procfs_def)
qed

text \<open>The same process listed after a name that is not UTF-8 and a kernel thread, whose command line is empty.\<close>

definition busy_procfs :: procfs where
  "busy_procfs = sample_procfs\<lparr>pf_entries := Inr [Inr None, Inr (Some (fmt_int 2)), Inr (Some (fmt_int 42))],
     pf_cmdline := (pf_cmdline sample_procfs)(2 := Inr [])\<rparr>"

lemma busy_others: "e \<in> set [Inr None, Inr (Some (fmt_int 2))] \<Longrightarrow> daemon_entry busy_procfs ''/e'' e = None"
  using parse_i32_fmt [of 2] by (auto simp: daemon_entry_def busy_procfs_def read_cmdline_args_def)

theorem spawned_daemon_found_witness:
  "find_running_daemon_normalized busy_procfs ''/e'' = Inr (Some \<lparr>dp_pid = 42, dp_start_ticks = None\<rparr>) \<and>
   signal_resync (Inr ''/'') (\<lambda>_. Inr ''/e'') busy_procfs (Inr ()) (opt_work_dir sample_options) =
     (Inr (), [''resync signal sent pid='' @ fmt_int 42])"
proof -
  have n: "normalize_work_dir (Inr ''/'') (\<lambda>_. Inr ''/e'') (opt_work_dir sample_options) = Inr ''/e''"
    using sample_dir(3) by (simp add: sample_options_def)
  have e: "pf_entries busy_procfs = Inr ([Inr None, Inr (Some (fmt_int 2))] @ Inr (Some (fmt_int 42)) # [])"
    by (simp add: busy_procfs_def)
  show ?thesis
    using spawned_daemon_found [OF sample_prepared _ _ e busy_others _ sample_argv _ _ _ n]
    by (simp add: starts_with_def busy_procfs_def sample_procfs_def empty_procfs_def process_start_ticks_def parse_proc_stat_start_ticks_def)
qed

text \<open>A process that is still there at the first look and gone at the second.\<close>

definition sample_looks :: "nat \<Rightarrow> procfs" where
  "sample_looks k = (if k = 0 then sample_procfs\<lparr>pf_stat := (\<lambda>_. Inr (''42 (a) '' @ concat (replicate 20 ''7 '')))\<rparr> else empty_procfs)"

lemma after_last_none: "CHR '')'' \<notin> set cs \<Longrightarrow> after_last '') '' cs = None"
  by (induction cs) (auto simp: starts_with_def)

lemma split_ws_sevens: "split_ws [] (concat (replicate n ''7 '')) = replicate n ''7''"
  by (induction n) (simp_all add: ws_encodings_def)

lemma sample_looks_alive: "is_same_process_alive (sample_looks k) 42 None \<longleftrightarrow> k = 0"
proof -
  let ?sevens = "concat (replicate 20 ''7 '')"
  have "after_last '') '' ?sevens = None" by (rule after_last_none) auto
  then have "after_last '') '' (''42 (a) '' @ ?sevens) = Some ?sevens" by (simp add: starts_with_def)
  then have "parse_proc_stat_start_ticks (''42 (a) '' @ ?sevens) = Some 7"
    by (simp add: parse_proc_stat_start_ticks_def split_ws_sevens parse_radix_def starts_with_def to_digit_def del: after_last.simps)
  then show ?thesis
    by (simp add: is_same_process_alive_def process_start_ticks_def sample_looks_def empty_procfs_def)
      (simp add: parse_proc_stat_start_ticks_def)
qed

theorem stop_reports_what_it_saw_witness:
  "stop_background (Inr ''/'') (\<lambda>_. Inr ''/e'') sample_procfs (Inr ()) sample_looks ''/e'' quiet_world =
     (Inr (), [''addrsyncd stopped pid='' @ fmt_int 42], quiet_world\<lparr>clock := STOP_POLL_INITIAL\<rparr>)"
proof -
  have i: "instant_now quiet_world = (0, quiet_world)" by (simp add: instant_now_def quiet_world_def)
  have l: "look_time quiet_world 0 = 0" "look_time quiet_world (Suc 0) = STOP_POLL_INITIAL"
    "snd (instant_now (look_world quiet_world (Suc 0))) = quiet_world\<lparr>clock := STOP_POLL_INITIAL\<rparr>"
    by (simp_all add: look_time_def i sleep_def) (simp_all add: instant_now_def quiet_world_def)
  obtain n where n: "\<forall>j < n. is_same_process_alive (sample_looks j) 42 None"
    "look_time quiet_world n < STOP_WAIT_TIMEOUT \<Longrightarrow> \<not> is_same_process_alive (sample_looks n) 42 None \<and>
       stop_background (Inr ''/'') (\<lambda>_. Inr ''/e'') sample_procfs (Inr ()) sample_looks ''/e'' quiet_world =
         (Inr (), [''addrsyncd stopped pid='' @ fmt_int 42], snd (instant_now (look_world quiet_world n)))"
    using stop_reports_what_it_saw [OF sample_found i, of sample_looks] by (auto split: if_splits)
  have "n \<le> 1" using n(1) [rule_format, of 1] by (auto simp: sample_looks_alive not_le [symmetric])
  moreover have "n \<noteq> 0"
  proof
    assume "n = 0"
    with n(2) l(1) have "\<not> is_same_process_alive (sample_looks 0) 42 None" by simp
    then show False by (simp add: sample_looks_alive)
  qed
  ultimately have "n = Suc 0" by simp
  with n(2) l(2,3) show ?thesis by simp
qed

subsection \<open>Descriptors\<close>

text \<open>
  Starting the daemon leaves no end of the ready pipe open in the launcher, whichever call fails and
  however the wait for the ready byte ends, with one exception: when the path of the executable cannot be found
  both ends stay open.
\<close>

theorem start_closes_pipe:
  assumes "ps_pipe (ss_pipe ss) = Inr (rd, wr)" "0 \<le> rd" "0 \<le> wr" "rd \<notin> fds" "wr \<notin> fds"
    "start_background cd canon pf ss options (fds, w) = (r, out, argv, fds', w')"
  shows "fds' = fds \<or> isl (ss_exe ss) \<and> argv = None \<and> fds' = insert rd (insert wr fds)"
proof -
  have close: "close_fd_quietly wr (close_fd_quietly rd (insert rd (insert wr fds))) = fds"
    "close_fd_quietly rd (close_fd_quietly wr (insert rd (insert wr fds))) = fds"
    using assms(2-5) by (auto simp: close_fd_quietly_def)
  have pipe: "snd (create_ready_pipe (ss_pipe ss) fds) =
      (if isl (fst (create_ready_pipe (ss_pipe ss) fds)) then fds else insert rd (insert wr fds))"
    "\<not> isl (fst (create_ready_pipe (ss_pipe ss) fds)) \<Longrightarrow> fst (create_ready_pipe (ss_pipe ss) fds) = Inr (rd, wr)"
    using assms(1) close by (auto simp: create_ready_pipe_def Let_def split: sum.splits)
  obtain q fds1 where q: "create_ready_pipe (ss_pipe ss) fds = (q, fds1)" by fastforce
  show ?thesis
    using assms(6) pipe close q
    by (auto simp: start_background_def launch_daemon_def await_daemon_def Let_def split: sum.splits prod.splits)
qed

theorem start_closes_pipe_witness:
  "fst (snd (snd (snd (start_background (Inr ''/'') (\<lambda>_. Inr ''/e'') empty_procfs sample_start sample_options ({0, 1, 2}, quiet_world))))) = {0, 1, 2}"
proof -
  obtain r out argv fds' w' where s: "start_background (Inr ''/'') (\<lambda>_. Inr ''/e'') empty_procfs sample_start sample_options ({0, 1, 2}, quiet_world) =
      (r, out, argv, fds', w')" by (metis prod_cases5)
  have "ps_pipe (ss_pipe sample_start) = Inr (3, 4)" "\<not> isl (ss_exe sample_start)" by (simp_all add: sample_start_def)
  with start_closes_pipe [OF this(1) _ _ _ _ s] s show ?thesis by simp
qed

end
