(* ===== verification/Logger.thy ===== *)
theory Logger
  imports Config
begin

text \<open>
  \<^verbatim>\<open>src/logger.rs\<close>: what the logger does with a call.

  The writer is the library's \<open>BufWriter\<close> over a file: a buffer, its capacity, the bytes that have reached
  the file, and a script of what the next transfers to the file do (\<open>None\<close>, or an empty script: everything
  is written; \<open>Some (n, e)\<close>: the error \<open>e\<close> after \<open>n\<close> bytes). The wall clock is an argument of each
  call (\<open>tod\<close>, with the broken-down local time), monotonic instants come from the world.
\<close>

subsection \<open>Schemas\<close>

fun tag :: "Level \<Rightarrow> string" where
  "tag LError = ''E''"
| "tag LWarn = ''W''"
| "tag LInfo = ''I''"
| "tag LDebug = ''D''"

record LogEventSchema =
  sch_event :: string
  sch_required_fields :: "string list"

definition DAEMON_STARTED :: LogEventSchema where
  "DAEMON_STARTED = \<lparr>sch_event = ''daemon.started'',
     sch_required_fields = [''pref'', ''table_id'', ''batch_max'', ''count_cleanup_removed'', ''count_resync_add'',
       ''count_resync_del'', ''count_resync_failed'']\<rparr>"

definition DAEMON_STOPPED :: LogEventSchema where
  "DAEMON_STOPPED = \<lparr>sch_event = ''daemon.stopped'',
     sch_required_fields = [''count_cleanup_removed'', ''count_dropped_events'']\<rparr>"

definition RULE_BATCH :: LogEventSchema where
  "RULE_BATCH = \<lparr>sch_event = ''rule.batch'',
     sch_required_fields = [''batch_id'', ''count_input'', ''count_add'', ''count_del'', ''count_noop'', ''duration_ms'']\<rparr>"

definition RULE_ACK_FAILED :: LogEventSchema where
  "RULE_ACK_FAILED = \<lparr>sch_event = ''rule.ack_failed'',
     sch_required_fields = [''batch_id'', ''seq'', ''errno'', ''op_action'', ''op_addr'']\<rparr>"

definition NETLINK_ADDR_EVENT :: LogEventSchema where
  "NETLINK_ADDR_EVENT = \<lparr>sch_event = ''netlink.addr_event'',
     sch_required_fields = [''nlmsg_type'', ''nlmsg_seq'', ''family'', ''ifindex'', ''addr'', ''flags'', ''op_action'']\<rparr>"

definition collect_missing_required_fields :: "string list \<Rightarrow> Field list \<Rightarrow> string list" where
  "collect_missing_required_fields required flds = filter (\<lambda>key. \<not> list_ex (\<lambda>(k, _). k = key) flds) required"

text \<open>The calls \<open>log_schema\<close> makes, with and without debug assertions.\<close>

definition log_schema :: "bool \<Rightarrow> Level \<Rightarrow> LogEventSchema \<Rightarrow> Field list \<Rightarrow> log_call list" where
  "log_schema debug_assertions level sch flds =
     (let missing = (if debug_assertions then collect_missing_required_fields (sch_required_fields sch) flds else [])
      in (if missing \<noteq> []
          then [LogLine LWarn ''logger.schema_violation''
                  [(''event'', VStr (sch_event sch)), (''missing'', VDisplayText (join_with '','' missing))]]
          else []) @ [LogLine level (sch_event sch) flds])"

subsection \<open>Rate limiting\<close>

record RateEntry =
  re_key :: string
  re_at :: nat

abbreviation (input) RATE_LIMIT_SLOTS :: nat where "RATE_LIMIT_SLOTS \<equiv> 16"

record RateLimiter =
  rl_entries :: "RateEntry option list"
  rl_len :: usize

definition RateLimiter_default :: RateLimiter where
  "RateLimiter_default = \<lparr>rl_entries = replicate RATE_LIMIT_SLOTS None, rl_len = 0\<rparr>"

definition entry_at :: "RateLimiter \<Rightarrow> nat \<Rightarrow> nat \<Rightarrow> nat" where
  "entry_at r now idx = (case rl_entries r ! idx of Some e \<Rightarrow> re_at e | None \<Rightarrow> now)"

definition oldest_slot :: "RateLimiter \<Rightarrow> nat \<Rightarrow> usize" where
  "oldest_slot r now =
     fst (fold (\<lambda>idx (oldest_idx, oldest_at).
            let at = entry_at r now idx in if at < oldest_at then (idx, at) else (oldest_idx, oldest_at))
          [1..<RATE_LIMIT_SLOTS] (0, entry_at r now 0))"

definition should_log :: "string \<Rightarrow> nat \<Rightarrow> nat \<Rightarrow> RateLimiter \<Rightarrow> bool \<times> RateLimiter" where
  "should_log key interval now r =
     (case find (\<lambda>idx. case rl_entries r ! idx of Some e \<Rightarrow> re_key e = key | None \<Rightarrow> False) [0..<rl_len r] of
        Some idx \<Rightarrow>
          if now - entry_at r now idx < interval then (False, r)
          else (True, r\<lparr>rl_entries := (rl_entries r)[idx := Some \<lparr>re_key = key, re_at = now\<rparr>]\<rparr>)
      | None \<Rightarrow>
          if rl_len r < RATE_LIMIT_SLOTS
          then (True, r\<lparr>rl_entries := (rl_entries r)[rl_len r := Some \<lparr>re_key = key, re_at = now\<rparr>], rl_len := rl_len r + 1\<rparr>)
          else (True, r\<lparr>rl_entries := (rl_entries r)[oldest_slot r now := Some \<lparr>re_key = key, re_at = now\<rparr>]\<rparr>))"

subsection \<open>Formatting\<close>

definition esc_byte :: "char \<Rightarrow> string option" where
  "esc_byte b =
     (if b = DQ then Some [BSL, DQ]
      else if b = BSL then Some [BSL, BSL]
      else if b = CHR 0x0A then Some [BSL, CHR ''n'']
      else if b = CHR 0x0D then Some [BSL, CHR ''r'']
      else if b = CHR 0x09 then Some [BSL, CHR ''t'']
      else None)"

definition ascii_ws :: "char \<Rightarrow> bool" where
  "ascii_ws b \<longleftrightarrow> b \<in> {CHR 0x20, CHR 0x09, CHR 0x0A, CHR 0x0C, CHR 0x0D}"

definition needs_quote :: "string \<Rightarrow> bool" where
  "needs_quote v \<longleftrightarrow> v = [] \<or> list_ex (\<lambda>b. ascii_ws b \<or> b = DQ \<or> b = BSL) v"

text \<open>The copying loop: unescaped stretches are copied when the next escape is found.\<close>

definition append_quoted_text :: "string \<Rightarrow> string \<Rightarrow> string" where
  "append_quoted_text out v =
     (if needs_quote v then
        (case fold (\<lambda>idx (out, seg).
                 case esc_byte (v ! idx) of
                   Some e \<Rightarrow> (out @ slice seg idx v @ e, idx + 1)
                 | None \<Rightarrow> (out, seg)) [0..<length v] (out @ [DQ], 0) of
           (out, seg) \<Rightarrow> out @ drop seg v @ [DQ])
      else out @ v)"

definition ascii_alnum :: "char \<Rightarrow> bool" where
  "ascii_alnum c \<longleftrightarrow> (let n = of_char c :: nat in 48 \<le> n \<and> n \<le> 57 \<or> 65 \<le> n \<and> n \<le> 90 \<or> 97 \<le> n \<and> n \<le> 122)"

definition append_key :: "string \<Rightarrow> string \<Rightarrow> string \<times> bool" where
  "append_key out key =
     (out @ map (\<lambda>b. if ascii_alnum b \<or> b \<in> set ''_-.'' then b else CHR ''_'') key, key \<noteq> [])"

fun append_value :: "string \<Rightarrow> FieldValue \<Rightarrow> string" where
  "append_value out (VStr v) = append_quoted_text out v"
| "append_value out (VBool b) = out @ (if b then ''true'' else ''false'')"
| "append_value out (VUsize n) = out @ fmt_nat n"
| "append_value out (VU64 n) = out @ fmt_nat (unat n)"
| "append_value out (VU32 n) = out @ fmt_nat (unat n)"
| "append_value out (VI32 k) = out @ fmt_int k"
| "append_value out (VU128 n) = out @ fmt_nat n"
| "append_value out (VDisplayIp a) = out @ fmt_ip a"
| "append_value out (VDisplayErr e) = out @ AppError_display e"
| "append_value out (VDisplayText t) = out @ t"

text \<open>\<open>{:0w}\<close> of an integer: zeros between the sign and the digits.\<close>

definition fmt_pad :: "nat \<Rightarrow> int \<Rightarrow> string" where
  "fmt_pad w k =
     (let d = fmt_nat (nat \<bar>k\<bar>) in
      if k < 0 then ''-'' @ replicate (w - 1 - length d) CHR ''0'' @ d else replicate (w - length d) CHR ''0'' @ d)"

record tm =
  tm_year :: int
  tm_mon :: int
  tm_mday :: int
  tm_hour :: int
  tm_min :: int
  tm_sec :: int

text \<open>What \<open>gettimeofday\<close> and \<open>localtime_r\<close> answer.\<close>

datatype tod = TodErr | Tod (tod_sec: int) (tod_usec: int) (tod_local: "tm option")

record TimestampCache =
  tc_sec :: int
  tc_prefix :: string

definition format_timestamp_into :: "tod \<Rightarrow> string \<Rightarrow> TimestampCache \<Rightarrow> string \<times> TimestampCache" where
  "format_timestamp_into t out cache =
     (case t of
        TodErr \<Rightarrow> (out @ ''1970-01-01 00:00:00.000'', cache)
      | Tod sec usec local \<Rightarrow>
          let millisec = usec div 1000;
              fresh = (tc_sec cache \<noteq> sec \<or> tc_prefix cache = [])
          in if fresh \<and> local = None then (out @ ''1970-01-01 00:00:00.000'', cache)
             else
               let cache = (if fresh
                            then let m = the local in
                                 \<lparr>tc_sec = sec,
                                  tc_prefix = fmt_pad 4 (tm_year m + 1900) @ ''-'' @ fmt_pad 2 (tm_mon m + 1) @ ''-'' @
                                    fmt_pad 2 (tm_mday m) @ '' '' @ fmt_pad 2 (tm_hour m) @ '':'' @
                                    fmt_pad 2 (tm_min m) @ '':'' @ fmt_pad 2 (tm_sec m)\<rparr>
                            else cache)
               in (out @ tc_prefix cache @ ''.'' @ fmt_pad 3 millisec, cache))"

text \<open>The fields of a line: the separator is taken back when the key is empty.\<close>

fun append_fields :: "Field list \<Rightarrow> string \<Rightarrow> string" where
  "append_fields [] line = line"
| "append_fields ((key, v) # flds) line =
     (let line = line @ '' | ''; (line, wrote_any) = append_key line key in
      if \<not> wrote_any then append_fields flds (take (length line - 3) line)
      else append_fields flds (append_value (line @ ''='') v))"

definition build_line_into ::
  "tod \<Rightarrow> Level \<Rightarrow> string \<Rightarrow> Field list \<Rightarrow> string \<Rightarrow> TimestampCache \<Rightarrow> string \<times> TimestampCache" where
  "build_line_into t level event flds line cache =
     (let line = line @ ''['';
          (line, cache) = format_timestamp_into t line cache;
          line = line @ ''] ['' @ tag level @ ''] '';
          line = line @ (if event = [] then ''log'' else event);
          line = append_fields flds line
      in (line @ [CHR 0x0A], cache))"

subsection \<open>Writing\<close>

record buf_writer =
  bw_buf :: string
  bw_cap :: usize
  bw_file :: string
  bw_script :: "(nat \<times> io_error) option list"

text \<open>One transfer of a text to the file: the bytes not written and the result.\<close>

definition to_file :: "string \<Rightarrow> buf_writer \<Rightarrow> (io_error, unit) res \<times> string \<times> buf_writer" where
  "to_file d w =
     (case bw_script w of
        Some (n, e) # rest \<Rightarrow> (Inl e, drop n d, w\<lparr>bw_file := bw_file w @ take n d, bw_script := rest\<rparr>)
      | None # rest \<Rightarrow> (Inr (), [], w\<lparr>bw_file := bw_file w @ d, bw_script := rest\<rparr>)
      | [] \<Rightarrow> (Inr (), [], w\<lparr>bw_file := bw_file w @ d\<rparr>))"

definition flush_buf :: "buf_writer \<Rightarrow> (io_error, unit) res \<times> buf_writer" where
  "flush_buf w =
     (if bw_buf w = [] then (Inr (), w)
      else case to_file (bw_buf w) w of (r, rest, w) \<Rightarrow> (r, w\<lparr>bw_buf := rest\<rparr>))"

definition bw_write_all :: "string \<Rightarrow> buf_writer \<Rightarrow> (io_error, unit) res \<times> buf_writer" where
  "bw_write_all d w =
     (let spare = (\<lambda>w. bw_cap w - length (bw_buf w)) in
      if length d < spare w then (Inr (), w\<lparr>bw_buf := bw_buf w @ d\<rparr>)
      else
        case (if length d > spare w then flush_buf w else (Inr (), w)) of
          (Inl e, w) \<Rightarrow> (Inl e, w)
        | (Inr _, w) \<Rightarrow>
            if length d \<ge> bw_cap w
            then (case to_file d w of (r, _, w) \<Rightarrow> (r, w))
            else (Inr (), w\<lparr>bw_buf := bw_buf w @ d\<rparr>))"

record FlushState =
  fl_last_flush_at :: nat
  fl_buffered_bytes :: usize

abbreviation (input) SOFT_FLUSH_INTERVAL :: nat where "SOFT_FLUSH_INTERVAL \<equiv> millis 500"
abbreviation (input) SOFT_FLUSH_BYTES :: usize where "SOFT_FLUSH_BYTES \<equiv> 2 * 1024"

record Logger =
  lg_level :: Level
  lg_writer :: buf_writer
  lg_rate :: RateLimiter
  lg_cache :: TimestampCache
  lg_line :: string
  lg_flush :: FlushState
  lg_stderr :: "string list"

text \<open>\<open>dir_err\<close> and \<open>open_err\<close> are the failures of creating the directory and opening the file.\<close>

definition Logger_new :: "io_error option \<Rightarrow> io_error option \<Rightarrow> Options \<Rightarrow> world \<Rightarrow> (AppError + Logger) \<times> world" where
  "Logger_new dir_err open_err options w =
     (case (case path_parent (opt_log_file options) of
              None \<Rightarrow> None
            | Some parent \<Rightarrow> map_option (\<lambda>e. Config (''create log dir failed ('' @ parent @ ''): '' @ io_text e)) dir_err) of
        Some err \<Rightarrow> (Inl err, w)
      | None \<Rightarrow>
          (case open_err of
             Some e \<Rightarrow> (Inl (Config (''open log file failed ('' @ opt_log_file options @ ''): '' @ io_text e)), w)
           | None \<Rightarrow>
               let (t, w) = instant_now w in
               (Inr \<lparr>lg_level = opt_log_level options,
                     lg_writer = \<lparr>bw_buf = [], bw_cap = 32 * 1024, bw_file = [], bw_script = []\<rparr>,
                     lg_rate = RateLimiter_default, lg_cache = \<lparr>tc_sec = 0, tc_prefix = []\<rparr>, lg_line = [],
                     lg_flush = \<lparr>fl_last_flush_at = t, fl_buffered_bytes = 0\<rparr>, lg_stderr = []\<rparr>, w)))"

definition enabled :: "Logger \<Rightarrow> Level \<Rightarrow> bool" where
  "enabled lg level \<longleftrightarrow> lg_level lg \<ge> level"

definition should_soft_flush :: "usize \<Rightarrow> Logger \<times> world \<Rightarrow> bool \<times> Logger \<times> world" where
  "should_soft_flush appended_bytes st =
     (case st of (lg, w) \<Rightarrow>
        let fs = (lg_flush lg)\<lparr>fl_buffered_bytes := usize_sat_add (fl_buffered_bytes (lg_flush lg)) appended_bytes\<rparr>;
            (t, w) = instant_now w
        in (fl_buffered_bytes fs \<ge> SOFT_FLUSH_BYTES \<or> t - fl_last_flush_at fs \<ge> SOFT_FLUSH_INTERVAL,
            lg\<lparr>lg_flush := fs\<rparr>, w))"

definition mark_flushed :: "Logger \<times> world \<Rightarrow> Logger \<times> world" where
  "mark_flushed st =
     (case st of (lg, w) \<Rightarrow> let (t, w) = instant_now w in (lg\<lparr>lg_flush := \<lparr>fl_last_flush_at = t, fl_buffered_bytes = 0\<rparr>\<rparr>, w))"

definition flush_logger :: "Logger \<times> world \<Rightarrow> Logger \<times> world" where
  "flush_logger st =
     (case st of (lg, w) \<Rightarrow>
        (case flush_buf (lg_writer lg) of
           (Inl e, bw) \<Rightarrow> (lg\<lparr>lg_writer := bw, lg_stderr := lg_stderr lg @ [''addrsyncd logger flush failed: '' @ io_text e]\<rparr>, w)
         | (Inr _, bw) \<Rightarrow> mark_flushed (lg\<lparr>lg_writer := bw\<rparr>, w)))"

definition logger_log :: "tod \<Rightarrow> Level \<Rightarrow> string \<Rightarrow> Field list \<Rightarrow> Logger \<times> world \<Rightarrow> Logger \<times> world" where
  "logger_log t level event flds st =
     (case st of (lg, w) \<Rightarrow>
        if \<not> enabled lg level then (lg, w)
        else
          let (line, cache) = build_line_into t level event flds [] (lg_cache lg);
              lg = lg\<lparr>lg_line := line, lg_cache := cache\<rparr>
          in case bw_write_all line (lg_writer lg) of
               (Inl e, bw) \<Rightarrow>
                 (lg\<lparr>lg_writer := bw, lg_stderr := lg_stderr lg @ [''addrsyncd logger write failed: '' @ io_text e]\<rparr>, w)
             | (Inr _, bw) \<Rightarrow>
                 let lg = lg\<lparr>lg_writer := bw\<rparr>;
                     (should_flush, lg, w) =
                       (if level \<le> LWarn \<or> lg_level lg = LDebug then (True, lg, w) else should_soft_flush (length line) (lg, w))
                 in if should_flush then flush_logger (lg, w) else (lg, w))"

definition should_log_now :: "string \<Rightarrow> nat \<Rightarrow> Logger \<times> world \<Rightarrow> bool \<times> Logger \<times> world" where
  "should_log_now key interval st =
     (case st of (lg, w) \<Rightarrow>
        if key = [] \<or> interval = 0 then (True, lg, w)
        else
          let (t, w) = instant_now w; (b, rate) = should_log key interval t (lg_rate lg)
          in (b, lg\<lparr>lg_rate := rate\<rparr>, w))"

fun run_log_call :: "tod \<Rightarrow> log_call \<Rightarrow> Logger \<times> world \<Rightarrow> Logger \<times> world" where
  "run_log_call t (LogLine level event flds) st = logger_log t level event flds st"
| "run_log_call t (LogEvery level key interval event flds) st =
     (case should_log_now key interval st of
        (True, st) \<Rightarrow> logger_log t level event flds st
      | (False, st) \<Rightarrow> st)"

subsection \<open>Quoted values\<close>

definition esc1 :: "char \<Rightarrow> string" where
  "esc1 b = (case esc_byte b of Some e \<Rightarrow> e | None \<Rightarrow> [b])"

definition quote_text :: "string \<Rightarrow> string" where
  "quote_text v = (if needs_quote v then [DQ] @ concat (map esc1 v) @ [DQ] else v)"

lemma quote_loop:
  assumes "n \<le> length v"
  shows "\<exists>o' seg. fold (\<lambda>idx (out, seg). case esc_byte (v ! idx) of
      Some e \<Rightarrow> (out @ slice seg idx v @ e, idx + 1) | None \<Rightarrow> (out, seg)) [0..<n] (out, 0) = (o', seg) \<and>
    seg \<le> n \<and> o' @ slice seg n v = out @ concat (map esc1 (take n v))"
  using assms
proof (induction n)
  case (Suc n)
  then obtain o' seg where f: "fold (\<lambda>idx (out, seg). case esc_byte (v ! idx) of
      Some e \<Rightarrow> (out @ slice seg idx v @ e, idx + 1) | None \<Rightarrow> (out, seg)) [0..<n] (out, 0) = (o', seg)"
    "seg \<le> n" "o' @ slice seg n v = out @ concat (map esc1 (take n v))" by auto
  have s: "slice seg (Suc n) v = slice seg n v @ [v ! n]"
    using f(2) Suc.prems by (simp add: slice_def Suc_diff_le take_Suc_conv_app_nth)
  have t: "take (Suc n) v = take n v @ [v ! n]" using Suc.prems by (simp add: take_Suc_conv_app_nth)
  show ?case
  proof (cases "esc_byte (v ! n)")
    case None
    then have "o' @ slice seg (Suc n) v = out @ concat (map esc1 (take (Suc n) v))"
      using f(3) by (simp add: s t esc1_def)
    with f None show ?thesis by auto
  next
    case (Some e)
    have "(o' @ slice seg n v @ e) @ slice (Suc n) (Suc n) v = out @ concat (map esc1 (take (Suc n) v))"
      using f(3) Some by (simp add: t esc1_def slice_def)
    with f Some show ?thesis by (intro exI [of _ "o' @ slice seg n v @ e"] exI [of _ "Suc n"]) simp
  qed
qed (simp add: slice_def)

lemma append_quoted_text_eq: "append_quoted_text out v = out @ quote_text v"
proof -
  obtain o' seg where "fold (\<lambda>idx (out, seg). case esc_byte (v ! idx) of
      Some e \<Rightarrow> (out @ slice seg idx v @ e, idx + 1) | None \<Rightarrow> (out, seg)) [0..<length v] (out @ [DQ], 0) = (o', seg)"
    "seg \<le> length v" "o' @ slice seg (length v) v = (out @ [DQ]) @ concat (map esc1 v)"
    using quote_loop [of "length v" v "out @ [DQ]"] by auto
  then show ?thesis by (simp add: append_quoted_text_def quote_text_def slice_def)
qed

text \<open>Reading a value back: up to the closing quote with the escapes undone, or up to white space.\<close>

definition unesc :: "char \<Rightarrow> char" where
  "unesc d = (if d = CHR ''n'' then CHR 0x0A else if d = CHR ''r'' then CHR 0x0D else if d = CHR ''t'' then CHR 0x09 else d)"

fun read_quoted :: "string \<Rightarrow> (string \<times> string) option" where
  "read_quoted [] = None"
| "read_quoted (c # cs) =
     (if c = DQ then Some ([], cs)
      else if c = BSL then
        (case cs of [] \<Rightarrow> None | d # r \<Rightarrow> map_option (\<lambda>(v, r). (unesc d # v, r)) (read_quoted r))
      else map_option (\<lambda>(v, r). (c # v, r)) (read_quoted cs))"

definition read_value :: "string \<Rightarrow> (string \<times> string) option" where
  "read_value s =
     (if starts_with s [DQ] then read_quoted (tl s)
      else Some (takeWhile (\<lambda>b. \<not> ascii_ws b) s, dropWhile (\<lambda>b. \<not> ascii_ws b) s))"

lemma read_quoted_esc: "read_quoted (concat (map esc1 v) @ DQ # rest) = Some (v, rest)"
  by (induction v) (auto simp: esc1_def esc_byte_def unesc_def)

lemma esc1_no_newline: "CHR 0x0A \<notin> set (esc1 b)"
  by (auto simp: esc1_def esc_byte_def)

lemma quote_text_no_newline: "CHR 0x0A \<notin> set (quote_text v)"
proof (cases "needs_quote v")
  case True
  then show ?thesis using esc1_no_newline by (auto simp: quote_text_def)
next
  case False
  then show ?thesis by (auto simp: quote_text_def needs_quote_def list_ex_iff ascii_ws_def)
qed

text \<open>
  C36. A logged text can be read back: whatever bytes a string value has, the written form contains no line
  feed, and reading it up to the closing quote or the next white space gives the string and leaves what follows.
\<close>

theorem log_value_roundtrip:
  assumes "rest = [] \<or> ascii_ws (hd rest)"
  shows "read_value (append_value [] (VStr v) @ rest) = Some (v, rest) \<and> CHR 0x0A \<notin> set (append_value [] (VStr v))"
proof (cases "needs_quote v")
  case True
  then show ?thesis
    using read_quoted_esc [of v rest] quote_text_no_newline [of v]
    by (simp add: append_quoted_text_eq read_value_def quote_text_def starts_with_def)
next
  case False
  then have v: "\<not> starts_with (v @ rest) [DQ]" "\<forall>b \<in> set v. \<not> ascii_ws b"
    by (cases v; auto simp: needs_quote_def starts_with_def list_ex_iff)+
  have "takeWhile (\<lambda>b. \<not> ascii_ws b) (v @ rest) = v" "dropWhile (\<lambda>b. \<not> ascii_ws b) (v @ rest) = rest"
    using v(2) assms by (cases rest; simp add: takeWhile_append2 dropWhile_append2)+
  with False v(1) quote_text_no_newline [of v] show ?thesis
    by (simp add: append_quoted_text_eq read_value_def quote_text_def)
qed

theorem log_value_roundtrip_witness:
  "read_value (append_value [] (VStr [CHR ''a'', CHR 0x0A, DQ]) @ '' | k=v'') = Some ([CHR ''a'', CHR 0x0A, DQ], '' | k=v'')"
  using log_value_roundtrip [of "'' | k=v''" "[CHR ''a'', CHR 0x0A, DQ]"] by (simp add: ascii_ws_def)

subsection \<open>One call, one line\<close>

abbreviation (input) LF :: char where "LF \<equiv> CHR 0x0A"

text \<open>Fields whose displayed texts have no line feed; string values may have any bytes.\<close>

fun value_ok :: "FieldValue \<Rightarrow> bool" where
  "value_ok (VDisplayErr e) \<longleftrightarrow> LF \<notin> set (AppError_display e)"
| "value_ok (VDisplayText t) \<longleftrightarrow> LF \<notin> set t"
| "value_ok _ \<longleftrightarrow> True"

lemma LF_fmt_nat [simp]: "LF \<notin> set (fmt_nat n)"
  using fmt_nat_char [of LF n] by (auto simp: is_digit_def)

lemma LF_fmt_int [simp]: "LF \<notin> set (fmt_int k)"
  by (simp add: fmt_int_def)

lemma LF_fmt_pad [simp]: "LF \<notin> set (fmt_pad w k)"
  by (auto simp: fmt_pad_def Let_def)

lemma hex_char_not_LF: "d < 16 \<Longrightarrow> hex_char d \<noteq> LF"
proof -
  assume "d < 16"
  then have "of_char (hex_char d) = (if d < 10 then 48 + d else 87 + d)" by (simp add: hex_char_def of_char_of)
  then show ?thesis by (auto split: if_splits)
qed

lemma LF_fmt_hex [simp]: "LF \<notin> set (fmt_hex n)"
proof (induction n rule: fmt_hex.induct)
  case (1 n)
  have "hex_char (n mod 16) \<noteq> LF" "n < 16 \<Longrightarrow> hex_char n \<noteq> LF" by (simp_all add: hex_char_not_LF)
  with 1 show ?case by (cases "n < 16") (simp_all add: fmt_hex.simps [of n])
qed

lemma LF_join: "LF \<notin> set sep \<Longrightarrow> list_all (\<lambda>s. LF \<notin> set s) xs \<Longrightarrow> LF \<notin> set (join_with sep xs)"
  by (induction xs rule: induct_list012) auto

lemma LF_fmt_ip [simp]: "LF \<notin> set (fmt_ip a)"
proof -
  have v4: "LF \<notin> set (fmt_ipv4 x)" for x
    unfolding fmt_ipv4_def by (rule LF_join) (auto simp: list_all_iff)
  have v6: "LF \<notin> set (join_with '':'' (map fmt_hex xs))" for xs
    by (rule LF_join) (auto simp: list_all_iff)
  show ?thesis
    using v4 v6 by (cases a) (auto simp: fmt_ipv6_def Let_def split: option.splits prod.splits if_splits)
qed

lemma append_value_split: "\<exists>t. append_value out v = out @ t \<and> (value_ok v \<longrightarrow> LF \<notin> set t)"
  using quote_text_no_newline by (cases v) (auto simp: append_quoted_text_eq)

lemma append_fields_split:
  "list_all (\<lambda>(k, v). value_ok v) flds \<Longrightarrow> \<exists>t. append_fields flds line = line @ t \<and> LF \<notin> set t"
proof (induction flds line rule: append_fields.induct)
  case (2 key v flds line)
  let ?key = "map (\<lambda>b. if ascii_alnum b \<or> b \<in> set ''_-.'' then b else CHR ''_'') key"
  have key: "LF \<notin> set ?key" by (auto simp: ascii_alnum_def)
  obtain t where t: "append_value ((line @ '' | '') @ ?key @ ''='') v = ((line @ '' | '') @ ?key @ ''='') @ t" "LF \<notin> set t"
    using append_value_split [of "(line @ '' | '') @ ?key @ ''=''" v] "2.prems" by auto
  show ?case
  proof (cases "key = []")
    case True
    then have k: "append_key (line @ '' | '') key = (line @ '' | '', False)" by (simp add: append_key_def)
    from "2.prems" have "list_all (\<lambda>(k, v). value_ok v) flds" by simp
    from "2.IH"(1) [OF refl refl k [symmetric], simplified] this True show ?thesis
      by (auto simp: append_key_def)
  next
    case False
    then have "append_fields ((key, v) # flds) line = append_fields flds (append_value ((line @ '' | '') @ ?key @ ''='') v)"
      by (simp add: append_key_def del: append.simps append_Cons)
    moreover obtain u where "append_fields flds (append_value ((line @ '' | '') @ ?key @ ''='') v) =
        append_value ((line @ '' | '') @ ?key @ ''='') v @ u" "LF \<notin> set u"
      using "2.IH"(2) [of "line @ '' | ''" "((line @ '' | '') @ ?key, key \<noteq> [])" "(line @ '' | '') @ ?key" "key \<noteq> []"] "2.prems" False
      by (auto simp: append_key_def simp del: append.simps append_Cons)
    ultimately show ?thesis using t key by (intro exI [of _ "'' | '' @ ?key @ ''='' @ t @ u"]) auto
  qed
qed simp

text \<open>
  One call writes one line: when the event name and the displayed texts have no line feed, the text that
  \<open>build_line_into\<close> makes ends with a line feed and has no other, whatever bytes the string values have.
\<close>

theorem log_line_single:
  assumes "list_all (\<lambda>(k, v). value_ok v) flds" "LF \<notin> set event" "LF \<notin> set (tc_prefix cache)"
  shows "\<exists>p. fst (build_line_into t level event flds [] cache) = p @ [LF] \<and> LF \<notin> set p \<and>
    LF \<notin> set (tc_prefix (snd (build_line_into t level event flds [] cache)))"
proof -
  obtain s c where f: "format_timestamp_into t ''['' cache = (s, c)" by fastforce
  have sc: "LF \<notin> set s \<and> LF \<notin> set (tc_prefix c)"
    using f assms(3) by (auto simp: format_timestamp_into_def Let_def split: tod.splits if_splits)
  have tg: "LF \<notin> set (tag level)" by (cases level) simp_all
  let ?l = "(s @ ''] ['' @ tag level @ ''] '') @ (if event = [] then ''log'' else event)"
  obtain u where u: "append_fields flds ?l = ?l @ u" "LF \<notin> set u" using append_fields_split [OF assms(1)] by blast
  have "build_line_into t level event flds [] cache = ((?l @ u) @ [LF], c)"
    by (simp only: build_line_into_def Let_def append_Nil f prod.case u(1))
  with u(2) sc tg assms(2) show ?thesis by (intro exI [of _ "?l @ u"]) auto
qed

theorem log_line_single_witness:
  "\<exists>p. fst (build_line_into TodErr LWarn ''rule.op'' [(''a b'', VStr [LF, CHR ''x'']), (''n'', VUsize 5)] [] \<lparr>tc_sec = 0, tc_prefix = []\<rparr>) = p @ [LF] \<and>
     LF \<notin> set p"
  using log_line_single [of "[(''a b'', VStr [LF, CHR ''x'']), (''n'', VUsize 5)]" "''rule.op''" "\<lparr>tc_sec = 0, tc_prefix = []\<rparr>" TodErr LWarn]
  by auto

subsection \<open>Schemas of the events\<close>

fun schema_call :: "bool \<Rightarrow> LogEventSchema \<Rightarrow> log_call \<Rightarrow> log_call list" where
  "schema_call debug_assertions sch (LogLine level event flds) = log_schema debug_assertions level sch flds"
| "schema_call debug_assertions sch c = [c]"

lemma emitted_events_have_schema:
  "schema_call d RULE_BATCH (emit_rule_batch b) = [emit_rule_batch b]"
  "schema_call d RULE_ACK_FAILED (emit_rule_ack_failed f) = [emit_rule_ack_failed f]"
  "schema_call d NETLINK_ADDR_EVENT (emit_netlink_addr_event a) = [emit_netlink_addr_event a]"
  by (simp_all add: emit_rule_batch_def emit_rule_ack_failed_def emit_netlink_addr_event_def log_schema_def
      collect_missing_required_fields_def RULE_BATCH_def RULE_ACK_FAILED_def NETLINK_ADDR_EVENT_def)

subsection \<open>The rate limiter is a map from keys to times\<close>

definition rate_list :: "RateLimiter \<Rightarrow> (string \<times> nat) list" where
  "rate_list r = map (\<lambda>e. (re_key (the e), re_at (the e))) (take (rl_len r) (rl_entries r))"

definition rate_map :: "RateLimiter \<Rightarrow> string \<Rightarrow> nat option" where
  "rate_map r = map_of (rate_list r)"

definition rate_ok :: "RateLimiter \<Rightarrow> bool" where
  "rate_ok r \<longleftrightarrow> length (rl_entries r) = RATE_LIMIT_SLOTS \<and> rl_len r \<le> RATE_LIMIT_SLOTS \<and>
     list_all (\<lambda>e. e \<noteq> None) (take (rl_len r) (rl_entries r)) \<and> distinct (map fst (rate_list r))"

text \<open>What a limiter with room for every key does.\<close>

definition rate_spec :: "string \<Rightarrow> nat \<Rightarrow> nat \<Rightarrow> (string \<Rightarrow> nat option) \<Rightarrow> bool \<times> (string \<Rightarrow> nat option)" where
  "rate_spec key interval now m =
     (if (case m key of Some t \<Rightarrow> now - t < interval | None \<Rightarrow> False) then (False, m) else (True, m(key \<mapsto> now)))"

lemma map_of_update:
  assumes "distinct (map fst xs)" "i < length xs" "k = fst (xs ! i) \<or> k \<notin> fst ` set xs"
  shows "map_of (xs[i := (k, v)]) = ((map_of xs)(fst (xs ! i) := None))(k \<mapsto> v)"
  using assms
proof (induction xs arbitrary: i)
  case (Cons x xs)
  obtain a b where x: "x = (a, b)" by (cases x)
  show ?case
  proof (cases i)
    case 0
    with Cons.prems x show ?thesis
      by (auto simp: fun_eq_iff map_of_eq_None_iff)
  next
    case (Suc j)
    then have "map_of (xs[j := (k, v)]) = ((map_of xs)(fst (xs ! j) := None))(k \<mapsto> v)" using Cons by auto
    moreover have "a \<noteq> fst (xs ! j)" using Cons.prems x Suc by (metis fst_conv length_Cons list.simps(9) distinct.simps(2) Suc_less_eq image_eqI list.set_map nth_mem)
    moreover have "a \<noteq> k" using Cons.prems x Suc calculation(2) by auto
    ultimately show ?thesis using x Suc by (auto simp: fun_eq_iff)
  qed
qed simp

lemma distinct_update:
  assumes "distinct (map fst xs)" "i < length xs" "k = fst (xs ! i) \<or> k \<notin> fst ` set xs"
  shows "distinct (map fst (xs[i := (k, v)]))"
proof -
  have "map fst (xs[i := (k, v)]) = (map fst xs)[i := k]" by (simp add: map_update)
  moreover have "distinct ((map fst xs)[i := k])"
  proof (cases "k = fst (xs ! i)")
    case True
    then have "(map fst xs)[i := k] = map fst xs" using assms(2) by (metis length_map list_update_id nth_map)
    with assms(1) show ?thesis by simp
  next
    case False
    then show ?thesis using assms by (intro distinct_list_update) auto
  qed
  ultimately show ?thesis by simp
qed

lemma rate_list_nth:
  assumes "rate_ok r" "i < rl_len r"
  shows "i < length (rate_list r)" "rl_entries r ! i = Some \<lparr>re_key = fst (rate_list r ! i), re_at = snd (rate_list r ! i)\<rparr>"
proof -
  from assms have "take (rl_len r) (rl_entries r) ! i \<noteq> None"
    unfolding rate_ok_def list_all_length by auto
  then obtain e where "rl_entries r ! i = Some e" using assms by auto
  with assms show "i < length (rate_list r)"
    "rl_entries r ! i = Some \<lparr>re_key = fst (rate_list r ! i), re_at = snd (rate_list r ! i)\<rparr>"
    by (auto simp: rate_list_def rate_ok_def)
qed

lemma rate_length [simp]: "rate_ok r \<Longrightarrow> length (rate_list r) = rl_len r"
  by (simp add: rate_list_def rate_ok_def)

lemma rate_find:
  assumes "rate_ok r"
  shows "find (\<lambda>idx. case rl_entries r ! idx of Some e \<Rightarrow> re_key e = key | None \<Rightarrow> False) [0..<rl_len r] =
    find (\<lambda>idx. fst (rate_list r ! idx) = key) [0..<rl_len r]"
  using rate_list_nth(2) [OF assms] by (intro find_cong) auto

lemma rate_replace:
  fixes now :: nat
  assumes "rate_ok r" "i < rl_len r" "key = fst (rate_list r ! i) \<or> key \<notin> fst ` set (rate_list r)"
  defines "r' \<equiv> r\<lparr>rl_entries := (rl_entries r)[i := Some \<lparr>re_key = key, re_at = now\<rparr>]\<rparr>"
  shows "rate_ok r'" "rate_map r' = ((rate_map r)(fst (rate_list r ! i) := None))(key \<mapsto> now)"
proof -
  have l: "rate_list r' = (rate_list r)[i := (key, now)]"
    by (simp add: r'_def rate_list_def take_update_swap map_update)
  show "rate_map r' = ((rate_map r)(fst (rate_list r ! i) := None))(key \<mapsto> now)"
    using assms(1-3) map_of_update [of "rate_list r" i key now] by (simp add: rate_map_def l rate_ok_def)
  have "list_all (\<lambda>e. e \<noteq> None) (take (rl_len r) ((rl_entries r)[i := Some \<lparr>re_key = key, re_at = now\<rparr>]))"
    using assms(1) set_update_subset_insert [of "take (rl_len r) (rl_entries r)" i "Some \<lparr>re_key = key, re_at = now\<rparr>"]
    by (auto simp: rate_ok_def list_all_iff take_update_swap)
  moreover have "distinct (map fst (rate_list r'))"
    using assms(1-3) distinct_update [of "rate_list r" i key now] by (simp add: l rate_ok_def)
  ultimately show "rate_ok r'" using assms(1) by (simp add: rate_ok_def r'_def)
qed

lemma rate_insert:
  fixes now :: nat
  assumes "rate_ok r" "rl_len r < RATE_LIMIT_SLOTS" "key \<notin> fst ` set (rate_list r)"
  defines "r' \<equiv> r\<lparr>rl_entries := (rl_entries r)[rl_len r := Some \<lparr>re_key = key, re_at = now\<rparr>], rl_len := rl_len r + 1\<rparr>"
  shows "rate_ok r'" "rate_map r' = (rate_map r)(key \<mapsto> now)"
proof -
  have t: "take (Suc (rl_len r)) ((rl_entries r)[rl_len r := e]) = take (rl_len r) (rl_entries r) @ [e]" for e
    using assms(1,2) by (simp add: rate_ok_def take_Suc_conv_app_nth)
  have l: "rate_list r' = rate_list r @ [(key, now)]" by (simp add: r'_def rate_list_def t)
  show "rate_ok r'" using assms(1,2,3) l by (auto simp: rate_ok_def r'_def t)
  have n: "map_of (rate_list r) key = None" using assms(3) by (simp add: map_of_eq_None_iff)
  show "rate_map r' = (rate_map r)(key \<mapsto> now)"
    by (auto simp: rate_map_def l map_add_def n fun_eq_iff split: option.splits)
qed

text \<open>The slot that is given up holds a least time.\<close>

lemma oldest_slot_least:
  assumes "n \<ge> 1"
  shows "\<exists>i. i < n \<and> fold (\<lambda>idx (oldest_idx, oldest_at). let at = f idx in
      if at < oldest_at then (idx, at) else (oldest_idx, oldest_at)) [1..<n] (0, f 0) = (i, f i :: nat) \<and>
    (\<forall>j < n. f i \<le> f j)"
  using assms
proof (induction n rule: nat_induct_at_least)
  case base
  then show ?case by simp
next
  case (Suc n)
  then show ?case
    by (auto simp: Let_def less_Suc_eq) (metis less_imp_le_nat order.trans le_less_linear)+
qed

lemma oldest_slot_spec:
  assumes "rate_ok r" "rl_len r = RATE_LIMIT_SLOTS"
  shows "oldest_slot r now < rl_len r"
    "rate_map r k = Some t \<Longrightarrow> snd (rate_list r ! oldest_slot r now) \<le> t"
proof -
  obtain i where i: "i < RATE_LIMIT_SLOTS" "oldest_slot r now = i"
    "\<forall>j < RATE_LIMIT_SLOTS. entry_at r now i \<le> entry_at r now j"
    using oldest_slot_least [of RATE_LIMIT_SLOTS "entry_at r now"] by (auto simp: oldest_slot_def simp del: upt_rec_numeral)
  have e: "j < RATE_LIMIT_SLOTS \<Longrightarrow> entry_at r now j = snd (rate_list r ! j)" for j
    using rate_list_nth(2) [OF assms(1), of j] assms(2) by (simp add: entry_at_def)
  show "oldest_slot r now < rl_len r" using i assms(2) by simp
  assume "rate_map r k = Some t"
  then have "(k, t) \<in> set (rate_list r)" by (simp add: rate_map_def map_of_SomeD)
  then obtain j where "j < RATE_LIMIT_SLOTS" "rate_list r ! j = (k, t)"
    using assms by (auto simp: in_set_conv_nth)
  with i e show "snd (rate_list r ! oldest_slot r now) \<le> t" by fastforce
qed

lemma rate_dom: "rate_ok r \<Longrightarrow> card (dom (rate_map r)) = rl_len r"
  using distinct_card [of "map fst (rate_list r)"]
  by (simp add: rate_map_def dom_map_of_conv_image_fst rate_ok_def)

lemma rate_lookup:
  assumes "rate_ok r"
  shows "find (\<lambda>idx. fst (rate_list r ! idx) = key) [0..<rl_len r] = None \<longleftrightarrow> rate_map r key = None"
    "find (\<lambda>idx. fst (rate_list r ! idx) = key) [0..<rl_len r] = Some i \<Longrightarrow>
       i < rl_len r \<and> fst (rate_list r ! i) = key \<and> rate_map r key = Some (snd (rate_list r ! i))"
proof -
  show "find (\<lambda>idx. fst (rate_list r ! idx) = key) [0..<rl_len r] = None \<longleftrightarrow> rate_map r key = None"
    using rate_length [OF assms]
    by (auto simp: find_None_iff rate_map_def map_of_eq_None_iff in_set_conv_nth image_iff) (metis fst_conv nth_mem)+
  assume "find (\<lambda>idx. fst (rate_list r ! idx) = key) [0..<rl_len r] = Some i"
  then have i: "i < rl_len r" "fst (rate_list r ! i) = key" by (auto simp: find_Some_iff)
  then have "(key, snd (rate_list r ! i)) \<in> set (rate_list r)"
    using rate_length [OF assms] by (metis nth_mem prod.collapse)
  with i assms show "i < rl_len r \<and> fst (rate_list r ! i) = key \<and> rate_map r key = Some (snd (rate_list r ! i))"
    by (auto simp: rate_map_def rate_ok_def)
qed

lemma should_log_refines:
  assumes "rate_ok r"
  obtains "rate_map r key \<noteq> None \<or> card (dom (rate_map r)) < RATE_LIMIT_SLOTS"
      "(fst (should_log key interval now r), rate_map (snd (should_log key interval now r))) = rate_spec key interval now (rate_map r)"
      "rate_ok (snd (should_log key interval now r))"
  | old t where "rate_map r key = None" "card (dom (rate_map r)) = RATE_LIMIT_SLOTS" "rate_map r old = Some t"
      "\<forall>k u. rate_map r k = Some u \<longrightarrow> t \<le> u" "fst (should_log key interval now r)"
      "rate_map (snd (should_log key interval now r)) = ((rate_map r)(old := None))(key \<mapsto> now)"
      "rate_ok (snd (should_log key interval now r))"
proof (cases "find (\<lambda>idx. fst (rate_list r ! idx) = key) [0..<rl_len r]")
  case (Some i)
  note i = rate_lookup(2) [OF assms Some]
  have "entry_at r now i = snd (rate_list r ! i)"
    using rate_list_nth(2) [OF assms, of i] i by (simp add: entry_at_def)
  with i assms Some that(1) rate_replace [OF assms, of i key now] show ?thesis
    by (simp add: should_log_def rate_find rate_spec_def split: if_splits)
next
  case None
  then have k: "rate_map r key = None" "key \<notin> fst ` set (rate_list r)"
    using rate_lookup(1) [OF assms] by (auto simp: rate_map_def map_of_eq_None_iff)
  show ?thesis
  proof (cases "rl_len r < RATE_LIMIT_SLOTS")
    case True
    with k None assms that(1) rate_insert [OF assms True k(2), of now] show ?thesis
      by (simp add: should_log_def rate_find rate_spec_def rate_dom)
  next
    case False
    then have len: "rl_len r = RATE_LIMIT_SLOTS" using assms by (simp add: rate_ok_def)
    let ?i = "oldest_slot r now"
    have i: "?i < rl_len r" using oldest_slot_spec(1) [OF assms len] .
    then have "(fst (rate_list r ! ?i), snd (rate_list r ! ?i)) \<in> set (rate_list r)" using assms by simp
    then have old: "rate_map r (fst (rate_list r ! ?i)) = Some (snd (rate_list r ! ?i))"
      using assms unfolding rate_map_def rate_ok_def by (metis map_of_is_SomeI)
    show ?thesis
    proof (rule that(2) [OF k(1) _ old])
      show "card (dom (rate_map r)) = RATE_LIMIT_SLOTS" using assms len by (simp add: rate_dom)
      show "\<forall>k u. rate_map r k = Some u \<longrightarrow> snd (rate_list r ! ?i) \<le> u" using oldest_slot_spec(2) [OF assms len] by blast
    qed (use k None assms len i rate_replace [OF assms i, of key now] rate_find [OF assms, of key]
        in \<open>simp_all add: should_log_def\<close>)
  qed
qed

text \<open>A sequence of rate-limited calls: key, interval and time of each.\<close>

fun rate_run :: "(string \<times> nat \<times> nat) list \<Rightarrow> RateLimiter \<Rightarrow> bool list" where
  "rate_run [] r = []"
| "rate_run ((key, interval, now) # calls) r =
     (case should_log key interval now r of (b, r) \<Rightarrow> b # rate_run calls r)"

fun spec_run :: "(string \<times> nat \<times> nat) list \<Rightarrow> (string \<Rightarrow> nat option) \<Rightarrow> bool list" where
  "spec_run [] m = []"
| "spec_run ((key, interval, now) # calls) m =
     (case rate_spec key interval now m of (b, m) \<Rightarrow> b # spec_run calls m)"

lemma rate_run_refines:
  assumes "rate_ok r" "card (dom (rate_map r) \<union> fst ` set calls) \<le> RATE_LIMIT_SLOTS"
  shows "rate_run calls r = spec_run calls (rate_map r)"
  using assms
proof (induction calls arbitrary: r)
  case (Cons c calls)
  obtain key interval now where c: "c = (key, interval, now)" by (cases c)
  have fin: "finite (dom (rate_map r) \<union> fst ` set (c # calls))" by (simp add: rate_map_def finite_dom_map_of)
  from Cons.prems(1) show ?case
  proof (cases rule: should_log_refines [of r key interval now])
    case 1
    then obtain b r' where r': "should_log key interval now r = (b, r')" "rate_spec key interval now (rate_map r) = (b, rate_map r')" "rate_ok r'"
      by (cases "should_log key interval now r") auto
    then have "rate_map r' = rate_map r \<or> rate_map r' = (rate_map r)(key \<mapsto> now)"
      by (auto simp: rate_spec_def split: if_splits)
    then have "dom (rate_map r') \<subseteq> insert key (dom (rate_map r))" by auto
    then have "card (dom (rate_map r') \<union> fst ` set calls) \<le> card (dom (rate_map r) \<union> fst ` set (c # calls))"
      by (intro card_mono [OF fin]) (auto simp: c)
    with Cons r' show ?thesis by (simp add: c)
  next
    case 2
    then have "dom (rate_map r) \<union> fst ` set (c # calls) \<supseteq> insert key (dom (rate_map r))" "key \<notin> dom (rate_map r)"
      by (auto simp: c)
    then have "card (insert key (dom (rate_map r))) \<le> RATE_LIMIT_SLOTS" using fin Cons.prems(2) by (meson card_mono order.trans)
    with 2 \<open>key \<notin> dom (rate_map r)\<close> show ?thesis by (simp add: rate_map_def finite_dom_map_of)
  qed
qed simp

text \<open>
  C35. The rate limiter is exact for up to sixteen keys: on every sequence of calls with at most sixteen
  different keys, its fixed table of slots answers like a map that remembers for each key when it was last let through.
\<close>

theorem rate_limiter_exact:
  assumes "card (fst ` set calls) \<le> RATE_LIMIT_SLOTS"
  shows "rate_run calls RateLimiter_default = spec_run calls (\<lambda>_. None)"
proof -
  have "rate_ok RateLimiter_default" "rate_map RateLimiter_default = (\<lambda>_. None)"
    by (simp_all add: rate_ok_def RateLimiter_default_def rate_list_def rate_map_def fun_eq_iff)
  with assms rate_run_refines [of RateLimiter_default calls] show ?thesis by (simp add: dom_def)
qed

theorem rate_limiter_exact_witness:
  "rate_run [(''a'', 5, 10), (''b'', 5, 11), (''a'', 5, 14), (''a'', 5, 15)] RateLimiter_default = [True, True, False, True]"
proof -
  have "card (fst ` set [(''a'', 5 :: nat, 10 :: nat), (''b'', 5, 11), (''a'', 5, 14), (''a'', 5, 15)]) \<le> RATE_LIMIT_SLOTS"
    by (simp add: card_insert_if)
  from rate_limiter_exact [OF this] show ?thesis by (simp add: rate_spec_def)
qed

subsection \<open>The log file\<close>

text \<open>Everything written so far, in the file or still in the buffer.\<close>

definition log_bytes :: "Logger \<Rightarrow> string" where
  "log_bytes lg = bw_file (lg_writer lg) @ bw_buf (lg_writer lg)"

text \<open>A logger whose file takes every write, and whose byte counter covers the buffer.\<close>

definition buffer_ok :: "Logger \<Rightarrow> bool" where
  "buffer_ok lg \<longleftrightarrow> bw_script (lg_writer lg) = [] \<and> bw_cap (lg_writer lg) > 0 \<and>
     length (bw_buf (lg_writer lg)) \<le> fl_buffered_bytes (lg_flush lg) \<and> fl_buffered_bytes (lg_flush lg) < SOFT_FLUSH_BYTES"

lemma to_file_plain: "bw_script w = [] \<Longrightarrow> to_file d w = (Inr (), [], w\<lparr>bw_file := bw_file w @ d\<rparr>)"
  by (simp add: to_file_def)

lemma flush_buf_plain:
  "bw_script w = [] \<Longrightarrow> flush_buf w = (Inr (), w\<lparr>bw_file := bw_file w @ bw_buf w, bw_buf := []\<rparr>)"
  by (simp add: flush_buf_def to_file_plain)

lemma bw_write_all_plain:
  assumes "bw_script w = []" "bw_cap w > 0"
  obtains w' where "bw_write_all d w = (Inr (), w')" "bw_file w' @ bw_buf w' = bw_file w @ bw_buf w @ d"
    "bw_script w' = []" "length (bw_buf w') \<le> length (bw_buf w) + length d" "bw_cap w' = bw_cap w"
proof (cases "length d < bw_cap w - length (bw_buf w)")
  case True
  then show ?thesis using assms that [of "w\<lparr>bw_buf := bw_buf w @ d\<rparr>"] by (simp add: bw_write_all_def)
next
  case False
  define v where "v = (if length d > bw_cap w - length (bw_buf w) then w\<lparr>bw_file := bw_file w @ bw_buf w, bw_buf := []\<rparr> else w)"
  have v: "bw_script v = []" "bw_file v @ bw_buf v = bw_file w @ bw_buf w" "length (bw_buf v) \<le> length (bw_buf w)" "bw_cap v = bw_cap w"
    using assms by (simp_all add: v_def)
  have e: "bw_write_all d w =
      (Inr (), if length d \<ge> bw_cap w then v\<lparr>bw_file := bw_file v @ d\<rparr> else v\<lparr>bw_buf := bw_buf v @ d\<rparr>)"
    using False assms v(1) by (auto simp: bw_write_all_def flush_buf_plain to_file_plain v_def)
  show ?thesis
  proof (cases "length d \<ge> bw_cap w")
    case True
    have "\<not> length d > bw_cap w - length (bw_buf w) \<Longrightarrow> length (bw_buf w) = 0"
      using True False assms(2) by linarith
    then have "bw_buf v = []" by (auto simp: v_def)
    with e v True that [of "v\<lparr>bw_file := bw_file v @ d\<rparr>"] show ?thesis by simp
  next
    case False
    with e v that [of "v\<lparr>bw_buf := bw_buf v @ d\<rparr>"] show ?thesis by (simp flip: append_assoc)
  qed
qed

lemma flush_logger_plain:
  assumes "bw_script (lg_writer lg) = []" "bw_cap (lg_writer lg) > 0" "flush_logger (lg, w) = (lg', w')"
  shows "log_bytes lg' = log_bytes lg" "bw_buf (lg_writer lg') = []" "buffer_ok lg'" "lg_stderr lg' = lg_stderr lg"
    "lg_level lg' = lg_level lg"
  using assms by (auto simp: flush_logger_def flush_buf_plain mark_flushed_def log_bytes_def buffer_ok_def Let_def split: prod.splits)

lemma logger_log_plain:
  assumes "buffer_ok lg" "logger_log t level event flds (lg, w) = (lg', w')"
  shows "log_bytes lg' = log_bytes lg @ (if enabled lg level then fst (build_line_into t level event flds [] (lg_cache lg)) else []) \<and>
    buffer_ok lg' \<and> lg_stderr lg' = lg_stderr lg \<and> lg_level lg' = lg_level lg \<and>
    (enabled lg level \<and> level \<le> LWarn \<longrightarrow> bw_buf (lg_writer lg') = [])"
proof (cases "enabled lg level")
  case True
  obtain line cache where b: "build_line_into t level event flds [] (lg_cache lg) = (line, cache)" by fastforce
  obtain bw where bw: "bw_write_all line (lg_writer lg) = (Inr (), bw)"
    "bw_file bw @ bw_buf bw = bw_file (lg_writer lg) @ bw_buf (lg_writer lg) @ line"
    "bw_script bw = []" "length (bw_buf bw) \<le> length (bw_buf (lg_writer lg)) + length line" "bw_cap bw = bw_cap (lg_writer lg)"
    using assms(1) bw_write_all_plain [of "lg_writer lg" line] unfolding buffer_ok_def by metis
  define lg1 where "lg1 = lg\<lparr>lg_line := line, lg_cache := cache, lg_writer := bw\<rparr>"
  have lg1: "log_bytes lg1 = log_bytes lg @ line" "bw_script (lg_writer lg1) = []" "lg_stderr lg1 = lg_stderr lg"
    "lg_level lg1 = lg_level lg" "bw_cap (lg_writer lg1) > 0"
    using bw assms(1) by (simp_all add: lg1_def log_bytes_def buffer_ok_def)
  have run: "logger_log t level event flds (lg, w) =
      (if level \<le> LWarn \<or> lg_level lg = LDebug then flush_logger (lg1, w)
       else case should_soft_flush (length line) (lg1, w) of (f, lg2, w2) \<Rightarrow> if f then flush_logger (lg2, w2) else (lg2, w2))"
    using True b bw(1) by (simp add: logger_log_def lg1_def split: prod.splits)
  show ?thesis
  proof (cases "level \<le> LWarn \<or> lg_level lg = LDebug")
    case True
    with run assms(2) have "flush_logger (lg1, w) = (lg', w')" by simp
    from flush_logger_plain [OF lg1(2,5) this] lg1 b \<open>enabled lg level\<close> show ?thesis by simp
  next
    case False
    obtain f lg2 w2 where s: "should_soft_flush (length line) (lg1, w) = (f, lg2, w2)" by (cases "should_soft_flush (length line) (lg1, w)")
    then have lg2: "log_bytes lg2 = log_bytes lg1" "bw_script (lg_writer lg2) = []" "lg_stderr lg2 = lg_stderr lg"
      "lg_level lg2 = lg_level lg" "\<not> f \<Longrightarrow> buffer_ok lg2" "bw_cap (lg_writer lg2) > 0"
      using lg1 bw(4) assms(1)
      by (auto simp: should_soft_flush_def Let_def log_bytes_def buffer_ok_def lg1_def usize_sat_add_def split: prod.splits)
    show ?thesis
    proof (cases f)
      case True
      with run s False assms(2) have "flush_logger (lg2, w2) = (lg', w')" by simp
      from flush_logger_plain [OF lg2(2,6) this] lg1 lg2 b \<open>enabled lg level\<close> show ?thesis by simp
    next
      case False
      with run s \<open>\<not> (level \<le> LWarn \<or> lg_level lg = LDebug)\<close> assms(2) have "lg' = lg2" by simp
      with lg1 lg2 b \<open>enabled lg level\<close> False \<open>\<not> (level \<le> LWarn \<or> lg_level lg = LDebug)\<close> show ?thesis by simp
    qed
  qed
qed (use assms in \<open>simp add: logger_log_def\<close>)

text \<open>
  C37. While the file takes writes, the logger loses nothing: an enabled call appends exactly its line to what is in
  the file and the buffer together, a disabled one appends nothing, no more than two kilobytes wait in the
  buffer after any call, and after a warning or an error nothing does.
\<close>

theorem log_file_complete:
  assumes "buffer_ok lg" "logger_log t level event flds (lg, w) = (lg', w')"
  shows "log_bytes lg' = log_bytes lg @ (if enabled lg level then fst (build_line_into t level event flds [] (lg_cache lg)) else []) \<and>
    buffer_ok lg' \<and> length (bw_buf (lg_writer lg')) < 2048 \<and>
    (enabled lg level \<and> level \<le> LWarn \<longrightarrow> bw_file (lg_writer lg') = log_bytes lg')"
  using logger_log_plain [OF assms] by (auto simp: buffer_ok_def log_bytes_def)

theorem log_file_complete_witness:
  "let lg = \<lparr>lg_level = LInfo, lg_writer = \<lparr>bw_buf = ''ab'', bw_cap = 32 * 1024, bw_file = ''x'', bw_script = []\<rparr>,
              lg_rate = RateLimiter_default, lg_cache = \<lparr>tc_sec = 0, tc_prefix = []\<rparr>, lg_line = [],
              lg_flush = \<lparr>fl_last_flush_at = 0, fl_buffered_bytes = 2\<rparr>, lg_stderr = []\<rparr>
   in \<forall>w. bw_file (lg_writer (fst (logger_log TodErr LWarn ''e'' [] (lg, w)))) =
        ''xab[1970-01-01 00:00:00.000] [W] e'' @ [LF]"
proof -
  define lg where "lg = \<lparr>lg_level = LInfo, lg_writer = \<lparr>bw_buf = ''ab'', bw_cap = 32 * 1024, bw_file = ''x'', bw_script = []\<rparr>,
              lg_rate = RateLimiter_default, lg_cache = \<lparr>tc_sec = 0, tc_prefix = []\<rparr>, lg_line = [],
              lg_flush = \<lparr>fl_last_flush_at = 0, fl_buffered_bytes = 2\<rparr>, lg_stderr = []\<rparr>"
  have ok: "buffer_ok lg" "enabled lg LWarn" "LWarn \<le> LWarn" by (simp_all add: lg_def buffer_ok_def enabled_def less_eq_Level_def)
  have line: "fst (build_line_into TodErr LWarn ''e'' [] [] (lg_cache lg)) = ''[1970-01-01 00:00:00.000] [W] e'' @ [LF]"
    by (simp add: build_line_into_def format_timestamp_into_def)
  have "bw_file (lg_writer (fst (logger_log TodErr LWarn ''e'' [] (lg, w)))) = ''xab[1970-01-01 00:00:00.000] [W] e'' @ [LF]" for w
    using log_file_complete [OF ok(1), of TodErr LWarn "''e''" "[]" w, OF prod.collapse [symmetric]] ok line
    by (auto simp: log_bytes_def lg_def)
  then show ?thesis by (simp add: lg_def Let_def)
qed

end
