(* ===== verification/Daemon_Run.thy ===== *)
theory Daemon_Run
  imports Setup Event_Loop Control Logger
begin

text \<open>
  \<open>Daemon::run\<close> and \<open>cleanup_once\<close> of \<^verbatim>\<open>src/daemon/service.rs\<close>: descriptors are opened, the ready byte is
  written, the event loop runs, the remaining rules are removed and everything is closed again.

  The result is \<open>None\<close> when the blocking cleanup does not return; a run whose inputs end before the loop does
  is waiting. \<open>debug_assertions\<close> is the build's setting for the schema check of the logger.
\<close>

record run_fds =
  fd_route :: int
  fd_rule :: int
  fd_signal :: int
  fd_timer :: int
  fd_epoll :: int

text \<open>The sockets are dropped in the reverse order of their declaration; the other descriptors have no owner.\<close>

definition drop_sockets :: "int \<Rightarrow> int \<Rightarrow> os \<Rightarrow> os" where
  "drop_sockets route rule k = drop_socket route (drop_socket rule k)"

definition open_run_fds :: "bool \<Rightarrow> (os, AppError, run_fds) est" where
  "open_run_fds ipv6 k =
     (case open_route ipv6 k of
        (Inl e, k) \<Rightarrow> (Inl (from_required_syscall_io e), k)
      | (Inr route, k) \<Rightarrow>
          (case open_rule k of
             (Inl e, k) \<Rightarrow> (Inl (from_required_syscall_io e), drop_socket route k)
           | (Inr rule, k) \<Rightarrow>
               (case est_bind setup_signalfd (\<lambda>sig.
                     est_bind setup_timerfd (\<lambda>tim.
                     est_bind (setup_epoll route rule sig tim) (\<lambda>ep k.
                       (Inr \<lparr>fd_route = route, fd_rule = rule, fd_signal = sig, fd_timer = tim, fd_epoll = ep\<rparr>, k)))) k of
                  (Inl e, k) \<Rightarrow> (Inl e, drop_sockets route rule k)
                | (Inr f, k) \<Rightarrow> (Inr f, k))))"

definition log_all :: "log_call list \<Rightarrow> sys \<Rightarrow> sys" where
  "log_all cs s = fold log cs s"

definition started_fields :: "Options \<Rightarrow> Field list" where
  "started_fields p =
     [(''pref'', VU32 (opt_pref p)), (''table_id'', VU32 (opt_table_id p)), (''ipv6_enabled'', VBool (opt_ipv6 p)),
      (''debounce_ms'', VU128 (opt_debounce p div 1000000)), (''debounce_max_ms'', VU128 (opt_debounce_max p div 1000000)),
      (''batch_max'', VUsize (opt_batch_max p)), (''count_cleanup_removed'', VUsize 0), (''count_resync_add'', VUsize 0),
      (''count_resync_del'', VUsize 0), (''count_resync_failed'', VUsize 0)]"

definition stopped_fields :: "usize \<Rightarrow> sys \<Rightarrow> Field list" where
  "stopped_fields removed s =
     [(''count_cleanup_removed'', VUsize removed), (''count_dropped_events'', VU64 (dropped_count s)),
      (''count_cleanup_noop'', VUsize (cs_noop (shutdown_cleanup s))),
      (''count_cleanup_failed'', VUsize (cs_failed (shutdown_cleanup s)))]"

datatype run_status = RunDone "(AppError, unit) res" | RunWaiting

text \<open>After the loop: the error is logged, the rules are removed, everything is closed.\<close>

definition finish_run ::
  "bool \<Rightarrow> (IpKey list \<Rightarrow> IpKey list) \<Rightarrow> run_fds \<Rightarrow> (AppError, unit) res \<Rightarrow> sys \<times> os \<Rightarrow> (run_status \<times> sys \<times> os) option" where
  "finish_run debug_assertions ho f loop_result st =
     (case st of (s, k) \<Rightarrow>
        let s = (case loop_result of
                   Inl err \<Rightarrow> log (LogLine LError ''daemon.loop_error'' [(''error'', VDisplayErr err), (''phase'', VStr ''event_loop'')]) s
                 | Inr _ \<Rightarrow> s)
        in case (if shutdown_cleanup_done s then Some (Inr (cs_removed (shutdown_cleanup s)), s) else cleanup_rules ho Tracked s) of
             None \<Rightarrow> None
           | Some (cleanup_res, s) \<Rightarrow>
               let k = close_fd (fd_signal f) (close_fd (fd_timer f) (close_fd (fd_epoll f) k));
                   dropped = drop_sockets (fd_route f) (fd_rule f) k
               in Some (case cleanup_res of
                          Inl e \<Rightarrow> (RunDone (Inl e), s, dropped)
                        | Inr removed \<Rightarrow>
                            (RunDone loop_result,
                             log_all (log_schema debug_assertions LInfo DAEMON_STOPPED (stopped_fields removed s)) s, dropped)))"

text \<open>The ready descriptor with the results of writing to it and closing it.\<close>

record ready_script =
  rd_fd :: int
  rd_stale :: io_error
  rd_write :: "(io_error, nat) res"
  rd_close :: "io_error option"

definition notify_ready :: "ready_script option \<Rightarrow> (os, AppError, unit) est" where
  "notify_ready ready k =
     (case ready of
        None \<Rightarrow> (Inr (), k)
      | Some r \<Rightarrow> (notify_ready_fd (rd_stale r) (rd_write r) (rd_close r), close_fd (rd_fd r) k))"

definition run ::
  "bool \<Rightarrow> ((IpKey \<times> RuleAction) list \<Rightarrow> (IpKey \<times> RuleAction) list) \<Rightarrow> (IpKey list \<Rightarrow> IpKey list) \<Rightarrow> ready_script option \<Rightarrow>
   io_error option \<Rightarrow> turn_input list \<Rightarrow> Daemon \<Rightarrow> os \<times> world \<Rightarrow> (run_status \<times> sys \<times> os) option" where
  "run debug_assertions po ho ready settime_err turns d st =
     (case st of (k, w) \<Rightarrow>
        let s = initial_state d w in
        case open_run_fds (opt_ipv6 (opts d)) k of
          (Inl e, k) \<Rightarrow> Some (RunDone (Inl e), s, k)
        | (Inr f, k) \<Rightarrow>
            let s = log_all (log_schema debug_assertions LInfo DAEMON_STARTED (started_fields (opts d))) s in
            (case notify_ready ready k of
               (Inl e, k) \<Rightarrow> Some (RunDone (Inl e), s, drop_sockets (fd_route f) (fd_rule f) k)
             | (Inr _, k) \<Rightarrow>
                 (case event_loop po settime_err turns s of
                    (Inr False, s) \<Rightarrow> Some (RunWaiting, s, k)
                  | (Inr True, s) \<Rightarrow> finish_run debug_assertions ho f (Inr ()) (s, k)
                  | (Inl err, s) \<Rightarrow> finish_run debug_assertions ho f (Inl err) (s, k))))"

definition cleanup_once ::
  "(IpKey list \<Rightarrow> IpKey list) \<Rightarrow> CleanupSource \<Rightarrow> Options \<Rightarrow> os \<times> world \<Rightarrow> ((AppError, unit) res \<times> sys \<times> os) option" where
  "cleanup_once ho source options st =
     (case st of (k, w) \<Rightarrow>
        let s = initial_state (Daemon_new options) w in
        case open_rule k of
          (Inl e, k) \<Rightarrow> Some (Inl (from_required_syscall_io e), s, k)
        | (Inr fd, k) \<Rightarrow>
            (case cleanup_rules ho source s of
               None \<Rightarrow> None
             | Some (Inl e, s) \<Rightarrow> Some (Inl e, s, drop_socket fd k)
             | Some (Inr _, s) \<Rightarrow> Some (Inr (), s, drop_socket fd k)))"

subsection \<open>Descriptors\<close>

definition fd_list :: "run_fds \<Rightarrow> int list" where
  "fd_list f = [fd_epoll f, fd_timer f, fd_signal f, fd_rule f, fd_route f]"

lemma open_run_fds_ok:
  assumes "open_run_fds ipv6 k = (Inr f, k')"
  shows "os_open k' = fd_list f @ os_open k" "distinct (fd_list f)" "set (fd_list f) \<inter> set (os_open k) = {}"
    "list_all (\<lambda>fd. 0 \<le> fd) (fd_list f)"
proof -
  obtain route k1 where r1: "open_route ipv6 k = (Inr route, k1)"
    using assms by (auto simp: open_run_fds_def split: prod.splits sum.splits)
  obtain rule k2 where r2: "open_rule k1 = (Inr rule, k2)"
    using assms r1 by (auto simp: open_run_fds_def split: prod.splits sum.splits)
  obtain sig k3 where r3: "setup_signalfd k2 = (Inr sig, k3)"
    using assms r1 r2 by (cases "setup_signalfd k2"; cases "fst (setup_signalfd k2)") (simp_all add: open_run_fds_def)
  obtain tim k4 where r4: "setup_timerfd k3 = (Inr tim, k4)"
    using assms r1 r2 r3 by (cases "setup_timerfd k3"; cases "fst (setup_timerfd k3)") (simp_all add: open_run_fds_def)
  obtain ep k5 where r5: "setup_epoll route rule sig tim k4 = (Inr ep, k5)"
    using assms r1 r2 r3 r4
    by (cases "setup_epoll route rule sig tim k4"; cases "fst (setup_epoll route rule sig tim k4)") (simp_all add: open_run_fds_def)
  have f: "f = \<lparr>fd_route = route, fd_rule = rule, fd_signal = sig, fd_timer = tim, fd_epoll = ep\<rparr>" "k' = k5"
    using assms r1 r2 r3 r4 r5 by (simp_all add: open_run_fds_def)
  note opened = op_route.opened_fd [OF r1] op_rule.opened_fd [OF r2] op_signal.opened_fd [OF r3] op_timer.opened_fd [OF r4]
    op_epoll.opened_fd [OF r5]
  show "os_open k' = fd_list f @ os_open k" "distinct (fd_list f)" "set (fd_list f) \<inter> set (os_open k) = {}"
    "list_all (\<lambda>fd. 0 \<le> fd) (fd_list f)"
    using opened by (simp_all add: f fd_list_def)
qed

text \<open>
  When the two sockets are open and a later step fails, the sockets are closed, but the descriptors that are
  plain numbers, the signal and the timer descriptor, stay open.
\<close>

lemma failed_setup_leaves:
  assumes "open_route ipv6 k = (Inr route, k1)" "open_rule k1 = (Inr rule, k2)" "open_run_fds ipv6 k = (Inl e, k')"
  shows "os_open k' =
    (case setup_signalfd k2 of
       (Inl _, _) \<Rightarrow> []
     | (Inr sig, k3) \<Rightarrow> (case setup_timerfd k3 of (Inl _, _) \<Rightarrow> [sig] | (Inr tim, _) \<Rightarrow> [tim, sig])) @ os_open k"
proof -
  note sockets = op_route.opened_fd [OF assms(1)] op_rule.opened_fd [OF assms(2)]
  have drop: "os_open (drop_sockets route rule k') = xs @ os_open k"
    if "os_open k' = xs @ os_open k2" "route \<notin> set xs" "rule \<notin> set xs" for k' xs
    using sockets that by (auto simp: drop_sockets_def drop_socket_def filter_fresh)
  obtain r3 k3 where s3: "setup_signalfd k2 = (r3, k3)" by fastforce
  obtain r4 k4 where s4: "setup_timerfd k3 = (r4, k4)" by fastforce
  from s3 show ?thesis
  proof (cases rule: op_signal.open_after)
    case (2 e3)
    with assms s3 drop [of k3 "[]"] show ?thesis by (simp add: open_run_fds_def)
  next
    case sig: (1 sig)
    from s4 show ?thesis
    proof (cases rule: op_timer.open_after)
      case (2 e4)
      with assms s3 s4 sig sockets drop [of k4 "[sig]"] show ?thesis by (simp add: open_run_fds_def)
    next
      case tim: (1 tim)
      obtain r5 k5 where s5: "setup_epoll route rule sig tim k4 = (r5, k5)" by fastforce
      from s5 show ?thesis
      proof (cases rule: op_epoll.open_after)
        case (2 e5)
        with assms s3 s4 s5 sig tim sockets drop [of k5 "[tim, sig]"] show ?thesis by (simp add: open_run_fds_def)
      next
        case (1 ep)
        with assms s3 s4 s5 sig tim show ?thesis by (simp add: open_run_fds_def)
      qed
    qed
  qed
qed

lemma drop_sockets_open:
  "0 \<le> route \<Longrightarrow> 0 \<le> rule \<Longrightarrow> os_open (drop_sockets route rule k) = filter (\<lambda>x. x \<noteq> route) (filter (\<lambda>x. x \<noteq> rule) (os_open k))"
  by (simp add: drop_sockets_def drop_socket_def)

definition without_ready :: "ready_script option \<Rightarrow> int list \<Rightarrow> int list" where
  "without_ready ready fds = (case ready of None \<Rightarrow> fds | Some r \<Rightarrow> filter (\<lambda>x. x \<noteq> rd_fd r) fds)"

lemma notify_ready_open: "os_open (snd (notify_ready ready k)) = without_ready ready (os_open k)"
  by (cases ready) (simp_all add: notify_ready_def without_ready_def)

lemma cleanup_tracked_total: "\<exists>r s'. cleanup_rules ho Tracked s = Some (r, s')"
  by (simp add: cleanup_rules_def split: prod.splits sum.splits)

lemma finish_run_cases:
  fixes s :: sys
  obtains cleanup_res s1 where
    "finish_run da ho f lr (s, k) =
       Some (RunDone (case cleanup_res of Inl e \<Rightarrow> Inl e | Inr _ \<Rightarrow> lr),
         (case cleanup_res of
            Inl e \<Rightarrow> s1
          | Inr removed \<Rightarrow> log_all (log_schema da LInfo DAEMON_STOPPED (stopped_fields removed s1)) s1),
         drop_sockets (fd_route f) (fd_rule f) (close_fd (fd_signal f) (close_fd (fd_timer f) (close_fd (fd_epoll f) k))))"
    "shutdown_cleanup_done s \<and> lr = Inr () \<Longrightarrow> cleanup_res = Inr (cs_removed (shutdown_cleanup s)) \<and> s1 = s"
proof -
  define s0 where "s0 = (case lr of
      Inl err \<Rightarrow> log (LogLine LError ''daemon.loop_error'' [(''error'', VDisplayErr err), (''phase'', VStr ''event_loop'')]) s
    | Inr _ \<Rightarrow> s)"
  define c where "c = (if shutdown_cleanup_done s0 then Some (Inr (cs_removed (shutdown_cleanup s0)), s0) else cleanup_rules ho Tracked s0)"
  obtain r s1 where c: "c = Some (r, s1)" using cleanup_tracked_total [of ho s0] by (cases "shutdown_cleanup_done s0") (auto simp: c_def)
  have "shutdown_cleanup_done s \<and> lr = Inr () \<Longrightarrow> r = Inr (cs_removed (shutdown_cleanup s)) \<and> s1 = s"
    using c by (auto simp: c_def s0_def)
  moreover have "finish_run da ho f lr (s, k) =
       Some (RunDone (case r of Inl e \<Rightarrow> Inl e | Inr _ \<Rightarrow> lr),
         (case r of Inl e \<Rightarrow> s1 | Inr removed \<Rightarrow> log_all (log_schema da LInfo DAEMON_STOPPED (stopped_fields removed s1)) s1),
         drop_sockets (fd_route f) (fd_rule f) (close_fd (fd_signal f) (close_fd (fd_timer f) (close_fd (fd_epoll f) k))))"
    unfolding finish_run_def prod.case Let_def s0_def [symmetric] c_def [symmetric] c option.case by (cases r) simp_all
  ultimately show thesis using that by blast
qed

lemma finish_run_open:
  assumes "finish_run da ho f lr (s, k) = Some (r, s', k')" "list_all (\<lambda>fd. 0 \<le> fd) (fd_list f)"
  shows "os_open k' = filter (\<lambda>x. x \<notin> set (fd_list f)) (os_open k)"
proof -
  have "k' = drop_sockets (fd_route f) (fd_rule f) (close_fd (fd_signal f) (close_fd (fd_timer f) (close_fd (fd_epoll f) k)))"
    using assms(1) by (cases rule: finish_run_cases [of da ho f lr s k]) simp
  with assms(2) show ?thesis by (auto simp: fd_list_def drop_sockets_open intro!: filter_cong)
qed

text \<open>
  C25. The daemon gives back its descriptors: a run that reaches its event loop and returns, normally or with an error,
  has closed both sockets, the signal, timer and epoll descriptors and the ready pipe, and nothing else.
\<close>

theorem run_releases_descriptors:
  assumes "run da po ho ready settime_err turns d (k, w) = Some (RunDone r, s', k')"
    "open_run_fds (opt_ipv6 (opts d)) k = (Inr f, k1)" "fst (notify_ready ready k1) = Inr ()"
    "\<And>rd. ready = Some rd \<Longrightarrow> rd_fd rd \<in> set (os_open k)"
  shows "os_open k' = without_ready ready (os_open k)"
proof -
  obtain k2 where n: "notify_ready ready k1 = (Inr (), k2)" using assms(3) by (cases "notify_ready ready k1") auto
  obtain lr s1 where fr: "finish_run da ho f lr (s1, k2) = Some (RunDone r, s', k')"
    using assms(1,2) n by (auto simp: run_def Let_def split: prod.splits sum.splits bool.splits)
  note ok = open_run_fds_ok [OF assms(2)]
  have "os_open k' = filter (\<lambda>x. x \<notin> set (fd_list f)) (without_ready ready (fd_list f @ os_open k))"
    using finish_run_open [OF fr ok(4)] notify_ready_open [of ready k1] n ok(1) by simp
  also have "\<dots> = without_ready ready (filter (\<lambda>x. x \<notin> set (fd_list f)) (os_open k))"
    by (cases ready) (auto simp: without_ready_def intro!: filter_cong)
  also have "filter (\<lambda>x. x \<notin> set (fd_list f)) (os_open k) = os_open k"
    using ok(3) by (auto simp: filter_id_conv)
  finally show ?thesis .
qed

subsection \<open>Ending a run\<close>

lemma loop_turns_exit: "loop_turns po turns s = (Inr True, s') \<Longrightarrow> loop_exit s'"
proof (induction turns arbitrary: s)
  case (Cons inp turns)
  obtain r s1 where t: "loop_turn po inp s = (r, s1)" by fastforce
  have exit: "r = Inr TurnExit \<Longrightarrow> loop_exit s1"
    using t by (auto simp: loop_turn_def Let_def split: turn_input.splits prod.splits sum.splits if_splits)
  show ?case
  proof (cases "r = Inr TurnExit")
    case True
    with t Cons.prems exit show ?thesis by simp
  next
    case False
    with t Cons show ?thesis by (auto split: sum.splits turn_result.splits)
  qed
qed simp

lemma log_schema_stopped: "log_schema da LInfo DAEMON_STOPPED (stopped_fields removed s) = [LogLine LInfo ''daemon.stopped'' (stopped_fields removed s)]"
  by (simp add: log_schema_def DAEMON_STOPPED_def collect_missing_required_fields_def stopped_fields_def)

lemma stopped_fields_logged: "stopped_fields n (s\<lparr>logged := l\<rparr>) = stopped_fields n s"
  by (simp add: stopped_fields_def)

lemma log_schema_started: "log_schema da LInfo DAEMON_STARTED (started_fields p) = [LogLine LInfo ''daemon.started'' (started_fields p)]"
  by (simp add: log_schema_def DAEMON_STARTED_def collect_missing_required_fields_def started_fields_def)

lemma finish_run_clean:
  assumes "lr = Inr () \<Longrightarrow> loop_exit s"
  shows "case finish_run da ho f lr (s, k1) of
      None \<Rightarrow> False
    | Some (RunWaiting, s', k') \<Rightarrow> True
    | Some (RunDone (Inl e), s', k') \<Rightarrow> True
    | Some (RunDone (Inr _), s', k') \<Rightarrow>
       loop_exit s' \<and> last (logged s') = LogLine LInfo ''daemon.stopped'' (stopped_fields (cs_removed (shutdown_cleanup s')) s')"
proof (cases rule: finish_run_cases [of da ho f lr s k1])
  case (1 cleanup_res s1)
  show ?thesis
  proof (cases lr)
    case (Inl e)
    with 1 show ?thesis by (cases cleanup_res) simp_all
  next
    case (Inr u)
    with assms have "loop_exit s" by simp
    with 1(2) Inr have "cleanup_res = Inr (cs_removed (shutdown_cleanup s)) \<and> s1 = s" by (simp add: loop_exit_def)
    with 1(1) Inr \<open>loop_exit s\<close> show ?thesis
      by (simp add: log_schema_stopped log_all_def log_def loop_exit_def stopped_fields_logged)
  qed
qed

text \<open>
  C24. A run always ends in one of three ways: it is still waiting, it failed, or it succeeded; and when it
  succeeded a shutdown was requested, no address is pending, no batch is in flight, no maintenance is under way,
  the shutdown cleanup was done, and the last line of the log is \<open>daemon.stopped\<close> with its totals.
\<close>

theorem run_ends_clean:
  "case run da po ho ready settime_err turns d (k, w) of
     None \<Rightarrow> False
   | Some (RunWaiting, s', k') \<Rightarrow> True
   | Some (RunDone (Inl e), s', k') \<Rightarrow> True
   | Some (RunDone (Inr _), s', k') \<Rightarrow>
       shutdown_requested s' \<and> pending s' = [] \<and> inflight s' = None \<and> maintenance s' = Idle \<and> shutdown_cleanup_done s' \<and>
       last (logged s') = LogLine LInfo ''daemon.stopped'' (stopped_fields (cs_removed (shutdown_cleanup s')) s')"
proof -
  have ex: "event_loop po settime_err turns s = (Inr True, s') \<Longrightarrow> loop_exit s'" for s s'
    using loop_turns_exit by (auto simp: event_loop_def split: prod.splits sum.splits)
  obtain r k1 where o1: "open_run_fds (opt_ipv6 (opts d)) k = (r, k1)" by fastforce
  show ?thesis
  proof (cases r)
    case (Inl e)
    with o1 show ?thesis by (simp add: run_def Let_def)
  next
    case (Inr f)
    obtain r2 k2 where n: "notify_ready ready k1 = (r2, k2)" by fastforce
    let ?s = "log_all (log_schema da LInfo DAEMON_STARTED (started_fields (opts d))) (initial_state d w)"
    obtain r3 s3 where l: "event_loop po settime_err turns ?s = (r3, s3)" by fastforce
    show ?thesis
    proof (cases r2)
      case (Inl e)
      with o1 Inr n show ?thesis by (simp add: run_def Let_def)
    next
      case (Inr u)
      have fr: "run da po ho ready settime_err turns d (k, w) =
          (case r3 of Inr False \<Rightarrow> Some (RunWaiting, s3, k2) | Inr True \<Rightarrow> finish_run da ho f (Inr ()) (s3, k2)
           | Inl err \<Rightarrow> finish_run da ho f (Inl err) (s3, k2))"
        using o1 \<open>r = Inr f\<close> n Inr l by (simp add: run_def Let_def)
      show ?thesis
      proof (cases r3)
        case (Inl e)
        with fr finish_run_clean [of "Inl e" s3 da ho f k2, unfolded loop_exit_def conj_assoc] show ?thesis by simp
      next
        case (Inr b)
        with fr ex l finish_run_clean [of "Inr ()" s3 da ho f k2, unfolded loop_exit_def conj_assoc] show ?thesis
          by (cases b) (simp_all add: loop_exit_def)
      qed
    qed
  qed
qed

text \<open>
  The one-shot cleanup in tracked mode does nothing: it starts from a daemon that owns no address, so when its
  socket can be opened it succeeds without sending a single request.
\<close>

lemma cleanup_once_tracked_noop:
  assumes "hash_order ho" "open_rule k = (Inr fd, k1)"
  shows "\<exists>s'. cleanup_once ho Tracked options (k, w) = Some (Inr (), s', drop_socket fd k1) \<and>
    (\<forall>i. tx_log (socks (wd s') i) = tx_log (socks w i))"
proof -
  have "mset (ho []) = mset []" using assms(1) unfolding hash_order_def by blast
  then show ?thesis
    using assms(2) by (simp add: cleanup_once_def cleanup_rules_def initial_state_def Daemon_new_def now_def log_def Let_def
        split: prod.splits) (metis instant_now_frame(1) snd_conv)
qed

subsection \<open>Concrete runs\<close>

definition sample_os :: os where
  "sample_os = \<lparr>os_fail = (\<lambda>_. None), os_calls = [], os_open = [0, 1, 2, 7], os_flags = (\<lambda>_. 0), os_blocked = {}\<rparr>"

lemma open_rule_sample: "\<exists>k1. open_rule sample_os = (Inr 3, k1)"
  by (simp add: open_rule_def socket_defs sample_os_def lowest_free_def)

lemma open_run_fds_sample: "\<exists>f k1. open_run_fds True sample_os = (Inr f, k1)"
  by (simp add: open_run_fds_def open_route_def open_rule_def setup_signalfd_def setup_timerfd_def setup_epoll_def
      add_or_close_def epoll_add_def required_call_def socket_defs sample_os_def lowest_free_def)

definition sample_ready :: ready_script where
  "sample_ready = \<lparr>rd_fd = 7, rd_stale = eagain_error, rd_write = Inr 1, rd_close = None\<rparr>"

lemma sample_options_ipv6: "opt_ipv6 (opts (Daemon_new (sample_options\<lparr>opt_ipv6 := True\<rparr>))) = True"
  by (simp add: Daemon_new_def)

theorem run_releases_descriptors_witness:
  "\<exists>r s' k'. run True id id (Some sample_ready) (Some eagain_error) [] (Daemon_new (sample_options\<lparr>opt_ipv6 := True\<rparr>))
       (sample_os, quiet_world) = Some (RunDone r, s', k') \<and> os_open k' = [0, 1, 2]"
proof -
  let ?d = "Daemon_new (sample_options\<lparr>opt_ipv6 := True\<rparr>)"
  obtain f k1 where o1: "open_run_fds (opt_ipv6 (opts ?d)) sample_os = (Inr f, k1)"
    using open_run_fds_sample by (auto simp: sample_options_ipv6)
  have n: "notify_ready (Some sample_ready) k1 = (Inr (), close_fd 7 k1)"
    by (simp add: notify_ready_def notify_ready_fd_def sample_ready_def)
  have fail: "\<exists>e s'. event_loop id (Some eagain_error) [] s = (Inl e, s')" for s :: sys
    by (simp add: event_loop_def arm_timer_def split: prod.splits)
  have "\<exists>r s' k'. run True id id (Some sample_ready) (Some eagain_error) [] ?d (sample_os, quiet_world) = Some (RunDone r, s', k')"
  proof -
    let ?s = "log_all (log_schema True LInfo DAEMON_STARTED (started_fields (opts ?d))) (initial_state ?d quiet_world)"
    obtain e s1 where "event_loop id (Some eagain_error) [] ?s = (Inl e, s1)" using fail by blast
    then have "run True id id (Some sample_ready) (Some eagain_error) [] ?d (sample_os, quiet_world) =
        finish_run True id f (Inl e) (s1, close_fd 7 k1)"
      using o1 n by (simp add: run_def Let_def)
    then show ?thesis by (cases rule: finish_run_cases [of True id f "Inl e" s1 "close_fd 7 k1"]) simp
  qed
  then obtain r s' k' where r: "run True id id (Some sample_ready) (Some eagain_error) [] ?d (sample_os, quiet_world) = Some (RunDone r, s', k')"
    by blast
  have "os_open k' = without_ready (Some sample_ready) (os_open sample_os)"
    by (rule run_releases_descriptors [OF r o1]) (simp add: n, auto simp: sample_ready_def sample_os_def)
  with r show ?thesis by (simp add: without_ready_def sample_ready_def sample_os_def)
qed

end
