(* ===== verification/Pbr.thy ===== *)
theory Pbr
  imports Rule Cli Setup
begin

unbundle bit_operations_syntax

text \<open>
  \<^verbatim>\<open>src/netlink/pbr.rs\<close>: the \<open>pbr\<close> command, which installs or removes one rule on a packet mark and one local
  default route in its table.

  The socket is the rule socket of the world; \<open>if_nametoindex\<close> is an argument (zero: no such interface). The
  state is the world and the descriptors of the process; printed lines are part of the result.
\<close>

abbreviation (input) FRA_ATTR_FWMARK :: u16 where "FRA_ATTR_FWMARK \<equiv> 10"
abbreviation (input) FRA_ATTR_FWMASK :: u16 where "FRA_ATTR_FWMASK \<equiv> 16"
abbreviation (input) RTA_ATTR_OIF :: u16 where "RTA_ATTR_OIF \<equiv> 4"
abbreviation (input) PBR_ACK_TIMEOUT :: nat where "PBR_ACK_TIMEOUT \<equiv> secs 5"
abbreviation (input) DELETE_RULE_LIMIT :: nat where "DELETE_RULE_LIMIT \<equiv> 32"

datatype PbrAckClass = PbrOk | PbrNoop | PbrKernelErr
datatype PbrOp = AddRule | DeleteRule | ReplaceRoute | DeleteRoute

subsection \<open>Messages\<close>

definition start_rt_message :: "u16 \<Rightarrow> u16 \<Rightarrow> u32 \<Rightarrow> RtMsg \<Rightarrow> bytes" where
  "start_rt_message mtype flags seq rtm =
     (let msg = append_zeros [] (NLMSGHDR_SIZE + RTMSG_SIZE);
          msg = write_at 0 (nlmsghdr_bytes \<lparr>nlmsg_len = of_nat (length msg), nlmsg_type = mtype, nlmsg_flags = flags,
                  nlmsg_seq = seq, nlmsg_pid = 0\<rparr>) msg
      in write_at NLMSGHDR_SIZE (RtMsg_bytes rtm) msg)"

definition finish_rt_message :: "bytes \<Rightarrow> bytes" where
  "finish_rt_message msg =
     (let len = length msg;
          msg = write_at 0 (nlmsghdr_bytes ((read_nlmsghdr msg)\<lparr>nlmsg_len := of_nat len\<rparr>)) msg;
          aligned = nlmsg_align len
      in if aligned > len then append_zeros msg (aligned - len) else msg)"

definition build_pbr_rule_message :: "u16 \<Rightarrow> int \<Rightarrow> u32 \<Rightarrow> u32 \<Rightarrow> u32 \<Rightarrow> u32 \<Rightarrow> u32 \<Rightarrow> bytes" where
  "build_pbr_rule_message mtype family fwmark fwmask table pref seq =
     (let flags = NLM_F_REQUEST OR NLM_F_ACK;
          flags = (if mtype = RTM_NEWRULE then flags OR (NLM_F_CREATE OR NLM_F_EXCL) else flags);
          rtm = zero_RtMsg\<lparr>rtm_family := word_of_int family, rtm_protocol := RTPROT_BOOT, rtm_scope := RT_SCOPE_UNIVERSE,
                  rtm_type := RTN_UNICAST\<rparr>;
          rtm = (if table \<le> 255 then rtm\<lparr>rtm_table := ucast table\<rparr> else rtm);
          msg = start_rt_message mtype flags seq rtm;
          msg = append_nla_u32 msg FRA_ATTR_FWMARK fwmark;
          msg = append_nla_u32 msg FRA_ATTR_FWMASK fwmask;
          msg = append_nla_u32 msg FRA_ATTR_PRIORITY pref;
          msg = append_nla_u32 msg FRA_ATTR_TABLE table
      in finish_rt_message msg)"

definition build_pbr_route_message :: "u16 \<Rightarrow> int \<Rightarrow> u32 \<Rightarrow> u32 \<Rightarrow> u32 \<Rightarrow> bytes" where
  "build_pbr_route_message mtype family table oif seq =
     (let flags = NLM_F_REQUEST OR NLM_F_ACK;
          flags = (if mtype = RTM_NEWROUTE then flags OR (NLM_F_CREATE OR NLM_F_REPLACE) else flags);
          rtm = zero_RtMsg\<lparr>rtm_family := word_of_int family, rtm_dst_len := 0, rtm_protocol := RTPROT_BOOT,
                  rtm_scope := RT_SCOPE_HOST, rtm_type := RTN_LOCAL\<rparr>;
          rtm = (if table \<le> 255 then rtm\<lparr>rtm_table := ucast table\<rparr> else rtm);
          msg = start_rt_message mtype flags seq rtm;
          msg = append_nla_u32 msg RTA_ATTR_OIF oif;
          msg = append_nla_u32 msg FRA_ATTR_TABLE table
      in finish_rt_message msg)"

subsection \<open>Sending and waiting for the answer\<close>

definition classify_pbr_ack :: "PbrOp \<Rightarrow> AckErrorInfo option \<Rightarrow> PbrAckClass" where
  "classify_pbr_ack op status =
     (case status of
        None \<Rightarrow> PbrOk
      | Some st \<Rightarrow>
          if op = AddRule \<and> ack_errno st = EEXIST then PbrNoop
          else if op = ReplaceRoute \<and> ack_errno st = EEXIST then PbrNoop
          else if (op = DeleteRule \<or> op = DeleteRoute) \<and> (ack_errno st = ENOENT \<or> ack_errno st = ESRCH) then PbrNoop
          else PbrKernelErr)"

text \<open>The messages of the received packets: the first error message with the sequence number decides.\<close>

fun pbr_items :: "u32 \<Rightarrow> PbrOp \<Rightarrow> (AppError, NetlinkMessageView) res list \<Rightarrow> (AppError, PbrAckClass option) res" where
  "pbr_items seq op [] = Inr None"
| "pbr_items seq op (Inl e # items) = Inl e"
| "pbr_items seq op (Inr msg # items) =
     (if nlmsg_seq (nv_header msg) \<noteq> seq then pbr_items seq op items
      else if uint (nlmsg_type (nv_header msg)) \<noteq> NLMSG_ERROR then pbr_items seq op items
      else res_bind (parse_ack_error_info (nv_data msg)) (\<lambda>status. Inr (Some (classify_pbr_ack op status))))"

text \<open>One receive: an answer, nothing received yet, or packets without the answer.\<close>

datatype pbr_recv = RecvAnswer PbrAckClass | RecvNothing | RecvOther

definition pbr_recv_once :: "u32 \<Rightarrow> PbrOp \<Rightarrow> (world, AppError, pbr_recv) est" where
  "pbr_recv_once seq op w =
     (case sock_recv MMSG_SLOTS RuleSock w of
        (Inl err, w) \<Rightarrow> if is_transient_recv_err err then (Inr RecvNothing, w) else (Inl (AppError_from_io err), w)
      | (Inr pkts, w) \<Rightarrow>
          if pkts = [] then (Inr RecvNothing, w)
          else
            (case pbr_items seq op (concat (map iter_all pkts)) of
               Inl e \<Rightarrow> (Inl e, w)
             | Inr (Some c) \<Rightarrow> (Inr (RecvAnswer c), w)
             | Inr None \<Rightarrow> (Inr RecvOther, w)))"

lemma pbr_recv_once_weight:
  assumes "pbr_recv_once seq op w = (Inr r, w')"
  shows "polls w' = polls w \<and> rx_weight RuleSock w' \<le> rx_weight RuleSock w \<and>
    (r = RecvOther \<longrightarrow> rx_weight RuleSock w' < rx_weight RuleSock w)"
proof -
  obtain r1 w1 where sr: "sock_recv MMSG_SLOTS RuleSock w = (r1, w1)" by fastforce
  then have "w' = w1" "r = RecvOther \<Longrightarrow> r1 \<noteq> Inl eagain_error \<and> r1 \<noteq> Inr []"
    using assms by (auto simp: pbr_recv_once_def split: sum.splits if_splits option.splits)
  then show ?thesis using sock_recv_weight [OF sr] sock_recv_frame [OF sr] by auto
qed

function pbr_ack_loop :: "nat \<Rightarrow> u32 \<Rightarrow> PbrOp \<Rightarrow> (world, AppError, PbrAckClass) est" where
  "pbr_ack_loop deadline seq op w =
     (case pbr_recv_once seq op w of
        (Inl e, w) \<Rightarrow> (Inl e, w)
      | (Inr (RecvAnswer c), w) \<Rightarrow> (Inr c, w)
      | (Inr RecvOther, w) \<Rightarrow> pbr_ack_loop deadline seq op w
      | (Inr RecvNothing, w) \<Rightarrow>
          (case wait_readable deadline w of
             (Inl e, w) \<Rightarrow> (Inl e, w)
           | (Inr readable, w) \<Rightarrow>
               if \<not> readable then (Inl (Netlink ''pbr ack timeout''), w) else pbr_ack_loop deadline seq op w))"
  by pat_completeness auto
termination
proof (relation "measure (\<lambda>(d, seq, op, w). rx_weight RuleSock w + length (polls w))", goal_cases)
  case 1
  show ?case by simp
next
  case (2 deadline seq op w x y z xa ya r)
  have w: "wait_readable deadline y = (Inr True, ya)" using 2 by (cases xa) auto
  from wait_readable_frame [OF w] pbr_recv_once_weight [of seq op w RecvNothing y] 2 show ?case
    by (auto simp: rx_weight_def)
next
  case (3 deadline seq op w x y z)
  then show ?case using pbr_recv_once_weight [of seq op w RecvOther y] by auto
qed

declare pbr_ack_loop.simps [simp del]

definition wait_pbr_ack :: "u32 \<Rightarrow> PbrOp \<Rightarrow> (world, AppError, PbrAckClass) est" where
  "wait_pbr_ack seq op w = (let (t, w) = instant_now w in pbr_ack_loop (t + PBR_ACK_TIMEOUT) seq op w)"

definition send_pbr_message_classified :: "PbrOp \<Rightarrow> bytes \<Rightarrow> (world, AppError, PbrAckClass) est" where
  "send_pbr_message_classified op msg w =
     (let hdr = read_nlmsghdr msg in
      case sock_send RuleSock msg w of
        (Inl e, w) \<Rightarrow> (Inl (AppError_from_io e), w)
      | (Inr _, w) \<Rightarrow> wait_pbr_ack (nlmsg_seq hdr) op w)"

definition send_pbr_message :: "PbrOp \<Rightarrow> bytes \<Rightarrow> (world, AppError, unit) est" where
  "send_pbr_message op msg =
     est_bind (send_pbr_message_classified op msg) (\<lambda>c w.
       (if c = PbrKernelErr then Inl (Netlink ''pbr operation failed'') else Inr (), w))"

subsection \<open>The command\<close>

definition take_seq :: "(world, AppError, u32) est" where
  "take_seq w = (let (seq, cell) = next_seq (seq_cell w) in (Inr seq, w\<lparr>seq_cell := cell\<rparr>))"

definition pbr_rule_request :: "u16 \<Rightarrow> PbrRequest \<Rightarrow> u32 \<Rightarrow> bytes" where
  "pbr_rule_request mtype r seq =
     build_pbr_rule_message mtype (as_i32 (pbr_family r)) (pbr_mark r) (pbr_mask r) (pbr_table r) (pbr_pref r) seq"

definition pbr_route_request :: "u16 \<Rightarrow> PbrRequest \<Rightarrow> u32 \<Rightarrow> u32 \<Rightarrow> bytes" where
  "pbr_route_request mtype r lo_ifindex seq =
     build_pbr_route_message mtype (as_i32 (pbr_family r)) (pbr_table r) lo_ifindex seq"

text \<open>The deletion loop, with the rounds that are left.\<close>

fun delete_rules :: "nat \<Rightarrow> PbrRequest \<Rightarrow> (world, AppError, unit) est" where
  "delete_rules 0 request w = (Inr (), w)"
| "delete_rules (Suc n) request w =
     est_bind take_seq (\<lambda>seq.
     est_bind (send_pbr_message_classified DeleteRule (pbr_rule_request RTM_DELRULE request seq)) (\<lambda>c w.
       if c = PbrNoop then (Inr (), w) else delete_rules n request w)) w"

definition cleanup_request :: "PbrRequest \<Rightarrow> u32 \<Rightarrow> (world, AppError, unit) est" where
  "cleanup_request request lo_ifindex =
     est_bind (delete_rules DELETE_RULE_LIMIT request) (\<lambda>_.
     est_bind take_seq (\<lambda>seq.
       send_pbr_message DeleteRoute (pbr_route_request RTM_DELROUTE request lo_ifindex seq)))"

definition loopback_ifindex :: "u32 \<Rightarrow> (AppError, u32) res" where
  "loopback_ifindex idx = (if idx = 0 then Inl (Message ''loopback interface not found'') else Inr idx)"

definition family_name :: "int \<Rightarrow> string" where
  "family_name family = (if family = AF_INET then ''ipv4'' else if family = AF_INET6 then ''ipv6'' else ''unknown'')"

definition pbr_line :: "string \<Rightarrow> PbrRequest \<Rightarrow> string" where
  "pbr_line verb r =
     ''pbr '' @ verb @ '' family='' @ family_name (as_i32 (pbr_family r)) @ '' mark=0x'' @ fmt_hex (unat (pbr_mark r)) @
     ''/0x'' @ fmt_hex (unat (pbr_mask r)) @ '' table='' @ fmt_nat (unat (pbr_table r)) @
     '' pref='' @ fmt_nat (unat (pbr_pref r))"

definition run_action :: "PbrRequest \<Rightarrow> u32 \<Rightarrow> (world, AppError, string) est" where
  "run_action request lo_ifindex =
     (case pbr_action request of
        PbrApply \<Rightarrow>
          est_bind (cleanup_request request lo_ifindex) (\<lambda>_.
          est_bind take_seq (\<lambda>seq.
          est_bind (send_pbr_message ReplaceRoute (pbr_route_request RTM_NEWROUTE request lo_ifindex seq)) (\<lambda>_.
          est_bind take_seq (\<lambda>seq.
          est_bind (send_pbr_message AddRule (pbr_rule_request RTM_NEWRULE request seq)) (\<lambda>_ w.
            (Inr (pbr_line ''applied'' request), w))))))
      | PbrCleanup \<Rightarrow>
          est_bind (cleanup_request request lo_ifindex) (\<lambda>_ w. (Inr (pbr_line ''cleaned'' request), w))
      | PbrStatus \<Rightarrow> (\<lambda>w. (Inr (pbr_line ''target'' request), w)))"

definition run_request :: "u32 \<Rightarrow> PbrRequest \<Rightarrow> os \<times> world \<Rightarrow> (AppError + string) \<times> os \<times> world" where
  "run_request if_index request st =
     (case st of (k, w) \<Rightarrow>
        (case open_rule k of
           (Inl e, k) \<Rightarrow> (Inl (from_required_syscall_io e), k, w)
         | (Inr fd, k) \<Rightarrow>
             (case loopback_ifindex if_index of
                Inl e \<Rightarrow> (Inl e, drop_socket fd k, w)
              | Inr lo_ifindex \<Rightarrow>
                  (case run_action request lo_ifindex w of (r, w) \<Rightarrow> (r, drop_socket fd k, w)))))"

subsection \<open>The messages\<close>

lemma start_rt_message_eq:
  "start_rt_message mtype flags seq rtm =
     nlmsghdr_bytes \<lparr>nlmsg_len = 28, nlmsg_type = mtype, nlmsg_flags = flags, nlmsg_seq = seq, nlmsg_pid = 0\<rparr> @ RtMsg_bytes rtm"
  by (simp add: start_rt_message_def append_zeros_def write_at_def)

lemma finish_rt_message_eq:
  assumes "length body mod 4 = 0"
  shows "finish_rt_message (nlmsghdr_bytes h @ body) = nlmsghdr_bytes (h\<lparr>nlmsg_len := of_nat (16 + length body)\<rparr>) @ body"
proof -
  have "(16 + length body) mod 4 = 0" using assms by presburger
  then have "nlmsg_align (16 + length body) = 16 + length body" unfolding nlmsg_align_eq by (rule align_id)
  then show ?thesis by (simp add: finish_rt_message_def write_at_def Let_def)
qed

text \<open>The parts of a message by operation.\<close>

fun op_type :: "PbrOp \<Rightarrow> u16" where
  "op_type AddRule = RTM_NEWRULE"
| "op_type DeleteRule = RTM_DELRULE"
| "op_type ReplaceRoute = RTM_NEWROUTE"
| "op_type DeleteRoute = RTM_DELROUTE"

definition pbr_msg :: "PbrRequest \<Rightarrow> u32 \<Rightarrow> PbrOp \<Rightarrow> u32 \<Rightarrow> bytes" where
  "pbr_msg r lo op seq =
     (if op \<in> {AddRule, DeleteRule} then pbr_rule_request (op_type op) r seq else pbr_route_request (op_type op) r lo seq)"

definition pbr_flags :: "PbrOp \<Rightarrow> u16" where
  "pbr_flags op = (case op of AddRule \<Rightarrow> 0x605 | ReplaceRoute \<Rightarrow> 0x505 | _ \<Rightarrow> 0x5)"

definition pbr_rtm :: "PbrRequest \<Rightarrow> PbrOp \<Rightarrow> RtMsg" where
  "pbr_rtm r op =
     zero_RtMsg\<lparr>rtm_family := (case pbr_family r of Ipv4 \<Rightarrow> 2 | Ipv6 \<Rightarrow> 10),
       rtm_table := (if pbr_table r \<le> 255 then ucast (pbr_table r) else 0), rtm_protocol := RTPROT_BOOT,
       rtm_scope := (if op \<in> {AddRule, DeleteRule} then 0 else 254),
       rtm_type := (if op \<in> {AddRule, DeleteRule} then 1 else 2)\<rparr>"

definition pbr_attrs :: "PbrRequest \<Rightarrow> u32 \<Rightarrow> PbrOp \<Rightarrow> (u16 \<times> bytes) list" where
  "pbr_attrs r lo op =
     (if op \<in> {AddRule, DeleteRule}
      then [(FRA_ATTR_FWMARK, le_bytes 4 (pbr_mark r)), (FRA_ATTR_FWMASK, le_bytes 4 (pbr_mask r)),
            (FRA_ATTR_PRIORITY, le_bytes 4 (pbr_pref r)), (FRA_ATTR_TABLE, le_bytes 4 (pbr_table r))]
      else [(RTA_ATTR_OIF, le_bytes 4 lo), (FRA_ATTR_TABLE, le_bytes 4 (pbr_table r))])"

definition pbr_header :: "PbrRequest \<Rightarrow> u32 \<Rightarrow> PbrOp \<Rightarrow> u32 \<Rightarrow> nlmsghdr" where
  "pbr_header r lo op seq =
     \<lparr>nlmsg_len = of_nat (28 + length (enc_nlas (pbr_attrs r lo op))), nlmsg_type = op_type op,
      nlmsg_flags = pbr_flags op, nlmsg_seq = seq, nlmsg_pid = 0\<rparr>"

lemma length_pbr_attrs: "length (enc_nlas (pbr_attrs r lo op)) = (if op \<in> {AddRule, DeleteRule} then 32 else 16)"
  by (simp add: pbr_attrs_def nla_align_eq)

lemma pbr_msg_eq:
  "pbr_msg r lo op seq = nlmsghdr_bytes (pbr_header r lo op seq) @ RtMsg_bytes (pbr_rtm r op) @ enc_nlas (pbr_attrs r lo op)"
proof -
  have l: "length (RtMsg_bytes (pbr_rtm r op) @ enc_nlas (pbr_attrs r lo op)) mod 4 = 0"
    by (simp add: length_pbr_attrs)
  show ?thesis
    using finish_rt_message_eq [OF l, of "\<lparr>nlmsg_len = 28, nlmsg_type = op_type op, nlmsg_flags = pbr_flags op, nlmsg_seq = seq, nlmsg_pid = 0\<rparr>"]
    by (cases op; cases "pbr_family r"; cases "pbr_table r \<le> 255")
      (simp_all add: pbr_msg_def pbr_rule_request_def pbr_route_request_def build_pbr_rule_message_def
        build_pbr_route_message_def start_rt_message_eq append_nla_u32_eq pbr_header_def pbr_rtm_def pbr_attrs_def
        pbr_flags_def zero_RtMsg_def nla_align_eq)
qed

text \<open>Sequences of requests, numbered on from the cell.\<close>

fun sent :: "PbrRequest \<Rightarrow> u32 \<Rightarrow> u32 \<Rightarrow> PbrOp list \<Rightarrow> bytes list" where
  "sent r lo cell [] = []"
| "sent r lo cell (op # ops) =
     pbr_msg r lo op (normalize_seq cell) # sent r lo (seq_advance (normalize_seq cell) 1) ops"

subsection \<open>An abstract kernel\<close>

text \<open>The number of copies of the rule in the kernel, and whether the route is there.\<close>

fun kernel_step :: "PbrOp \<Rightarrow> nat \<times> bool \<Rightarrow> int \<times> nat \<times> bool" where
  "kernel_step DeleteRule (n, b) = (if n = 0 then (ENOENT, 0, b) else (0, n - 1, b))"
| "kernel_step DeleteRoute (n, b) = (if b then (0, n, False) else (ESRCH, n, b))"
| "kernel_step ReplaceRoute (n, b) = (0, n, True)"
| "kernel_step AddRule (n, b) = (if n = 0 then (0, 1, b) else (EEXIST, n, b))"

fun kernel_run :: "PbrOp list \<Rightarrow> nat \<times> bool \<Rightarrow> nat \<times> bool" where
  "kernel_run [] k = k"
| "kernel_run (op # ops) k = kernel_run ops (snd (kernel_step op k))"

text \<open>The packets with which this kernel answers a sequence of requests.\<close>

fun kernel_replies :: "u32 \<Rightarrow> nat \<times> bool \<Rightarrow> PbrOp list \<Rightarrow> recv_result list" where
  "kernel_replies cell k [] = []"
| "kernel_replies cell k (op # ops) =
     RecvOk [kernel_ack (normalize_seq cell) (fst (kernel_step op k))] #
     kernel_replies (seq_advance (normalize_seq cell) 1) (snd (kernel_step op k)) ops"

text \<open>The kernel answers the requests to come, and the requests sent so far with those to come are \<open>log\<close>.\<close>

definition serves :: "PbrRequest \<Rightarrow> u32 \<Rightarrow> nat \<times> bool \<Rightarrow> PbrOp list \<Rightarrow> bytes list \<Rightarrow> world \<Rightarrow> bool" where
  "serves r lo k ops log w \<longleftrightarrow>
     tx_script (socks w RuleSock) = [] \<and> rx_script (socks w RuleSock) = kernel_replies (seq_cell w) k ops \<and>
     tx_log (socks w RuleSock) @ sent r lo (seq_cell w) ops = log"

lemma kernel_errno: "fst (kernel_step op k) \<in> {0, ENOENT, ESRCH, EEXIST}"
  by (cases op; cases k) auto

lemma kernel_class:
  "classify_pbr_ack op (if fst (kernel_step op k) = 0 then None else Some \<lparr>ack_errno = fst (kernel_step op k), ack_ext_msg = m, ack_ext_offset = x\<rparr>) =
     (if fst (kernel_step op k) = 0 then PbrOk else PbrNoop)"
  by (cases op; cases k) (simp_all add: classify_pbr_ack_def)

lemma wait_answer:
  assumes "rx_script (socks w RuleSock) = RecvOk [kernel_ack seq (fst (kernel_step op k))] # rest"
  shows "\<exists>w'. wait_pbr_ack seq op w = (Inr (if fst (kernel_step op k) = 0 then PbrOk else PbrNoop), w') \<and>
    socks w' = (socks w)(RuleSock := (socks w RuleSock)\<lparr>rx_script := rest\<rparr>) \<and> seq_cell w' = seq_cell w"
proof -
  let ?e = "fst (kernel_step op k)"
  obtain t w1 where nw: "instant_now w = (t, w1)" by fastforce
  have f: "socks w1 = socks w" "seq_cell w1 = seq_cell w" using instant_now_frame [of w] nw by simp_all
  have sr: "sock_recv MMSG_SLOTS RuleSock w1 = (Inr [kernel_ack seq ?e], upd_sock RuleSock (\<lambda>s. s\<lparr>rx_script := rest\<rparr>) w1)"
    using assms f by (simp add: sock_recv_def kernel_ack_frame)
  have it: "iter_all (kernel_ack seq ?e) = [Inr (frame_view (kernel_ack seq ?e))]"
    using iter_all_frame [OF kernel_ack_frame(1), of seq ?e "[]"] by simp
  have "parse_ack_errno (le_bytes 4 (word_of_int (- ?e) :: u32) @ replicate 16 0) = Inr (if ?e = 0 then None else Some ?e)"
    by (rule parse_ack_errno_enc) (use kernel_errno [of op k] in auto)
  then have "\<exists>m x. parse_ack_error_info (nv_data (frame_view (kernel_ack seq ?e))) =
      Inr (if ?e = 0 then None else Some \<lparr>ack_errno = ?e, ack_ext_msg = m, ack_ext_offset = x\<rparr>)"
    by (simp add: kernel_ack_frame parse_ack_error_info_cases Let_def)
  then have "pbr_items seq op [Inr (frame_view (kernel_ack seq ?e))] = Inr (Some (if ?e = 0 then PbrOk else PbrNoop))"
    using kernel_class [of op k] by (auto simp: kernel_ack_frame)
  then have "pbr_recv_once seq op w1 =
      (Inr (RecvAnswer (if ?e = 0 then PbrOk else PbrNoop)), upd_sock RuleSock (\<lambda>s. s\<lparr>rx_script := rest\<rparr>) w1)"
    using sr it by (simp add: pbr_recv_once_def)
  then have "wait_pbr_ack seq op w =
      (Inr (if ?e = 0 then PbrOk else PbrNoop), upd_sock RuleSock (\<lambda>s. s\<lparr>rx_script := rest\<rparr>) w1)"
    using nw by (simp add: wait_pbr_ack_def pbr_ack_loop.simps)
  with f show ?thesis by (simp add: upd_sock_def)
qed

lemma send_served:
  assumes "serves r lo k (op # ops) log w"
  shows "\<exists>w'. est_bind take_seq (\<lambda>seq. send_pbr_message_classified op (pbr_msg r lo op seq)) w =
      (Inr (if fst (kernel_step op k) = 0 then PbrOk else PbrNoop), w') \<and> serves r lo (snd (kernel_step op k)) ops log w'"
proof -
  let ?s = "normalize_seq (seq_cell w)"
  let ?w = "upd_sock RuleSock (\<lambda>s. s\<lparr>tx_log := tx_log s @ [pbr_msg r lo op ?s]\<rparr>) (w\<lparr>seq_cell := seq_advance ?s 1\<rparr>)"
  have seq: "nlmsg_seq (read_nlmsghdr (pbr_msg r lo op ?s)) = ?s" by (simp add: pbr_msg_eq pbr_header_def)
  have send: "sock_send RuleSock (pbr_msg r lo op ?s) (w\<lparr>seq_cell := seq_advance ?s 1\<rparr>) = (Inr (), ?w)"
    using assms by (simp add: serves_def sock_send_def)
  have tk: "take_seq w = (Inr ?s, w\<lparr>seq_cell := seq_advance ?s 1\<rparr>)"
    by (simp add: take_seq_def next_seq_def reserve_seq_block_def Let_def)
  have "rx_script (socks ?w RuleSock) =
      RecvOk [kernel_ack ?s (fst (kernel_step op k))] # kernel_replies (seq_advance ?s 1) (snd (kernel_step op k)) ops"
    using assms by (simp add: serves_def upd_sock_def)
  from wait_answer [OF this] obtain w' where w': "wait_pbr_ack ?s op ?w = (Inr (if fst (kernel_step op k) = 0 then PbrOk else PbrNoop), w')"
    "socks w' = (socks ?w)(RuleSock := (socks ?w RuleSock)\<lparr>rx_script := kernel_replies (seq_advance ?s 1) (snd (kernel_step op k)) ops\<rparr>)"
    "seq_cell w' = seq_cell ?w" by blast
  have "serves r lo (snd (kernel_step op k)) ops log w'"
    using assms w'(2,3) by (simp add: serves_def upd_sock_def)
  with tk send seq w'(1) show ?thesis by (simp add: send_pbr_message_classified_def)
qed

lemma send_message_served:
  assumes "serves r lo k (op # ops) log w"
  shows "\<exists>w'. est_bind take_seq (\<lambda>seq. send_pbr_message op (pbr_msg r lo op seq)) w = (Inr (), w') \<and>
    serves r lo (snd (kernel_step op k)) ops log w'"
proof -
  obtain s w1 where t: "take_seq w = (Inr s, w1)"
    by (cases "next_seq (seq_cell w)") (simp add: take_seq_def)
  from send_served [OF assms] t obtain w' where
    "send_pbr_message_classified op (pbr_msg r lo op s) w1 = (Inr (if fst (kernel_step op k) = 0 then PbrOk else PbrNoop), w')"
    "serves r lo (snd (kernel_step op k)) ops log w'" by auto
  with t show ?thesis by (simp add: send_pbr_message_def)
qed

lemma delete_rules_served:
  assumes "serves r lo (n, b) (replicate (min (n + 1) m) DeleteRule @ ops) log w"
  shows "\<exists>w'. delete_rules m r w = (Inr (), w') \<and> serves r lo (n - m, b) ops log w'"
  using assms
proof (induction m arbitrary: n w)
  case (Suc m)
  have "serves r lo (n, b) (DeleteRule # replicate (min n m) DeleteRule @ ops) log w"
    using Suc.prems by (simp add: min_Suc_Suc flip: replicate_Suc append_Cons)
  from send_served [OF this] obtain w1 where w1:
    "est_bind take_seq (\<lambda>seq. send_pbr_message_classified DeleteRule (pbr_msg r lo DeleteRule seq)) w =
       (Inr (if n = 0 then PbrNoop else PbrOk), w1)"
    "serves r lo (n - 1, b) (replicate (min n m) DeleteRule @ ops) log w1" by (auto split: if_splits)
  have step: "delete_rules (Suc m) r w = (if n = 0 then (Inr (), w1) else delete_rules m r w1)"
    using w1(1) by (auto simp: est_bind_def pbr_msg_def split: prod.splits sum.splits if_splits)
  show ?case
  proof (cases n)
    case 0
    with step w1(2) show ?thesis by simp
  next
    case (Suc n')
    with Suc.IH [of n' w1] w1(2) step show ?thesis by simp
  qed
qed (use assms in \<open>simp add: serves_def\<close>)

text \<open>The requests of \<open>apply\<close> against a kernel that has \<open>n\<close> copies of the rule.\<close>

definition apply_ops :: "nat \<Rightarrow> PbrOp list" where
  "apply_ops n = replicate (min (n + 1) DELETE_RULE_LIMIT) DeleteRule @ [DeleteRoute, ReplaceRoute, AddRule]"

lemma kernel_run_append: "kernel_run (xs @ ys) k = kernel_run ys (kernel_run xs k)"
  by (induction xs arbitrary: k) simp_all

lemma kernel_run_deletes: "kernel_run (replicate m DeleteRule) (n, b) = (n - m, b)"
  by (induction m arbitrary: n) (auto split: if_splits)

lemma kernel_run_apply: "kernel_run (apply_ops n) (n, b) = (max 1 (n - DELETE_RULE_LIMIT), True)"
  by (auto simp: apply_ops_def kernel_run_append kernel_run_deletes max_def min_def)

lemma apply_served:
  assumes "serves r lo (n, b) (apply_ops n) log w" "pbr_action r = PbrApply"
  shows "\<exists>w'. run_action r lo w = (Inr (pbr_line ''applied'' r), w') \<and>
    serves r lo (kernel_run (apply_ops n) (n, b)) [] log w'"
proof -
  from delete_rules_served [OF assms(1) [unfolded apply_ops_def]] obtain w1 where
    w1: "delete_rules DELETE_RULE_LIMIT r w = (Inr (), w1)"
      "serves r lo (n - DELETE_RULE_LIMIT, b) [DeleteRoute, ReplaceRoute, AddRule] log w1" by blast
  from send_message_served [OF w1(2)] obtain w2 where
    w2: "est_bind take_seq (\<lambda>seq. send_pbr_message DeleteRoute (pbr_msg r lo DeleteRoute seq)) w1 = (Inr (), w2)"
      "serves r lo (n - DELETE_RULE_LIMIT, False) [ReplaceRoute, AddRule] log w2" by (auto split: if_splits)
  from send_message_served [OF w2(2)] obtain w3 where
    w3: "est_bind take_seq (\<lambda>seq. send_pbr_message ReplaceRoute (pbr_msg r lo ReplaceRoute seq)) w2 = (Inr (), w3)"
      "serves r lo (n - DELETE_RULE_LIMIT, True) [AddRule] log w3" by auto
  from send_message_served [OF w3(2)] obtain w4 where
    w4: "est_bind take_seq (\<lambda>seq. send_pbr_message AddRule (pbr_msg r lo AddRule seq)) w3 = (Inr (), w4)"
      "serves r lo (snd (kernel_step AddRule (n - DELETE_RULE_LIMIT, True))) [] log w4" by blast
  have "run_action r lo w = (Inr (pbr_line ''applied'' r), w4)"
    using assms(2) w1(1) w2(1) w3(1) w4(1)
    by (auto simp: run_action_def cleanup_request_def est_bind_def pbr_msg_def split: prod.splits sum.splits)
  moreover have "snd (kernel_step AddRule (n - DELETE_RULE_LIMIT, True)) = kernel_run (apply_ops n) (n, b)"
    unfolding kernel_run_apply by (auto simp: max_def)
  ultimately show ?thesis using w4(2) by simp
qed

definition sample_request :: PbrRequest where
  "sample_request = \<lparr>pbr_action = PbrApply, pbr_family = Ipv4, pbr_mark = 1, pbr_mask = 255, pbr_table = 100, pbr_pref = 10\<rparr>"

text \<open>
  The messages of the command are well formed: for each operation the message is read as one netlink message
  with its type, flags and sequence number, and its attributes give back the mark, mask, priority and table, or the
  interface and table.
\<close>

lemma pbr_message_roundtrip:
  "iter_all (pbr_msg r lo op seq) =
     [Inr \<lparr>nv_header = pbr_header r lo op seq, nv_data = RtMsg_bytes (pbr_rtm r op) @ enc_nlas (pbr_attrs r lo op)\<rparr>] \<and>
   read_RtMsg (drop 16 (pbr_msg r lo op seq)) = pbr_rtm r op \<and>
   parse_nlas (\<lambda>ty v acc. (Inr (), acc @ [(ty, v)])) (drop 28 (pbr_msg r lo op seq)) [] = (Inr (), pbr_attrs r lo op)"
proof -
  have len: "unat (of_nat (28 + length (enc_nlas (pbr_attrs r lo op))) :: u32) = 28 + length (enc_nlas (pbr_attrs r lo op))"
    by (rule unat_of_nat_small) (simp add: length_pbr_attrs)
  have f: "nl_frame (pbr_msg r lo op seq)"
    using len by (simp add: nl_frame_def pbr_msg_eq pbr_header_def length_pbr_attrs del: of_nat_add split: if_splits)
  have "list_all nla_fits (pbr_attrs r lo op)" by (simp add: pbr_attrs_def nla_fits_def)
  then have p: "parse_nlas cb (enc_nlas (pbr_attrs r lo op)) s = run_nlas cb (pbr_attrs r lo op) s" for cb and s :: "(u16 \<times> bytes) list"
    by (rule parse_nlas_enc_nlas)
  show ?thesis
    using iter_all_frame [OF f, of "[]"] by (simp add: frame_view_def pbr_msg_eq p) (simp add: pbr_attrs_def)
qed

end
