(* ===== verification/App.thy ===== *)
theory App
  imports Daemon_Run Pbr
begin

text \<open>
  \<^verbatim>\<open>src/app.rs\<close> and \<^verbatim>\<open>src/main.rs\<close>: from the command line to the subcommands.

  \<open>env\<close> is everything the process finds around it: the environment variable, the files, \<^verbatim>\<open>/proc\<close>, the results of
  the system calls and the kernel's answers. A result is what the process prints, the requests' world and how
  it ends: with a result, by an exit inside the argument parser, by a panic, still running, or not at all.
\<close>

record env =
  e_ready_var :: "string option"
  e_ready :: ready_script
  e_read_file :: "string \<Rightarrow> (io_error, string) res"
  e_current_dir :: "(io_error, string) res"
  e_canonicalize :: "string \<Rightarrow> (io_error, string) res"
  e_procfs :: procfs
  e_kill :: "(io_error, unit) res"
  e_looks :: "nat \<Rightarrow> procfs"
  e_start :: start_script
  e_log_dir :: "io_error option"
  e_log_open :: "io_error option"
  e_if_index :: u32
  e_settime :: "io_error option"
  e_turns :: "turn_input list"
  e_key_order :: key_order
  e_pending_order :: "(IpKey \<times> RuleAction) list \<Rightarrow> (IpKey \<times> RuleAction) list"
  e_ip_order :: "IpKey list \<Rightarrow> IpKey list"
  e_debug_assertions :: bool
  e_os :: os
  e_world :: world

datatype ending = Ended "(AppError, unit) res" | ExitedZero usage | Panicked | Running | Diverged

record app_result =
  ar_ending :: ending
  ar_printed :: "string list"
  ar_world :: world

definition no_result :: "ending \<Rightarrow> env \<Rightarrow> app_result" where
  "no_result e env = \<lparr>ar_ending = e, ar_printed = [], ar_world = e_world env\<rparr>"

text \<open>\<open>?\<close> after loading the options, which may panic.\<close>

definition with_options :: "env \<Rightarrow> RuntimePaths \<Rightarrow> (Options \<Rightarrow> app_result) \<Rightarrow> app_result" where
  "with_options env paths k =
     (case Options_load (e_key_order env) (e_read_file env) (rp_config paths) (rp_work_dir paths) of
        Panics \<Rightarrow> no_result Panicked env
      | Fails e \<Rightarrow> no_result (Ended (Inl e)) env
      | Returns options \<Rightarrow> k options)"

definition with_logger :: "env \<Rightarrow> Options \<Rightarrow> (world \<Rightarrow> app_result) \<Rightarrow> app_result" where
  "with_logger env options k =
     (case Logger_new (e_log_dir env) (e_log_open env) options (e_world env) of
        (Inl e, w) \<Rightarrow> \<lparr>ar_ending = Ended (Inl e), ar_printed = [], ar_world = w\<rparr>
      | (Inr _, w) \<Rightarrow> k w)"

definition run_daemon :: "env \<Rightarrow> ready_script option \<Rightarrow> Options \<Rightarrow> world \<Rightarrow> app_result" where
  "run_daemon env ready options w =
     (case run (e_debug_assertions env) (e_pending_order env) (e_ip_order env) ready (e_settime env) (e_turns env)
             (Daemon_new options) (e_os env, w) of
        None \<Rightarrow> no_result Diverged env
      | Some (RunWaiting, s, k) \<Rightarrow> \<lparr>ar_ending = Running, ar_printed = [], ar_world = wd s\<rparr>
      | Some (RunDone r, s, k) \<Rightarrow> \<lparr>ar_ending = Ended r, ar_printed = [], ar_world = wd s\<rparr>)"

fun source_of :: "CleanupMode \<Rightarrow> CleanupSource" where
  "source_of ModeTracked = Tracked"
| "source_of ModeDump = Dump"

definition run_cleanup :: "env \<Rightarrow> CleanupMode \<Rightarrow> Options \<Rightarrow> world \<Rightarrow> app_result" where
  "run_cleanup env mode options w =
     (case cleanup_once (e_ip_order env) (source_of mode) options (e_os env, w) of
        None \<Rightarrow> no_result Diverged env
      | Some (r, s, k) \<Rightarrow> \<lparr>ar_ending = Ended r, ar_printed = [], ar_world = wd s\<rparr>)"

fun run_command :: "env \<Rightarrow> RuntimePaths \<Rightarrow> Command \<Rightarrow> app_result" where
  "run_command env paths (Run daemon) =
     (let ready = map_option (\<lambda>fd. (e_ready env)\<lparr>rd_fd := fd\<rparr>) (fst (take_ready_fd_from_env (e_ready_var env))) in
      with_options env paths (\<lambda>options.
        if daemon then
          (case start_background (e_current_dir env) (e_canonicalize env) (e_procfs env) (e_start env) options
                  (set (os_open (e_os env)), e_world env) of
             (r, printed, _, _, w) \<Rightarrow> \<lparr>ar_ending = Ended r, ar_printed = printed, ar_world = w\<rparr>)
        else with_logger env options (run_daemon env ready options)))"
| "run_command env paths Stop =
     (case stop_background (e_current_dir env) (e_canonicalize env) (e_procfs env) (e_kill env) (e_looks env)
             (rp_work_dir paths) (e_world env) of
        (r, printed, w) \<Rightarrow> \<lparr>ar_ending = Ended r, ar_printed = printed, ar_world = w\<rparr>)"
| "run_command env paths Resync =
     (case signal_resync (e_current_dir env) (e_canonicalize env) (e_procfs env) (e_kill env) (rp_work_dir paths) of
        (r, printed) \<Rightarrow> \<lparr>ar_ending = Ended r, ar_printed = printed, ar_world = e_world env\<rparr>)"
| "run_command env paths (CleanupCmd mode) =
     with_options env paths (\<lambda>options. with_logger env options (run_cleanup env mode options))"
| "run_command env paths (Pbr request) =
     (case run_request (e_if_index env) request (e_os env, e_world env) of
        (Inl e, _, w) \<Rightarrow> \<lparr>ar_ending = Ended (Inl e), ar_printed = [], ar_world = w\<rparr>
      | (Inr line, _, w) \<Rightarrow> \<lparr>ar_ending = Ended (Inr ()), ar_printed = [line], ar_world = w\<rparr>)"
| "run_command env paths Status =
     (case print_status (e_current_dir env) (e_canonicalize env) (e_procfs env)
             (Options_load (e_key_order env) (e_read_file env) (rp_config paths) (rp_work_dir paths)) of
        None \<Rightarrow> no_result Panicked env
      | Some (r, printed) \<Rightarrow> \<lparr>ar_ending = Ended r, ar_printed = printed, ar_world = e_world env\<rparr>)"

definition run_cli :: "env \<Rightarrow> Cli \<Rightarrow> app_result" where
  "run_cli env cli = (let (paths, c) = into_parts cli in run_command env paths c)"

definition run_main :: "env \<Rightarrow> string list \<Rightarrow> app_result" where
  "run_main env args =
     (case parse_args args of
        CliErr e \<Rightarrow> no_result (Ended (Inl e)) env
      | CliExit u \<Rightarrow> \<lparr>ar_ending = ExitedZero u, ar_printed = usage_lines u, ar_world = e_world env\<rparr>
      | CliOk cli \<Rightarrow> run_cli env cli)"

text \<open>How the process ends: an exit status with the lines on standard error, a panic, or not yet.\<close>

datatype exit_status = ExitCode int "string list" | Crashed | NotEnded

definition main :: "env \<Rightarrow> string list \<Rightarrow> exit_status" where
  "main env args =
     (case ar_ending (run_main env args) of
        Ended (Inr _) \<Rightarrow> ExitCode 0 []
      | Ended (Inl err) \<Rightarrow> ExitCode 1 [''addrsyncd: '' @ AppError_display err]
      | ExitedZero _ \<Rightarrow> ExitCode 0 []
      | Panicked \<Rightarrow> Crashed
      | Running \<Rightarrow> NotEnded
      | Diverged \<Rightarrow> NotEnded)"

subsection \<open>Whole commands\<close>

definition command_line :: "string \<Rightarrow> string \<Rightarrow> Command \<Rightarrow> string list" where
  "command_line config work_dir c = print_cli \<lparr>cli_config = config, cli_work_dir = work_dir, cli_command = c\<rparr>"

lemma run_main_command:
  "command_ok c \<Longrightarrow> run_main env (command_line config work_dir c) =
     run_command env \<lparr>rp_config = config, rp_work_dir = work_dir\<rparr> c"
  using parse_args_print [of "\<lparr>cli_config = config, cli_work_dir = work_dir, cli_command = c\<rparr>"]
  by (simp add: run_main_def command_line_def run_cli_def into_parts_def)

text \<open>
  C27. Applying a policy route from the command line works whatever is there already: against a kernel with
  \<open>n\<close> copies of the rule that answers each request by its effect, \<^verbatim>\<open>addrsyncd pbr apply\<close> with valid numbers exits
  with status zero and prints its line; it sends exactly the deletions up to the first refusal (32 at most), the
  removal of the route, the new route and the new rule, numbered consecutively, and leaves the route and one
  rule; only when there were more than 32 copies do \<open>n - 32\<close> of them stay.
\<close>

theorem pbr_apply_command:
  assumes "command_ok (Pbr r)" "pbr_action r = PbrApply" "e_if_index env \<noteq> 0" "open_rule (e_os env) = (Inr fd, k1)"
    "tx_script (socks (e_world env) RuleSock) = []"
    "rx_script (socks (e_world env) RuleSock) = kernel_replies (seq_cell (e_world env)) (n, b) (apply_ops n)"
  shows "main env (command_line config work_dir (Pbr r)) = ExitCode 0 [] \<and>
    ar_printed (run_main env (command_line config work_dir (Pbr r))) = [pbr_line ''applied'' r] \<and>
    tx_log (socks (ar_world (run_main env (command_line config work_dir (Pbr r)))) RuleSock) =
      tx_log (socks (e_world env) RuleSock) @ sent r (e_if_index env) (seq_cell (e_world env)) (apply_ops n) \<and>
    kernel_run (apply_ops n) (n, b) = (max 1 (n - 32), True)"
proof -
  let ?w = "e_world env" and ?lo = "e_if_index env"
  have "serves r ?lo (n, b) (apply_ops n) (tx_log (socks ?w RuleSock) @ sent r ?lo (seq_cell ?w) (apply_ops n)) ?w"
    using assms by (simp add: serves_def)
  from apply_served [OF this assms(2)] obtain w' where
    "run_action r ?lo ?w = (Inr (pbr_line ''applied'' r), w')"
    "tx_log (socks w' RuleSock) = tx_log (socks ?w RuleSock) @ sent r ?lo (seq_cell ?w) (apply_ops n)"
    by (auto simp: serves_def)
  with assms(3,4) run_main_command [OF assms(1)] kernel_run_apply [of n b] show ?thesis
    by (simp add: main_def run_request_def loopback_ifindex_def)
qed

lemma Logger_new_ok: "\<exists>lg w1. Logger_new None None options w = (Inr lg, w1) \<and> socks w1 = socks w"
  using instant_now_frame(1) [of w]
  by (cases "instant_now w"; cases "path_parent (opt_log_file options)") (simp_all add: Logger_new_def)

text \<open>
  C38. \<^verbatim>\<open>addrsyncd cleanup --mode tracked\<close> removes nothing: whenever the configuration loads, the log file
  opens and the socket opens, the command exits with status zero and prints nothing, but it has not sent a single
  request on any socket, because a new process tracks no address.
\<close>

theorem tracked_cleanup_command:
  assumes "Options_load (e_key_order env) (e_read_file env) config work_dir = Returns options"
    "e_log_dir env = None" "e_log_open env = None" "open_rule (e_os env) = (Inr fd, k1)" "hash_order (e_ip_order env)"
  shows "main env (command_line config work_dir (CleanupCmd ModeTracked)) = ExitCode 0 [] \<and>
    tx_log (socks (ar_world (run_main env (command_line config work_dir (CleanupCmd ModeTracked)))) i) =
      tx_log (socks (e_world env) i)"
proof -
  obtain lg w1 where lg: "Logger_new None None options (e_world env) = (Inr lg, w1)" "socks w1 = socks (e_world env)"
    using Logger_new_ok by blast
  from cleanup_once_tracked_noop [OF assms(5,4), of options w1] obtain s' where
    "cleanup_once (e_ip_order env) Tracked options (e_os env, w1) = Some (Inr (), s', drop_socket fd k1)"
    "\<forall>i. tx_log (socks (wd s') i) = tx_log (socks w1 i)" by blast
  with lg assms(1-3) run_main_command [of "CleanupCmd ModeTracked" env config work_dir] show ?thesis
    by (simp add: main_def with_options_def with_logger_def run_cleanup_def)
qed

definition sample_env :: env where
  "sample_env = \<lparr>e_ready_var = None, e_ready = sample_ready, e_read_file = (\<lambda>_. Inr sample_text), e_current_dir = Inr ''/'',
     e_canonicalize = (\<lambda>_. Inr ''/e''), e_procfs = empty_procfs, e_kill = Inr (), e_looks = (\<lambda>_. empty_procfs),
     e_start = sample_start, e_log_dir = None, e_log_open = None, e_if_index = 1, e_settime = None, e_turns = [],
     e_key_order = id, e_pending_order = id, e_ip_order = id, e_debug_assertions = False, e_os = sample_os,
     e_world = quiet_world\<lparr>socks := (\<lambda>_. \<lparr>rx_script = kernel_replies 1 (2, True) (apply_ops 2), tx_script = [], tx_log = []\<rparr>)\<rparr>\<rparr>"

theorem pbr_apply_command_witness:
  "main sample_env (command_line ''a.toml'' ''/e'' (Pbr sample_request)) = ExitCode 0 []"
proof -
  obtain k1 where k1: "open_rule (e_os sample_env) = (Inr 3, k1)" using open_rule_sample by (auto simp: sample_env_def)
  have "command_ok (Pbr sample_request)" "pbr_action sample_request = PbrApply" "e_if_index sample_env \<noteq> 0"
    "tx_script (socks (e_world sample_env) RuleSock) = []"
    "rx_script (socks (e_world sample_env) RuleSock) = kernel_replies (seq_cell (e_world sample_env)) (2, True) (apply_ops 2)"
    by (simp_all add: sample_request_def sample_env_def quiet_world_def)
  from pbr_apply_command [OF this(1-3) k1 this(4,5)] show ?thesis by simp
qed

theorem tracked_cleanup_command_witness:
  "main sample_env (command_line ''a.toml'' ''/e'' (CleanupCmd ModeTracked)) = ExitCode 0 []"
proof -
  obtain k1 where k1: "open_rule (e_os sample_env) = (Inr 3, k1)" using open_rule_sample by (auto simp: sample_env_def)
  have l: "Options_load (e_key_order sample_env) (e_read_file sample_env) ''a.toml'' ''/e'' = Returns sample_options"
    using sample_loaded by (simp add: sample_env_def)
  have "hash_order (e_ip_order sample_env)" by (simp add: sample_env_def hash_order_def)
  from tracked_cleanup_command [OF l _ _ k1 this] show ?thesis by (simp add: sample_env_def)
qed

end
