(* ===== verification/Spec2Isabelle.thy ===== *)
theory Spec2Isabelle
  imports Event_Delivery Startup_Cleanup Run_Bounds App
begin

text \<open>
  \<^bold>\<open>addrsyncd\<close> keeps one policy-routing rule per local address: it listens to address events on a
  route netlink socket, collects them for a short time, and sends batches of rule requests on a rule
  netlink socket; at the start it removes the rules a previous run left behind, then compares the
  interfaces with the rules it owns (a resync), and at the end it removes its rules again. The
  repository's sources are under \<^verbatim>\<open>src/src\<close>; file names below are relative to that directory.

  \<^bold>\<open>Parts and theories.\<close> Each theory follows the order of the file it models; a definition has the name
  of the Rust item, with the type's name in front where two items share a name.

  \<^item> \<open>Prelude\<close>, \<open>Linux_Abi\<close>, \<open>Rust_Str\<close>: shared types (machine words, byte strings, results), the numeric
    constants of the kernel interface, and the string functions of the standard library in use.
  \<^item> \<open>Errors\<close> (\<^verbatim>\<open>error.rs\<close>, part of \<^verbatim>\<open>kernel.rs\<close>), \<open>Ip\<close> (\<^verbatim>\<open>ip_key.rs\<close>).
  \<^item> \<open>Codec\<close> (\<^verbatim>\<open>netlink/codec.rs\<close>, \<^verbatim>\<open>netlink/linux_types.rs\<close>, \<^verbatim>\<open>netlink/raw_addr.rs\<close>): messages and
    attributes as bytes, acknowledgements, sequence numbers.
  \<^item> \<open>World\<close> (\<^verbatim>\<open>kernel.rs\<close>, calls of \<^verbatim>\<open>netlink/socket.rs\<close>): the operating system as scripts of results,
    an argument of every definition that makes calls. \<open>Socket\<close> (\<^verbatim>\<open>netlink/socket.rs\<close>): the receive ring and
    the send headers.
  \<^item> \<open>Dump_Engine\<close>, \<open>Rule\<close>, \<open>Cleanup\<close>, \<open>Addr\<close>: the files of the same names under \<^verbatim>\<open>netlink\<close>.
  \<^item> \<open>Net_Parse\<close>, \<open>Path\<close>: numbers, addresses and paths as the standard library reads and prints them;
    \<open>normalize_path\<close> of \<^verbatim>\<open>control.rs\<close>. \<open>Toml\<close>, \<open>Config\<close> (\<^verbatim>\<open>config.rs\<close>): the parser of the configuration file
    and the validated \<open>Options\<close>. \<open>Cli\<close> (\<^verbatim>\<open>cli.rs\<close>), \<open>Control\<close> (\<^verbatim>\<open>control.rs\<close>).
  \<^item> \<open>Log_Call\<close>, \<open>Logger\<close> (\<^verbatim>\<open>logger.rs\<close>): the structured calls, which the daemon's state keeps in order, and
    what the logger does with a call: schemas, rate limit, line format, buffered writing.
  \<^item> \<open>Service\<close> (\<^verbatim>\<open>daemon/service.rs\<close>): the records \<open>Daemon\<close> and \<open>EventLoopState\<close>; \<open>sys\<close> adds the world and the
    scratch buffers that the code passes beside them. A handler is a function of the state that returns a
    result or an error with the new state.
  \<^item> \<open>Batch_Apply\<close>, \<open>Resync_Plan\<close>, \<open>Maintenance\<close>, \<open>Event_Loop\<close>: \<^verbatim>\<open>daemon/service/batch_apply.rs\<close>,
    \<^verbatim>\<open>resync_cleanup.rs\<close> (the chunked difference, then the maintenance state machine), \<^verbatim>\<open>event_loop.rs\<close> and the
    timer part of \<^verbatim>\<open>lifecycle.rs\<close>.
  \<^item> \<open>Setup\<close> (opening in \<^verbatim>\<open>netlink/socket.rs\<close> and \<^verbatim>\<open>daemon/service/lifecycle.rs\<close>): the process's descriptors, the
    calls it makes and which of them fail. \<open>Daemon_Run\<close> (\<open>run\<close> and \<open>cleanup_once\<close> of \<^verbatim>\<open>daemon/service.rs\<close>),
    \<open>Pbr\<close> (\<^verbatim>\<open>netlink/pbr.rs\<close>), \<open>App\<close> (\<^verbatim>\<open>app.rs\<close>, \<^verbatim>\<open>main.rs\<close>): the commands as a whole, over a record of
    everything the process finds around it.
  \<^item> \<open>Kernel_Sync\<close>: an abstract kernel rule table and owner, which the batches refine. \<open>Invariants\<close>: the
    invariant of the daemon, that every handler keeps it, and the properties of runs; \<open>Run_Bounds\<close>: how often the
    startup cleanup is tried, and the bounds of a run. \<open>Convergence\<close>: the
    daemon and the kernel taking turns until a maintenance job is done; \<open>Startup_Cleanup\<close> adds the slices that
    read the rule dump. \<open>Route_Events\<close>, \<open>Event_Delivery\<close>: what
    the packets on the route socket make of the pending events, and their way to the kernel.

  \<^bold>\<open>Interfaces.\<close> Clients rely on providers through locales, each interpreted on the definitions of the
  model: \<open>rx_ring\<close>, the ring that the receive loops drain; \<open>ack_tracking\<close>, the tracker of a batch; \<open>chunk_source\<close>,
  the plans of the maintenance jobs; \<open>chunked_job\<close>, the turns of the three jobs that work off such a plan;
  \<open>fd_opener\<close> and its extension \<open>clean_opener\<close>, the functions that open the descriptors of a run; and
  \<open>slice_invariant\<close> and \<open>daemon_invariant\<close>, the steps and handlers a predicate has to survive to hold after a
  maintenance slice and along every run.

  \<^bold>\<open>What is shown.\<close> The codec is safe on arbitrary bytes and reads back what it builds; batches send what
  they should and are finished exactly when answered; the snapshot, the filters and the resync plan equal
  their set-level specifications; the owned set follows the kernel's rule table: address
  events reach the kernel, and a resync, a startup cleanup and a shutdown cleanup end after finitely many
  rounds with the rules they are meant to leave, apart from requests the kernel refuses; the maintenance state
  machine never waits in vain, no wakeup is lost and every bounded quantity stays in its bounds along every
  run. Configuration strings, command lines and logged values are read back as written, accepted options are
  within their ranges, the program recognises its own command line among the running processes, and the
  log loses no line while its file takes writes. A run gives back every descriptor it opened and ends with
  nothing under way; \<^verbatim>\<open>pbr apply\<close>, from its command line to the kernel's table, leaves one rule and one route. Some
  theorems state behaviour that is probably not intended: an address deleted elsewhere is never
  added again, a timeout forgets answers, received packets beyond the budget are dropped, mapped networks
  never match, maintenance starts after the shutdown cleanup, a stray quote in an array panics, a number
  wider than 32 bits is cut, a pipe stays open when the path of the program cannot be found, a socket stays
  open when its options cannot be set, the signal and timer descriptors stay open when a later step of
  the setup fails, \<^verbatim>\<open>cleanup --mode tracked\<close> removes nothing.

  \<^bold>\<open>Bounds and termination.\<close> Lengths and counters that the code keeps in \<open>usize\<close> are natural numbers where
  memory bounds them and words of their width where the code relies on it (sequence numbers, batch
  identifiers, streak counters, the retry counter). Loops over scripts terminate because each turn consumes
  a script entry; the loop of a maintenance slice terminates by its budget and the rank of the job; no fuel
  is used there. The dump loop of the blocking cleanup performs calls in its callback; it is a partial function
  whose value is \<open>None\<close> where it does not return, and the tracked variant is shown to return. Iteration orders of hash tables are parameters (\<open>hash_order\<close>).

  \<^bold>\<open>Not modelled.\<close> A panic is an outcome, its message is not. Memory allocation failure, thread scheduling and the addresses of buffers are left out, and so are the
  flags of calls that have no effect the program can see (close-on-exec). The files of module declarations
  hold no code.
\<close>

end
